(* ===== verification/Prelude.thy ===== *)
theory Prelude
  imports Main "HOL-Library.AList"
begin

text \<open>
  Shared vocabulary of the development: Python strings as lists of code points, Python
  dictionaries as ordered association lists, reachable states of a step relation, and the
  interfaces (locales) that several components meet:
  \<^item> \<open>accounted_queue\<close>: a FIFO that keeps a running cost beside its items;
  \<^item> \<open>invariant_system\<close>: a step relation with an inductive invariant;
  \<^item> \<open>stream_consumer\<close>: a consumer whose result does not depend on how its input is cut
    into chunks.
  The collections \<open>dict_simps\<close> and \<open>acct_simps\<close> hold the rewrite rules the component
  proofs share.
\<close>

named_theorems dict_simps \<open>lookup and membership after an update of a dictionary\<close>
named_theorems acct_simps \<open>items and running cost of the byte-accounted queues\<close>

section \<open>Python strings\<close>

text \<open>
  A Python \<open>str\<close> is a sequence of Unicode code points and \<open>len\<close> counts code points.
  Identifiers that the program only compares (device ids, owners, run ids) are plain
  \<open>string\<close>s.
\<close>

type_synonym pystr = "nat list"
type_synonym bytestr = "nat list"

definition lit :: "string \<Rightarrow> pystr" where
  "lit s = map of_char s"

lemma lit_simps [simp]: "lit [] = []" "lit (c # cs) = of_char c # lit cs"
  by (simp_all add: lit_def)

lemma length_lit [simp]: "length (lit s) = length s"
  by (simp add: lit_def)

text \<open>\<open>ord\<close> of a one-character literal.\<close>

abbreviation cp :: "char \<Rightarrow> nat" where
  "cp c \<equiv> of_char c"

text \<open>\<open>s.split(sep)\<close> for a one-character separator: never empty, and \<open>n\<close>
  separators give \<open>n + 1\<close> fields.\<close>

fun split_on :: "nat \<Rightarrow> pystr \<Rightarrow> pystr list" where
  "split_on sep [] = [[]]"
| "split_on sep (c # cs) =
     (if c = sep then [] # split_on sep cs
      else (case split_on sep cs of [] \<Rightarrow> [[c]] | f # fs \<Rightarrow> (c # f) # fs))"

lemma split_on_nonempty [simp]: "split_on sep cs \<noteq> []"
  by (cases cs) (auto split: list.splits)

lemma split_on_no_sep: "sep \<notin> set cs \<Longrightarrow> split_on sep cs = [cs]"
  by (induction cs) auto

lemma split_on_append:
  "sep \<notin> set f \<Longrightarrow> split_on sep (f @ sep # cs) = f # split_on sep cs"
  by (induction f) (auto split: list.splits)

lemma split_on_prefix:
  "sep \<notin> set f \<Longrightarrow> split_on sep (f @ cs) = (f @ hd (split_on sep cs)) # tl (split_on sep cs)"
  by (induction f) (auto split: list.splits)

text \<open>\<open>deque(maxlen=n).append(x)\<close>: the oldest elements fall off the left end.\<close>

definition last_n :: "nat \<Rightarrow> 'a list \<Rightarrow> 'a list" where
  "last_n n xs = drop (length xs - n) xs"

lemma last_n_length [simp]: "length (last_n n xs) = min n (length xs)"
  by (simp add: last_n_def min_def)

lemma last_n_set: "set (last_n n xs) \<subseteq> set xs"
  by (simp add: last_n_def set_drop_subset)

lemma last_n_last_n_append: "last_n n (last_n n xs @ ys) = last_n n (xs @ ys)"
  by (cases "length xs \<le> n") (simp_all add: last_n_def add.commute)

lemma last_n_all: "length xs \<le> n \<Longrightarrow> last_n n xs = xs"
  by (simp add: last_n_def)

section \<open>JSON string encoding\<close>

text \<open>
  \<open>json.dumps\<close> of a string with its default \<open>ensure_ascii=True\<close>: the quotes, the short
  escapes, printable ASCII as itself, everything else as \<open>\uXXXX\<close> (a surrogate pair above
  the basic plane).
\<close>

definition hex_digit :: "nat \<Rightarrow> nat" where
  "hex_digit d = (if d < 10 then 48 + d else 87 + d)"

definition u_escape :: "nat \<Rightarrow> pystr" where
  "u_escape n = [92, 117, hex_digit (n div 4096 mod 16), hex_digit (n div 256 mod 16),
     hex_digit (n div 16 mod 16), hex_digit (n mod 16)]"

definition json_escape :: "nat \<Rightarrow> pystr" where
  "json_escape c =
     (if c = 34 then [92, 34]
      else if c = 92 then [92, 92]
      else if c = 10 then [92, 110]
      else if c = 13 then [92, 114]
      else if c = 9 then [92, 116]
      else if c = 12 then [92, 102]
      else if c = 8 then [92, 98]
      else if 32 \<le> c \<and> c \<le> 126 then [c]
      else if c < 65536 then u_escape c
      else u_escape (55296 + (c - 65536) div 1024 mod 1024) @ u_escape (56320 + (c - 65536) mod 1024))"

definition dumps_str :: "pystr \<Rightarrow> pystr" where
  "dumps_str s = [34] @ concat (map json_escape s) @ [34]"

lemma json_escape_length: "1 \<le> length (json_escape c) \<and> length (json_escape c) \<le> 12"
  by (simp add: json_escape_def u_escape_def)

lemma dumps_str_length_le: "length (dumps_str s) \<le> 12 * length s + 2"
proof -
  have "length (concat (map json_escape s)) \<le> 12 * length s"
    by (induction s) (auto intro: add_mono simp: json_escape_length)
  then show ?thesis by (simp add: dumps_str_def)
qed

section \<open>Python dictionaries\<close>

text \<open>
  A \<open>dict\<close> keeps insertion order and assigning to an existing key keeps its place:
  exactly \<open>AList.update\<close>. \<open>pop\<close> and \<open>del\<close> are \<open>AList.delete\<close>.
\<close>

type_synonym ('k, 'v) dict = "('k \<times> 'v) list"

abbreviation dict_get :: "('k, 'v) dict \<Rightarrow> 'k \<Rightarrow> 'v option" where
  "dict_get d k \<equiv> map_of d k"

abbreviation dict_set :: "'k \<Rightarrow> 'v \<Rightarrow> ('k, 'v) dict \<Rightarrow> ('k, 'v) dict" where
  "dict_set k v d \<equiv> AList.update k v d"

abbreviation dict_pop :: "'k \<Rightarrow> ('k, 'v) dict \<Rightarrow> ('k, 'v) dict" where
  "dict_pop k d \<equiv> AList.delete k d"

abbreviation dict_keys :: "('k, 'v) dict \<Rightarrow> 'k list" where
  "dict_keys d \<equiv> map fst d"

definition wf_dict :: "('k, 'v) dict \<Rightarrow> bool" where
  "wf_dict d \<longleftrightarrow> distinct (dict_keys d)"

lemma wf_dict_simps [simp]:
  "wf_dict []" "wf_dict (p # d) \<longleftrightarrow> fst p \<notin> set (dict_keys d) \<and> wf_dict d"
  by (simp_all add: wf_dict_def)

lemma dict_get_set [dict_simps]: "dict_get (dict_set k v d) k' = (if k' = k then Some v else dict_get d k')"
  by (simp add: update_conv')

lemma dict_get_pop [dict_simps]: "dict_get (dict_pop k d) k' = (if k' = k then None else dict_get d k')"
  by (simp add: delete_conv')

lemma wf_dict_set [simp]: "wf_dict d \<Longrightarrow> wf_dict (dict_set k v d)"
  by (simp add: wf_dict_def distinct_update)

lemma wf_dict_pop [simp]: "wf_dict d \<Longrightarrow> wf_dict (dict_pop k d)"
  by (simp add: wf_dict_def distinct_delete)

lemma wf_dict_filter [simp]: "wf_dict d \<Longrightarrow> wf_dict (filter P d)"
  by (simp add: wf_dict_def distinct_map_filter)

lemma wf_dict_get_iff: "wf_dict d \<Longrightarrow> dict_get d k = Some v \<longleftrightarrow> (k, v) \<in> set d"
  by (simp add: wf_dict_def)

lemma dict_get_filter: "wf_dict d \<Longrightarrow>
    dict_get (filter P d) k =
      (case dict_get d k of None \<Rightarrow> None | Some v \<Rightarrow> if P (k, v) then Some v else None)"
  by (induction d) (auto split: option.splits simp: map_of_eq_None_iff)

lemma dict_get_keys: "dict_get d k \<noteq> None \<longleftrightarrow> k \<in> set (dict_keys d)"
  by (metis map_of_eq_None_iff list.set_map)

section \<open>Reachable states\<close>

inductive reachable :: "('s \<Rightarrow> bool) \<Rightarrow> ('s \<Rightarrow> 's \<Rightarrow> bool) \<Rightarrow> 's \<Rightarrow> bool"
  for init step where
  reach_init: "init s \<Longrightarrow> reachable init step s"
| reach_step: "reachable init step s \<Longrightarrow> step s t \<Longrightarrow> reachable init step t"

locale invariant_system =
  fixes init :: "'s \<Rightarrow> bool" and step :: "'s \<Rightarrow> 's \<Rightarrow> bool" and inv :: "'s \<Rightarrow> bool"
  assumes init_inv: "init s \<Longrightarrow> inv s"
    and step_inv: "inv s \<Longrightarrow> step s t \<Longrightarrow> inv t"
begin

lemma reachable_inv: "reachable init step s \<Longrightarrow> inv s"
  by (induction rule: reachable.induct) (auto intro: init_inv step_inv)

lemma reachable_steps: "reachable init step s \<Longrightarrow> step\<^sup>*\<^sup>* s t \<Longrightarrow> reachable init step t"
  by (rotate_tac, induction rule: rtranclp_induct) (auto intro: reach_step)

end

section \<open>Byte-accounted queues\<close>

text \<open>
  The delivery queue, a socket's outbound queue and the terminal writer's input all keep a
  FIFO and, beside it, the running total of its items' costs, adjusted at every append and
  pop instead of being recomputed. The contract says what the two operations do; the client
  facts are that the running total never drifts from the real total.
\<close>

locale accounted_queue =
  fixes items :: "'q \<Rightarrow> 'a list" and total :: "'q \<Rightarrow> int" and cost :: "'a \<Rightarrow> nat"
    and add :: "'a \<Rightarrow> 'q \<Rightarrow> 'q" and pop :: "'q \<Rightarrow> 'q"
  assumes items_add: "items (add x q) = items q @ [x]"
    and total_add: "total (add x q) = total q + int (cost x)"
    and items_pop: "items q = x # xs \<Longrightarrow> items (pop q) = xs"
    and total_pop: "items q = x # xs \<Longrightarrow> total (pop q) = total q - int (cost x)"
begin

definition balanced :: "'q \<Rightarrow> bool" where
  "balanced q \<longleftrightarrow> total q = int (sum_list (map cost (items q)))"

lemma balanced_add: "balanced q \<Longrightarrow> balanced (add x q)"
  by (simp add: balanced_def items_add total_add)

lemma balanced_pop: "balanced q \<Longrightarrow> items q \<noteq> [] \<Longrightarrow> balanced (pop q)"
  by (cases "items q") (auto simp: balanced_def items_pop total_pop)

lemma balanced_fold: "balanced q \<Longrightarrow> balanced (fold add xs q)"
  by (induction xs arbitrary: q) (auto intro: balanced_add)

lemma items_fold: "items (fold add xs q) = items q @ xs"
  by (induction xs arbitrary: q) (auto simp: items_add)

lemma balanced_nonneg: "balanced q \<Longrightarrow> 0 \<le> total q"
  by (simp add: balanced_def)

lemma balanced_empty: "balanced q \<Longrightarrow> items q = [] \<Longrightarrow> total q = 0"
  by (simp add: balanced_def)

lemma balanced_member: "balanced q \<Longrightarrow> x \<in> set (items q) \<Longrightarrow> int (cost x) \<le> total q"
  by (auto simp: balanced_def intro!: member_le_sum_list)

end

section \<open>Chunk-independent consumers\<close>

text \<open>
  A consumer takes its input in pieces whose boundaries mean nothing (network reads, output
  batches). The contract is that feeding two pieces is feeding their concatenation; then the
  result of any chunking is the result of the whole input at once.
\<close>

locale stream_consumer =
  fixes feed :: "'a list \<Rightarrow> 's \<Rightarrow> 's \<times> 'b list" and ok :: "'s \<Rightarrow> bool"
  assumes feed_nil: "ok s \<Longrightarrow> feed [] s = (s, [])"
    and feed_ok: "ok s \<Longrightarrow> ok (fst (feed xs s))"
    and feed_append: "ok s \<Longrightarrow> feed (xs @ ys) s =
      (let (s', out) = feed xs s; (s'', out') = feed ys s' in (s'', out @ out'))"
begin

fun feed_all :: "'a list list \<Rightarrow> 's \<Rightarrow> 's \<times> 'b list" where
  "feed_all [] s = (s, [])"
| "feed_all (c # cs) s = (let (s', out) = feed c s; (s'', out') = feed_all cs s' in (s'', out @ out'))"

lemma feed_all_concat: "ok s \<Longrightarrow> feed_all cs s = feed (concat cs) s"
proof (induction cs arbitrary: s)
  case Nil
  then show ?case by (simp add: feed_nil)
next
  case (Cons c cs)
  obtain s' out where c: "feed c s = (s', out)" by force
  have "ok s'" using feed_ok [OF Cons.prems, of c] c by simp
  then show ?case using Cons c by (simp add: feed_append Let_def split: prod.splits)
qed

lemma chunking_irrelevant: "ok s \<Longrightarrow> concat cs = concat ds \<Longrightarrow> feed_all cs s = feed_all ds s"
  by (simp add: feed_all_concat)

end

end
