(* ===== verification/Config.thy ===== *)
theory Config
  imports Complex_Main
begin

text \<open>
  The constants of \<open>simple_network_dashboard/config.py\<close> that the modelled components read.
  Durations are in seconds. Times and fractions are Python floats in the source and exact
  rationals here; sizes and counts are natural numbers.
\<close>

definition DELIVERY_QUEUE_MAX_BYTES :: nat where
  "DELIVERY_QUEUE_MAX_BYTES = 4 * 1024 * 1024"

definition DELIVERY_QUEUE_MAX_ITEMS :: nat where
  "DELIVERY_QUEUE_MAX_ITEMS = 4096"

definition DELIVERY_RESERVED_FRACTION :: rat where
  "DELIVERY_RESERVED_FRACTION = 1 / 10"

definition SOCKET_QUEUE_MAX_BYTES :: nat where
  "SOCKET_QUEUE_MAX_BYTES = 4 * 1024 * 1024"

definition TERM_HISTORY_MAX_LINES :: nat where
  "TERM_HISTORY_MAX_LINES = 1500"

definition TERM_HISTORY_MAX_LINE_CHARS :: nat where
  "TERM_HISTORY_MAX_LINE_CHARS = 4096"

definition TERM_INIT_HISTORY_MAX_CHARS :: nat where
  "TERM_INIT_HISTORY_MAX_CHARS = 1048576"

text \<open>Terminal batching, acknowledgement, sizes, input and time limits.\<close>

definition TERM_BATCH_INTERVAL :: rat where
  "TERM_BATCH_INTERVAL = 3 / 100"

definition TERM_BATCH_MAX_CHARS :: nat where
  "TERM_BATCH_MAX_CHARS = 32768"

definition TERM_UNACKED_MAX_BYTES :: nat where
  "TERM_UNACKED_MAX_BYTES = 512 * 1024"

definition TERM_ACK_STALL_SECONDS :: rat where
  "TERM_ACK_STALL_SECONDS = 20"

definition TERM_DEFAULT_COLS :: int where
  "TERM_DEFAULT_COLS = 120"

definition TERM_DEFAULT_ROWS :: int where
  "TERM_DEFAULT_ROWS = 30"

definition TERM_MIN_COLS :: int where
  "TERM_MIN_COLS = 20"

definition TERM_MAX_COLS :: int where
  "TERM_MAX_COLS = 500"

definition TERM_MIN_ROWS :: int where
  "TERM_MIN_ROWS = 5"

definition TERM_MAX_ROWS :: int where
  "TERM_MAX_ROWS = 200"

definition TERM_INPUT_MAX_CHARS :: nat where
  "TERM_INPUT_MAX_CHARS = 16384"

definition TERM_PENDING_INPUT_MAX_BYTES :: nat where
  "TERM_PENDING_INPUT_MAX_BYTES = 65536"

definition TERM_SILENCE_SECONDS :: rat where
  "TERM_SILENCE_SECONDS = 1800"

text \<open>Limits on saved devices and requests.\<close>

definition MAX_REQUEST_BODY_BYTES :: nat where
  "MAX_REQUEST_BODY_BYTES = 1048576"

definition MAX_DEVICES :: nat where
  "MAX_DEVICES = 250"

definition MAX_COMMANDS_PER_DEVICE :: nat where
  "MAX_COMMANDS_PER_DEVICE = 250"

definition MAX_NAME_LEN :: nat where
  "MAX_NAME_LEN = 80"

definition MAX_HOST_LEN :: nat where
  "MAX_HOST_LEN = 253"

definition MAX_USERNAME_LEN :: nat where
  "MAX_USERNAME_LEN = 64"

definition MAX_COMMAND_LEN :: nat where
  "MAX_COMMAND_LEN = 4096"

definition MAX_CONFIRM_LEN :: nat where
  "MAX_CONFIRM_LEN = 500"

definition MIN_METRICS_PORT :: int where
  "MIN_METRICS_PORT = 1"

definition MAX_METRICS_PORT :: int where
  "MAX_METRICS_PORT = 65535"

text \<open>Grace period before a browserless owner's sessions are released, in seconds.\<close>

definition WS_RELEASE_GRACE_SECONDS :: rat where
  "WS_RELEASE_GRACE_SECONDS = 15"

text \<open>
  \<open>_ws_revalidate_seconds\<close>, for the number the environment variable holds; None is a value
  \<open>float\<close> rejects. A rational stands for a finite float.
\<close>

definition ws_revalidate_seconds :: "rat option \<Rightarrow> rat" where
  "ws_revalidate_seconds v = (case v of None \<Rightarrow> 10 | Some s \<Rightarrow> if s > 0 then s else 10)"

definition METRICS_MAX_RESPONSE_BYTES :: nat where
  "METRICS_MAX_RESPONSE_BYTES = 5 * 1024 * 1024"

end
