(* ===== verification/Terminal_History.thy ===== *)
theory Terminal_History
  imports Prelude Config
begin

text \<open>
  \<open>terminal_history.py\<close>: the plain-text recovery history of one terminal run. A state
  machine over code points keeps finished lines, the unfinished line with its cursor, and
  whether a full-screen program is active; escape sequences are recognised and dropped.
  \<open>trim_to_budget\<close> cuts the histories of one reconnecting browser to a size budget.
\<close>

section \<open>State\<close>

datatype tstate =
  Text | Escape | Csi | Osc | StringSeq | Charset | OscEscape | StringEscape

record terminal_history =
  th_lines :: "pystr list"
  th_line :: pystr
  th_position :: nat
  th_state :: tstate
  th_csi :: pystr
  th_fullscreen :: bool
  th_seq :: int

definition new_history :: terminal_history where
  "new_history = \<lparr>th_lines = [], th_line = [], th_position = 0, th_state = Text,
     th_csi = [], th_fullscreen = False, th_seq = 0\<rparr>"

section \<open>Operations\<close>

definition write_char :: "nat \<Rightarrow> terminal_history \<Rightarrow> terminal_history" where
  "write_char c h =
     (if c = 10 then
        h\<lparr>th_lines := last_n TERM_HISTORY_MAX_LINES (th_lines h @ [th_line h]),
          th_line := [], th_position := 0\<rparr>
      else if c = 13 then h\<lparr>th_position := 0\<rparr>
      else if c = 8 then h\<lparr>th_position := th_position h - 1\<rparr>
      else if c = 9 \<or> (32 \<le> c \<and> \<not> (127 \<le> c \<and> c \<le> 159)) then
        (if th_position h < length (th_line h) then
           h\<lparr>th_line := (th_line h)[th_position h := c], th_position := th_position h + 1\<rparr>
         else if length (th_line h) < TERM_HISTORY_MAX_LINE_CHARS then
           h\<lparr>th_line := th_line h @ replicate (th_position h - length (th_line h)) 32 @ [c],
             th_position := th_position h + 1\<rparr>
         else h)
      else h)"

definition handle_csi :: "pystr \<Rightarrow> terminal_history \<Rightarrow> terminal_history" where
  "handle_csi sequence h =
     (let final = last sequence; params = butlast sequence
      in if final = cp (CHR ''K'') \<and> (params = [] \<or> params = lit ''0'') \<and> \<not> th_fullscreen h
         then h\<lparr>th_line := take (th_position h) (th_line h)\<rparr>
         else if (final \<noteq> cp (CHR ''h'') \<and> final \<noteq> cp (CHR ''l'')) \<or> take 1 params \<noteq> lit ''?''
         then h
         else let modes = split_on (cp (CHR '';'')) (drop 1 params)
              in if lit ''47'' \<in> set modes \<or> lit ''1047'' \<in> set modes \<or> lit ''1049'' \<in> set modes
                 then h\<lparr>th_fullscreen := (final = cp (CHR ''h''))\<rparr>
                 else h)"

definition feed_char :: "nat \<Rightarrow> terminal_history \<Rightarrow> terminal_history" where
  "feed_char c h = (case th_state h of
       Text \<Rightarrow>
         if c = 27 then h\<lparr>th_state := Escape\<rparr>
         else if \<not> th_fullscreen h then write_char c h else h
     | Escape \<Rightarrow>
         if c = cp (CHR ''['') then h\<lparr>th_state := Csi, th_csi := []\<rparr>
         else if c = cp (CHR '']'') then h\<lparr>th_state := Osc\<rparr>
         else if c \<in> set (lit ''PX^_'') then h\<lparr>th_state := StringSeq\<rparr>
         else if c \<in> set (lit ''()'') then h\<lparr>th_state := Charset\<rparr>
         else h\<lparr>th_state := Text\<rparr>
     | Charset \<Rightarrow> h\<lparr>th_state := Text\<rparr>
     | Csi \<Rightarrow>
         (let h' = h\<lparr>th_csi := th_csi h @ [c]\<rparr>
          in if cp (CHR ''@'') \<le> c \<and> c \<le> cp (CHR ''~'')
             then (handle_csi (th_csi h') h')\<lparr>th_state := Text\<rparr> else h')
     | Osc \<Rightarrow>
         if c = 7 then h\<lparr>th_state := Text\<rparr>
         else if c = 27 then h\<lparr>th_state := OscEscape\<rparr> else h
     | StringSeq \<Rightarrow> if c = 27 then h\<lparr>th_state := StringEscape\<rparr> else h
     | OscEscape \<Rightarrow>
         if c = 92 then h\<lparr>th_state := Text\<rparr>
         else if c \<noteq> 27 then h\<lparr>th_state := Osc\<rparr> else h
     | StringEscape \<Rightarrow>
         if c = 92 then h\<lparr>th_state := Text\<rparr>
         else if c \<noteq> 27 then h\<lparr>th_state := StringSeq\<rparr> else h)"

definition feed :: "pystr \<Rightarrow> int \<Rightarrow> terminal_history \<Rightarrow> terminal_history" where
  "feed txt sq h = fold feed_char txt (h\<lparr>th_seq := sq\<rparr>)"

record snapshot =
  sn_lines :: "pystr list"
  sn_partial :: pystr
  sn_fullscreen :: bool
  sn_seq :: int

definition take_snapshot :: "terminal_history \<Rightarrow> snapshot" where
  "take_snapshot h = \<lparr>sn_lines = th_lines h, sn_partial = th_line h,
     sn_fullscreen = th_fullscreen h, sn_seq = th_seq h\<rparr>"

text \<open>The loop of \<open>trim_to_budget\<close> over \<open>reversed(terminal["lines"])\<close>.\<close>

fun count_kept :: "nat \<Rightarrow> nat \<Rightarrow> pystr list \<Rightarrow> nat" where
  "count_kept share used [] = 0"
| "count_kept share used (l # ls) =
     (let used' = used + (length (dumps_str l) + 2)
      in if share < used' then 0 else Suc (count_kept share used' ls))"

definition trim_one :: "nat \<Rightarrow> 'a snapshot_scheme \<Rightarrow> 'a snapshot_scheme" where
  "trim_one share t =
     (let kept = count_kept share (length (dumps_str (sn_partial t))) (rev (sn_lines t))
      in t\<lparr>sn_lines := drop (length (sn_lines t) - kept) (sn_lines t)\<rparr>)"

definition trim_to_budget :: "'a snapshot_scheme list \<Rightarrow> nat \<Rightarrow> 'a snapshot_scheme list" where
  "trim_to_budget terminals budget =
     (if terminals = [] then terminals
      else map (trim_one (budget div length terminals)) terminals)"

section \<open>Well-formed histories\<close>

text \<open>The code points \<open>_write_char\<close> stores: tab and everything outside the two control
  ranges.\<close>

definition visible :: "nat \<Rightarrow> bool" where
  "visible c \<longleftrightarrow> c = 9 \<or> (32 \<le> c \<and> \<not> (127 \<le> c \<and> c \<le> 159))"

definition line_ok :: "pystr \<Rightarrow> bool" where
  "line_ok l \<longleftrightarrow> length l \<le> TERM_HISTORY_MAX_LINE_CHARS \<and> (\<forall>c \<in> set l. visible c)"

definition history_ok :: "terminal_history \<Rightarrow> bool" where
  "history_ok h \<longleftrightarrow>
     length (th_lines h) \<le> TERM_HISTORY_MAX_LINES
   \<and> (\<forall>l \<in> set (th_lines h). line_ok l) \<and> line_ok (th_line h)
   \<and> th_position h \<le> length (th_line h)"

lemma history_ok_new [simp]: "history_ok new_history"
  by (simp add: history_ok_def new_history_def line_ok_def)

lemma line_ok_update: "line_ok l \<Longrightarrow> visible c \<Longrightarrow> line_ok (l[i := c])"
  by (auto simp: line_ok_def dest!: set_update_subset_insert [THEN subsetD])

lemma write_char_newline: "write_char 10 h =
    h\<lparr>th_lines := last_n TERM_HISTORY_MAX_LINES (th_lines h @ [th_line h]),
      th_line := [], th_position := 0\<rparr>"
  by (simp add: write_char_def)

lemma write_char_return: "write_char 13 h = h\<lparr>th_position := 0\<rparr>"
  by (simp add: write_char_def)

lemma write_char_backspace: "write_char 8 h = h\<lparr>th_position := th_position h - 1\<rparr>"
  by (simp add: write_char_def)

lemma write_char_visible: "visible c \<Longrightarrow> write_char c h =
    (if th_position h < length (th_line h) then
       h\<lparr>th_line := (th_line h)[th_position h := c], th_position := th_position h + 1\<rparr>
     else if length (th_line h) < TERM_HISTORY_MAX_LINE_CHARS then
       h\<lparr>th_line := th_line h @ replicate (th_position h - length (th_line h)) 32 @ [c],
         th_position := th_position h + 1\<rparr>
     else h)"
  by (auto simp: write_char_def visible_def)

lemma write_char_other: "c \<noteq> 10 \<Longrightarrow> c \<noteq> 13 \<Longrightarrow> c \<noteq> 8 \<Longrightarrow> \<not> visible c \<Longrightarrow> write_char c h = h"
  by (auto simp: write_char_def visible_def)

lemma history_ok_write_visible:
  assumes "history_ok h" "visible c" shows "history_ok (write_char c h)"
proof (cases "th_position h < length (th_line h)")
  case True
  with assms show ?thesis by (simp add: history_ok_def write_char_visible line_ok_update)
next
  case False
  with assms show ?thesis by (auto simp: history_ok_def write_char_visible line_ok_def)
qed

lemma history_ok_write:
  assumes "history_ok h" shows "history_ok (write_char c h)"
proof -
  consider "c = 10" | "c = 13" | "c = 8" | "visible c" | "c \<noteq> 10 \<and> c \<noteq> 13 \<and> c \<noteq> 8 \<and> \<not> visible c"
    by blast
  then show ?thesis
  proof cases
    case 1
    moreover have "\<forall>l \<in> set (last_n TERM_HISTORY_MAX_LINES (th_lines h @ [th_line h])). line_ok l"
      using assms by (auto simp: history_ok_def dest!: last_n_set [THEN subsetD])
    ultimately show ?thesis by (simp add: write_char_newline history_ok_def line_ok_def)
  qed (use assms in \<open>auto simp: write_char_return write_char_backspace write_char_other
         history_ok_write_visible\<close>, auto simp: history_ok_def)
qed

text \<open>What a control sequence can do: erase to the end of the line, switch the full-screen
  mode, or nothing.\<close>

definition erases :: "pystr \<Rightarrow> bool" where
  "erases s \<longleftrightarrow> last s = cp (CHR ''K'') \<and> (butlast s = [] \<or> butlast s = lit ''0'')"

definition mode_switch :: "pystr \<Rightarrow> bool option" where
  "mode_switch s =
     (if last s \<in> {cp (CHR ''h''), cp (CHR ''l'')} \<and> take 1 (butlast s) = lit ''?''
         \<and> set (split_on (cp (CHR '';'')) (drop 1 (butlast s)))
             \<inter> {lit ''47'', lit ''1047'', lit ''1049''} \<noteq> {}
      then Some (last s = cp (CHR ''h'')) else None)"

lemma handle_csi_alt:
  "handle_csi s h =
     (if erases s \<and> \<not> th_fullscreen h then h\<lparr>th_line := take (th_position h) (th_line h)\<rparr>
      else case mode_switch s of None \<Rightarrow> h | Some b \<Rightarrow> h\<lparr>th_fullscreen := b\<rparr>)"
proof (cases "erases s")
  case True
  then have "mode_switch s = None" by (simp add: erases_def mode_switch_def)
  with True show ?thesis by (auto simp: handle_csi_def erases_def Let_def)
next
  case False
  then show ?thesis by (auto simp: handle_csi_def erases_def mode_switch_def Let_def)
qed

lemma history_ok_csi: "history_ok h \<Longrightarrow> history_ok (handle_csi s h)"
  by (auto simp: history_ok_def handle_csi_alt line_ok_def dest: in_set_takeD split: option.splits)

lemma history_ok_state [simp]:
  "history_ok (h\<lparr>th_state := x\<rparr>) = history_ok h"
  "history_ok (h\<lparr>th_csi := y\<rparr>) = history_ok h"
  "history_ok (h\<lparr>th_seq := z\<rparr>) = history_ok h"
  by (simp_all add: history_ok_def)

lemma history_ok_feed_char: "history_ok h \<Longrightarrow> history_ok (feed_char c h)"
  by (auto simp: feed_char_def Let_def history_ok_write history_ok_csi split: tstate.splits)

lemma history_ok_fold: "history_ok h \<Longrightarrow> history_ok (fold feed_char cs h)"
  by (induction cs arbitrary: h) (auto simp: history_ok_feed_char)

lemma history_ok_feed: "history_ok h \<Longrightarrow> history_ok (feed cs q h)"
  by (simp add: feed_def history_ok_fold)

section \<open>Batches are invisible\<close>

text \<open>
  Output reaches the history in batches cut by size and time. As a consumer of code points
  the history meets the chunk-independence contract.
\<close>

interpretation hist: stream_consumer "\<lambda>cs h. (fold feed_char cs h, [])" "\<lambda>_. True"
  by unfold_locales (auto simp: Let_def)

lemma handle_csi_seq [simp]: "th_seq (handle_csi s h) = th_seq h"
  by (simp add: handle_csi_alt split: option.split)

lemma write_char_seq [simp]: "th_seq (write_char c h) = th_seq h"
  by (simp add: write_char_def)

lemma feed_char_seq [simp]: "th_seq (feed_char c h) = th_seq h"
  by (cases "th_state h") (simp_all add: feed_char_def Let_def)

lemma write_char_seq_update: "write_char c (h\<lparr>th_seq := q\<rparr>) = (write_char c h)\<lparr>th_seq := q\<rparr>"
  by (simp add: write_char_def)

lemma handle_csi_seq_update: "handle_csi s (h\<lparr>th_seq := q\<rparr>) = (handle_csi s h)\<lparr>th_seq := q\<rparr>"
  by (simp add: handle_csi_alt split: option.splits)

lemma feed_char_seq_update: "feed_char c (h\<lparr>th_seq := q\<rparr>) = (feed_char c h)\<lparr>th_seq := q\<rparr>"
proof -
  have "handle_csi s (h\<lparr>th_seq := q, th_csi := u\<rparr>) = (handle_csi s (h\<lparr>th_csi := u\<rparr>))\<lparr>th_seq := q\<rparr>" for s u
    by (cases h) (simp add: handle_csi_alt split: option.split)
  then show ?thesis
    by (cases "th_state h") (simp_all add: feed_char_def Let_def write_char_seq_update)
qed

lemma fold_feed_char_seq_update: "fold feed_char cs (h\<lparr>th_seq := q\<rparr>) = (fold feed_char cs h)\<lparr>th_seq := q\<rparr>"
  by (induction cs arbitrary: h) (auto simp: feed_char_seq_update)

lemma feed_feed: "feed b q (feed a p h) = feed (a @ b) q h"
  by (simp add: feed_def fold_feed_char_seq_update)

section \<open>Plain text\<close>

text \<open>
  The reference for output without cursor movement or escape sequences: drop the code
  points that are not stored, split at newlines, keep the first 4096 code points of each
  line and the last 1500 finished lines.
\<close>

definition stored_text :: "pystr \<Rightarrow> pystr" where
  "stored_text t = filter (\<lambda>c. c = 10 \<or> visible c) t"

definition plain_lines :: "pystr \<Rightarrow> pystr list" where
  "plain_lines t = map (take TERM_HISTORY_MAX_LINE_CHARS) (split_on 10 (stored_text t))"

text \<open>
  \<open>write_fields fs h\<close> is the history after the fields \<open>fs\<close> of an input, the first one
  continuing the unfinished line; \<open>continue_line\<close> does that joining.
\<close>

definition write_fields :: "pystr list \<Rightarrow> terminal_history \<Rightarrow> terminal_history" where
  "write_fields fs h = h\<lparr>
     th_lines := last_n TERM_HISTORY_MAX_LINES
       (th_lines h @ map (take TERM_HISTORY_MAX_LINE_CHARS) (butlast fs)),
     th_line := take TERM_HISTORY_MAX_LINE_CHARS (last fs),
     th_position := length (take TERM_HISTORY_MAX_LINE_CHARS (last fs))\<rparr>"

definition continue_line :: "pystr \<Rightarrow> pystr list \<Rightarrow> pystr list" where
  "continue_line l fs = (l @ hd fs) # tl fs"

definition at_end :: "terminal_history \<Rightarrow> bool" where
  "at_end h \<longleftrightarrow> history_ok h \<and> th_state h = Text \<and> \<not> th_fullscreen h
     \<and> th_position h = length (th_line h)"

lemma write_fields_single: "at_end h \<Longrightarrow> write_fields [th_line h] h = h"
  by (simp add: write_fields_def at_end_def history_ok_def line_ok_def last_n_all)

lemma write_fields_newline:
  assumes "at_end h" "fs \<noteq> []"
  shows "write_fields (th_line h # fs) h =
     write_fields fs (h\<lparr>th_lines := last_n TERM_HISTORY_MAX_LINES (th_lines h @ [th_line h]),
       th_line := [], th_position := 0\<rparr>)"
  using assms by (simp add: write_fields_def at_end_def history_ok_def line_ok_def
      last_n_last_n_append)

lemma write_fields_full:
  assumes "length l = TERM_HISTORY_MAX_LINE_CHARS"
  shows "write_fields ((l @ xs) # fs) h = write_fields (l # fs) h"
  using assms by (simp add: write_fields_def)

lemma split_on_keep: "c \<noteq> sep \<Longrightarrow> split_on sep (c # cs) = (c # hd (split_on sep cs)) # tl (split_on sep cs)"
  by (simp split: list.split)

lemma feed_char_text: "at_end h \<Longrightarrow> c \<noteq> 27 \<Longrightarrow> feed_char c h = write_char c h"
  by (simp add: at_end_def feed_char_def)

lemma fold_plain:
  assumes "at_end h" "{27, 13, 8} \<inter> set t = {}"
  shows "fold feed_char t h = write_fields (continue_line (th_line h) (split_on 10 (stored_text t))) h"
  using assms
proof (induction t arbitrary: h)
  case Nil
  then show ?case by (simp add: stored_text_def continue_line_def write_fields_single)
next
  case (Cons c t)
  let ?s = "split_on 10 (stored_text t)"
  have step: "feed_char c h = write_char c h" using Cons.prems by (auto intro: feed_char_text)
  have IH: "fold feed_char t h' = write_fields (continue_line (th_line h') ?s) h'" if "at_end h'" for h'
    using that Cons by auto
  consider "c = 10" | "visible c" "length (th_line h) < TERM_HISTORY_MAX_LINE_CHARS"
    | "visible c" "length (th_line h) = TERM_HISTORY_MAX_LINE_CHARS" | "c \<noteq> 10" "\<not> visible c"
    using Cons.prems(1) by (fastforce simp: at_end_def history_ok_def line_ok_def)
  then show ?case
  proof cases
    case 1
    let ?h = "write_char 10 h"
    have "at_end ?h"
      using Cons.prems(1) history_ok_write [of h 10] by (simp add: at_end_def write_char_newline)
    then have "fold feed_char t ?h = write_fields ?s ?h"
      using IH [of ?h] by (simp add: write_char_newline continue_line_def)
    then show ?thesis using 1 step Cons.prems(1)
      by (simp add: stored_text_def continue_line_def write_fields_newline write_char_newline)
  next
    case 2
    let ?h = "h\<lparr>th_line := th_line h @ [c], th_position := Suc (th_position h)\<rparr>"
    have h: "write_char c h = ?h"
      using 2 Cons.prems(1) by (simp add: write_char_visible at_end_def)
    then have "at_end ?h"
      using Cons.prems(1) history_ok_write [of h c] by (simp add: at_end_def)
    then have "fold feed_char t ?h = write_fields (continue_line (th_line h @ [c]) ?s) ?h"
      using IH [of ?h] by simp
    moreover have "c \<noteq> 10" using 2 by (auto simp: visible_def)
    ultimately show ?thesis using 2 step h
      by (simp add: stored_text_def continue_line_def split_on_keep write_fields_def
          del: split_on.simps)
  next
    case 3
    then have h: "write_char c h = h"
      using Cons.prems(1) by (simp add: write_char_visible at_end_def)
    moreover have "c \<noteq> 10" using 3 by (auto simp: visible_def)
    ultimately show ?thesis using 3 step IH [OF Cons.prems(1)]
        write_fields_full [OF 3(2), of "hd ?s"] write_fields_full [OF 3(2), of "c # hd ?s"]
      by (simp add: stored_text_def continue_line_def split_on_keep del: split_on.simps)
  next
    case 4
    then have "write_char c h = h"
      using Cons.prems by (auto intro: write_char_other)
    then show ?thesis using 4 step IH [OF Cons.prems(1)] by (simp add: stored_text_def)
  qed
qed

section \<open>Escape sequences leave no trace\<close>

text \<open>
  The complete sequences a program may send between two characters of text and that are
  not the line erase or a full-screen switch: operating system commands ended by BEL or
  \<open>ESC \\<close>, device control strings and their kin, character set selections, control
  sequences, and two-character escapes.
\<close>

inductive inert_sequence :: "pystr \<Rightarrow> bool" where
  osc_bel: "{7, 27} \<inter> set body = {} \<Longrightarrow> inert_sequence (27 # cp (CHR '']'') # body @ [7])"
| osc_st: "{7, 27} \<inter> set body = {} \<Longrightarrow> inert_sequence (27 # cp (CHR '']'') # body @ [27, 92])"
| control_string: "k \<in> set (lit ''PX^_'') \<Longrightarrow> 27 \<notin> set body \<Longrightarrow>
    inert_sequence (27 # k # body @ [27, 92])"
| charset: "k \<in> set (lit ''()'') \<Longrightarrow> inert_sequence [27, k, c]"
| csi: "\<forall>c \<in> set params. \<not> (64 \<le> c \<and> c \<le> 126) \<Longrightarrow> 64 \<le> final \<and> final \<le> 126 \<Longrightarrow>
    \<not> erases (params @ [final]) \<Longrightarrow> mode_switch (params @ [final]) = None \<Longrightarrow>
    inert_sequence (27 # cp (CHR ''['') # params @ [final])"
| two_char: "c \<notin> set (lit ''[]PX^_()'') \<Longrightarrow> inert_sequence [27, c]"

text \<open>
  Two histories that differ at most in the dead contents of the CSI buffer; every step
  keeps them so.
\<close>

definition same_history :: "terminal_history \<Rightarrow> terminal_history \<Rightarrow> bool" where
  "same_history h k \<longleftrightarrow> h\<lparr>th_csi := []\<rparr> = k\<lparr>th_csi := []\<rparr> \<and> (th_state h = Csi \<longrightarrow> th_csi h = th_csi k)"

lemma write_char_csi_update: "write_char c (h\<lparr>th_csi := u\<rparr>) = (write_char c h)\<lparr>th_csi := u\<rparr>"
  by (simp add: write_char_def)

lemma write_char_state [simp]: "th_state (write_char c h) = th_state h"
  by (simp add: write_char_def)

lemma same_history_cases:
  assumes "same_history h k"
  obtains u where "k = h\<lparr>th_csi := u\<rparr>" and "th_state h = Csi \<longrightarrow> u = th_csi h"
  by (rule that [of "th_csi k"]; use assms in \<open>cases h; cases k; auto simp: same_history_def\<close>)

text \<open>Outside text and control sequences, a step only moves the parser.\<close>

definition parser_target :: "tstate \<Rightarrow> nat \<Rightarrow> tstate" where
  "parser_target st c = (case st of
       Escape \<Rightarrow>
         if c = cp (CHR ''['') then Csi else if c = cp (CHR '']'') then Osc
         else if c \<in> set (lit ''PX^_'') then StringSeq
         else if c \<in> set (lit ''()'') then Charset else Text
     | Osc \<Rightarrow> if c = 7 then Text else if c = 27 then OscEscape else Osc
     | StringSeq \<Rightarrow> if c = 27 then StringEscape else StringSeq
     | OscEscape \<Rightarrow> if c = 92 then Text else if c \<noteq> 27 then Osc else OscEscape
     | StringEscape \<Rightarrow> if c = 92 then Text else if c \<noteq> 27 then StringSeq else StringEscape
     | _ \<Rightarrow> Text)"

lemma parser_target_Csi: "parser_target st c = Csi \<Longrightarrow> st = Escape \<and> c = cp (CHR ''['')"
  by (cases st) (auto simp: parser_target_def split: if_splits)

lemma record_state_self: "th_state h = s \<Longrightarrow> h\<lparr>th_state := s\<rparr> = h"
  by (cases h) simp

lemma feed_char_parser:
  assumes "th_state h \<noteq> Text" "th_state h \<noteq> Csi"
  shows "feed_char c h = h\<lparr>th_state := parser_target (th_state h) c,
     th_csi := (if th_state h = Escape \<and> c = cp (CHR ''['') then [] else th_csi h)\<rparr>"
  using assms by (cases h; cases "th_state h") (simp_all add: feed_char_def parser_target_def)

lemma feed_char_Csi: "th_state h = Csi \<Longrightarrow> feed_char c h =
    (let h' = h\<lparr>th_csi := th_csi h @ [c]\<rparr>
     in if 64 \<le> c \<and> c \<le> 126 then (handle_csi (th_csi h') h')\<lparr>th_state := Text\<rparr> else h')"
  by (simp add: feed_char_def)

lemma feed_char_Text: "th_state h = Text \<Longrightarrow> feed_char c h =
    (if c = 27 then h\<lparr>th_state := Escape\<rparr> else if \<not> th_fullscreen h then write_char c h else h)"
  by (simp add: feed_char_def)

lemma same_history_feed_char:
  assumes "same_history h k" shows "same_history (feed_char c h) (feed_char c k)"
proof -
  from assms obtain u where k: "k = h\<lparr>th_csi := u\<rparr>" "th_state h = Csi \<longrightarrow> u = th_csi h"
    by (rule same_history_cases)
  consider "th_state h = Text" | "th_state h = Csi" | "th_state h \<noteq> Text" "th_state h \<noteq> Csi"
    by blast
  then show ?thesis
  proof cases
    case 1
    then show ?thesis by (simp add: k feed_char_Text same_history_def write_char_csi_update)
  next
    case 2
    with k show ?thesis by (simp add: feed_char_Csi same_history_def)
  next
    case 3
    then show ?thesis by (auto simp: k feed_char_parser same_history_def dest: parser_target_Csi)
  qed
qed

lemma same_history_fold: "same_history h k \<Longrightarrow> same_history (fold feed_char cs h) (fold feed_char cs k)"
  by (induction cs arbitrary: h k) (auto intro: same_history_feed_char)

lemma same_history_snapshot: "same_history h k \<Longrightarrow> take_snapshot h = take_snapshot k"
  by (erule same_history_cases) (simp add: take_snapshot_def)

lemma fold_parser_stay:
  "th_state h \<noteq> Text \<Longrightarrow> th_state h \<noteq> Csi \<Longrightarrow> th_state h \<noteq> Escape \<Longrightarrow>
     \<forall>c \<in> set body. parser_target (th_state h) c = th_state h \<Longrightarrow> fold feed_char body h = h"
  by (induction body) (auto simp: feed_char_parser)

lemma fold_csi_params:
  "th_state h = Csi \<Longrightarrow> \<forall>c \<in> set params. \<not> (64 \<le> c \<and> c \<le> 126) \<Longrightarrow>
     fold feed_char params h = h\<lparr>th_csi := th_csi h @ params\<rparr>"
  by (induction params arbitrary: h) (auto simp: feed_char_Csi Let_def)

text \<open>A string sequence of any kind: opened by \<open>k\<close>, a body that stays in it, a
  terminator that leaves it.\<close>

lemma string_sequence_same:
  assumes "th_state h = Text" "parser_target Escape k = st" "st \<in> {Osc, StringSeq}"
    "\<forall>c \<in> set body. parser_target st c = st"
  shows "fold feed_char (27 # k # body) h = h\<lparr>th_state := st\<rparr>"
proof -
  have "k \<noteq> cp (CHR ''['')" using assms(2,3) by (auto simp: parser_target_def)
  moreover have "fold feed_char body (h\<lparr>th_state := st\<rparr>) = h\<lparr>th_state := st\<rparr>"
    by (rule fold_parser_stay) (use assms(3,4) in auto)
  ultimately show ?thesis using assms(1,2)
    by (simp add: feed_char_Text feed_char_parser)
qed

lemma inert_same_history:
  assumes "inert_sequence e" "th_state h = Text"
  shows "same_history (fold feed_char e h) h"
  using assms
proof (induction rule: inert_sequence.induct)
  case (osc_bel body)
  then have "fold feed_char (27 # 93 # body) h = h\<lparr>th_state := Osc\<rparr>"
    by (intro string_sequence_same) (auto simp: parser_target_def)
  with osc_bel show ?case
    by (simp add: feed_char_parser parser_target_def same_history_def)
next
  case (osc_st body)
  then have "fold feed_char (27 # 93 # body) h = h\<lparr>th_state := Osc\<rparr>"
    by (intro string_sequence_same) (auto simp: parser_target_def)
  with osc_st show ?case
    by (simp add: feed_char_parser parser_target_def same_history_def)
next
  case (control_string k body)
  then have "fold feed_char (27 # k # body) h = h\<lparr>th_state := StringSeq\<rparr>"
    by (intro string_sequence_same) (auto simp: parser_target_def)
  with control_string show ?case
    by (simp add: feed_char_parser parser_target_def same_history_def)
next
  case (charset k c)
  then show ?case
    by (auto simp: feed_char_Text feed_char_parser parser_target_def same_history_def)
next
  case (csi params final)
  then show ?case
    by (simp add: feed_char_Text feed_char_parser parser_target_def fold_csi_params
        feed_char_Csi handle_csi_alt same_history_def)
next
  case (two_char c)
  then show ?case
    by (simp add: feed_char_Text feed_char_parser parser_target_def same_history_def)
qed

lemma inert_invisible:
  assumes "inert_sequence e" "th_state (fold feed_char a h) = Text"
  shows "take_snapshot (fold feed_char (a @ e @ b) h) = take_snapshot (fold feed_char (a @ b) h)"
  using inert_same_history [OF assms]
  by (simp add: same_history_snapshot same_history_fold)

section \<open>Redrawing a line\<close>

text \<open>
  A progress display returns to the start of the line, writes over it and erases what is
  left of it.
\<close>

lemma fold_overwrite:
  assumes "th_state h = Text" "\<not> th_fullscreen h" "\<forall>c \<in> set w. visible c"
    "th_position h \<le> length (th_line h)"
    "th_position h + length w \<le> TERM_HISTORY_MAX_LINE_CHARS"
  shows "fold feed_char w h = h\<lparr>
      th_line := take (th_position h) (th_line h) @ w @ drop (th_position h + length w) (th_line h),
      th_position := th_position h + length w\<rparr>"
  using assms
proof (induction w arbitrary: h)
  case Nil
  then show ?case by simp
next
  case (Cons c w)
  let ?p = "th_position h" and ?l = "th_line h"
  have step: "feed_char c h = write_char c h"
    using Cons.prems by (auto simp: feed_char_def visible_def)
  let ?h = "h\<lparr>th_line := take ?p ?l @ c # drop (Suc ?p) ?l, th_position := Suc ?p\<rparr>"
  have h: "write_char c h = ?h"
    using Cons.prems by (auto simp: write_char_visible upd_conv_take_nth_drop)
  have "fold feed_char w ?h = ?h\<lparr>
      th_line := take (Suc ?p) (th_line ?h) @ w @ drop (Suc ?p + length w) (th_line ?h),
      th_position := Suc ?p + length w\<rparr>"
    using Cons.IH [of ?h] Cons.prems by simp
  then show ?case using step h Cons.prems(4) by (simp add: min_def drop_Cons' ac_simps)
qed

lemma redraw_line:
  assumes "history_ok h" "th_state h = Text" "\<not> th_fullscreen h" "\<forall>c \<in> set w. visible c"
    "length w \<le> TERM_HISTORY_MAX_LINE_CHARS"
  shows "fold feed_char (13 # w @ [27, cp (CHR ''[''), cp (CHR ''K'')]) h =
     h\<lparr>th_line := w, th_position := length w, th_csi := lit ''K''\<rparr>"
proof -
  let ?h = "h\<lparr>th_position := 0\<rparr>"
  have "fold feed_char w ?h = ?h\<lparr>th_line := w @ drop (length w) (th_line h), th_position := length w\<rparr>"
    using fold_overwrite [of ?h w] assms by simp
  moreover have "feed_char 13 h = ?h"
    using assms by (simp add: feed_char_Text write_char_return)
  ultimately show ?thesis using assms(2,3)
    by (cases h) (simp add: feed_char_Text feed_char_parser parser_target_def feed_char_Csi
        handle_csi_alt erases_def)
qed

section \<open>The reconnect budget\<close>

definition lines_cost :: "pystr list \<Rightarrow> nat" where
  "lines_cost ls = (\<Sum>l \<leftarrow> ls. length (dumps_str l) + 2)"

lemma lines_cost_simps [simp]:
  "lines_cost [] = 0" "lines_cost (l # ls) = length (dumps_str l) + 2 + lines_cost ls"
  "lines_cost (ls @ ks) = lines_cost ls + lines_cost ks" "lines_cost (rev ls) = lines_cost ls"
  by (simp_all add: lines_cost_def rev_map [symmetric])

lemma count_kept_le: "count_kept share used ls \<le> length ls"
  by (induction ls arbitrary: used) (auto simp: Let_def)

lemma count_kept_fits:
  "used \<le> share \<Longrightarrow> used + lines_cost (take (count_kept share used ls) ls) \<le> share"
proof (induction ls arbitrary: used)
  case Nil
  then show ?case by simp
next
  case (Cons l ls)
  show ?case
    using Cons.prems Cons.IH [of "used + (length (dumps_str l) + 2)"]
    by (auto simp: Let_def add.assoc)
qed

lemma count_kept_maximal:
  "count_kept share used ls < k \<Longrightarrow> k \<le> length ls \<Longrightarrow> share < used + lines_cost (take k ls)"
proof (induction ls arbitrary: used k)
  case Nil
  then show ?case by simp
next
  case (Cons l ls)
  then obtain k' where k: "k = Suc k'" by (cases k) auto
  show ?case
  proof (cases "share < used + (length (dumps_str l) + 2)")
    case True
    then show ?thesis by (simp add: k)
  next
    case False
    then show ?thesis using Cons.prems Cons.IH [of "used + (length (dumps_str l) + 2)" k'] k
      by (simp add: Let_def)
  qed
qed

lemma drop_as_rev: "n \<le> length xs \<Longrightarrow> drop (length xs - n) xs = rev (take n (rev xs))"
  by (simp add: take_rev)

text \<open>The characters one terminal's lines and unfinished line take in the init frame.\<close>

definition history_cost :: "'a snapshot_scheme \<Rightarrow> nat" where
  "history_cost t = length (dumps_str (sn_partial t)) + lines_cost (sn_lines t)"

lemma trim_one_partial [simp]: "sn_partial (trim_one share t) = sn_partial t"
  by (simp add: trim_one_def Let_def)

lemma trim_one_lines: "sn_lines (trim_one share t) =
    drop (length (sn_lines t) - count_kept share (length (dumps_str (sn_partial t))) (rev (sn_lines t)))
      (sn_lines t)"
  by (simp add: trim_one_def Let_def)

lemma trim_one_fits:
  assumes "length (dumps_str (sn_partial t)) \<le> share"
  shows "history_cost (trim_one share t) \<le> share"
proof -
  have k: "count_kept share u (rev ls) \<le> length ls" for u and ls :: "pystr list"
    using count_kept_le [of share u "rev ls"] by simp
  show ?thesis
    using count_kept_fits [OF assms, of "rev (sn_lines t)"]
    by (simp add: history_cost_def trim_one_lines drop_as_rev k del: rev_take)
qed

lemma trim_one_maximal:
  assumes "length (sn_lines (trim_one share t)) < length (drop n (sn_lines t))"
  shows "share < length (dumps_str (sn_partial t)) + lines_cost (drop n (sn_lines t))"
proof -
  let ?ls = "sn_lines t" and ?u = "length (dumps_str (sn_partial t))"
  have "count_kept share ?u (rev ?ls) < length ?ls - n"
    using assms count_kept_le [of share ?u "rev ?ls"] by (simp add: trim_one_lines)
  then have "share < ?u + lines_cost (take (length ?ls - n) (rev ?ls))"
    by (rule count_kept_maximal) simp
  moreover have "take (length ?ls - n) (rev ?ls) = rev (drop n ?ls)"
    using assms by (simp add: take_rev)
  ultimately show ?thesis by simp
qed

section \<open>Properties\<close>

text \<open>Feeding the batches of a run one after the other.\<close>

definition feed_batches :: "(pystr \<times> int) list \<Rightarrow> terminal_history \<Rightarrow> terminal_history" where
  "feed_batches bs h = fold (\<lambda>(txt, sq) h. feed txt sq h) bs h"

lemma feed_batches_simps [simp]:
  "feed_batches [] h = h" "feed_batches (b # bs) h = feed_batches bs (feed (fst b) (snd b) h)"
  by (simp_all add: feed_batches_def split_beta)

lemma feed_batches_concat:
  "bs \<noteq> [] \<Longrightarrow> feed_batches bs h = feed (concat (map fst bs)) (snd (last bs)) h"
proof (induction bs arbitrary: h)
  case Nil
  then show ?case by simp
next
  case (Cons b bs)
  then show ?case by (cases "bs = []") (simp_all add: feed_feed)
qed

lemma history_ok_batches: "history_ok h \<Longrightarrow> history_ok (feed_batches bs h)"
  by (induction bs arbitrary: h) (auto simp: history_ok_feed)

text \<open>
  Whatever bytes a device prints, in whatever batches, the recovery history stays
  within its bounds: at most 1500 finished lines, no line longer than 4096 code points, and
  only visible code points in them, so no escape character or other control code ever
  reaches a reconnecting browser; and the cursor never leaves the unfinished line, so the
  padding branch of \<open>_write_char\<close> never pads.
\<close>
theorem history_bounded:
  "length (sn_lines (take_snapshot (feed_batches bs new_history))) \<le> 1500
   \<and> (\<forall>l \<in> set (sn_lines (take_snapshot (feed_batches bs new_history)))
            \<union> {sn_partial (take_snapshot (feed_batches bs new_history))}.
        length l \<le> 4096 \<and> 27 \<notin> set l \<and> (\<forall>c \<in> set l. visible c))
   \<and> th_position (feed_batches bs new_history) \<le> length (th_line (feed_batches bs new_history))"
proof -
  have no_esc: "27 \<notin> set l" if "\<forall>c \<in> set l. visible c" for l
    using that by (auto simp: visible_def)
  have "history_ok (feed_batches bs new_history)"
    by (simp add: history_ok_batches)
  then show ?thesis
    by (auto simp: history_ok_def line_ok_def take_snapshot_def TERM_HISTORY_MAX_LINES_def
        TERM_HISTORY_MAX_LINE_CHARS_def no_esc)
qed

theorem history_bounded_witness:
  "27 \<notin> set (sn_partial (take_snapshot (feed_batches [([27, 91, 51, 109, 65], 1)] new_history)))
   \<and> length (sn_partial (take_snapshot (feed_batches [([27, 91, 51, 109, 65], 1)] new_history))) \<le> 4096"
  using history_bounded [of "[([27, 91, 51, 109, 65], 1)]"] by blast

text \<open>
  Plain output is kept exactly, however it was cut into batches. For a run whose whole
  output has no escape, carriage return or backspace, the snapshot's lines are the last 1500
  finished lines of the output with the remaining control codes dropped, each cut at 4096
  code points, and the unfinished line is what follows the last newline, cut the same way.
\<close>
theorem plain_output_kept:
  assumes "{27, 13, 8} \<inter> set (concat (map fst bs)) = {}"
  shows "th_lines (feed_batches bs new_history)
           = last_n 1500 (butlast (plain_lines (concat (map fst bs))))
       \<and> th_line (feed_batches bs new_history) = last (plain_lines (concat (map fst bs)))"
proof (cases "bs = []")
  case True
  then show ?thesis by (simp add: new_history_def plain_lines_def stored_text_def last_n_def)
next
  case False
  let ?t = "concat (map fst bs)" and ?h = "new_history\<lparr>th_seq := snd (last bs)\<rparr>"
  have "at_end ?h" by (simp add: at_end_def) (simp add: new_history_def)
  then have "feed_batches bs new_history =
      write_fields (continue_line (th_line ?h) (split_on 10 (stored_text ?t))) ?h"
    using fold_plain [of ?h ?t] assms by (simp add: feed_batches_concat [OF False] feed_def)
  moreover have "continue_line [] (split_on 10 (stored_text ?t)) = split_on 10 (stored_text ?t)"
    by (simp add: continue_line_def)
  ultimately show ?thesis
    by (simp add: new_history_def write_fields_def plain_lines_def map_butlast last_map
        TERM_HISTORY_MAX_LINES_def)
qed

theorem plain_output_kept_witness:
  "th_lines (feed_batches [(lit ''ab'', 1), (lit ''c'' @ [10, 7] @ lit ''d'', 2)] new_history) = [lit ''abc'']
   \<and> th_line (feed_batches [(lit ''ab'', 1), (lit ''c'' @ [10, 7] @ lit ''d'', 2)] new_history) = lit ''d''"
  using plain_output_kept [of "[(lit ''ab'', 1), (lit ''c'' @ [10, 7] @ lit ''d'', 2)]"]
  by (simp add: plain_lines_def stored_text_def visible_def last_n_def TERM_HISTORY_MAX_LINE_CHARS_def)

text \<open>
  A complete escape sequence that neither erases the line nor switches to the
  full-screen buffer leaves no trace: wherever it stands between two characters of a run's
  output, and whatever follows, the snapshot is the one of the output without it.
\<close>
theorem escape_invisible:
  assumes "inert_sequence e" and "th_state (feed a q h) = Text"
  shows "take_snapshot (feed (a @ e @ b) q h) = take_snapshot (feed (a @ b) q h)"
  using inert_invisible [of e a "h\<lparr>th_seq := q\<rparr>" b] assms by (simp add: feed_def)

theorem escape_invisible_witness:
  "take_snapshot (feed (lit ''a'' @ [27, 93, 48, 7] @ lit ''b'') 1 new_history)
     = take_snapshot (feed (lit ''a'' @ lit ''b'') 1 new_history)"
proof (rule escape_invisible)
  show "inert_sequence [27, 93, 48, 7]"
    using osc_bel [of "[48]"] by simp
  show "th_state (feed (lit ''a'') 1 new_history) = Text"
    by (simp add: feed_def new_history_def feed_char_def)
qed

text \<open>
  A line redraw replaces the unfinished line. A carriage return, visible text that fits
  the line limit and an erase to the end of the line leave exactly that text as the
  unfinished line with the cursor after it, and keep the finished lines.
\<close>
theorem redraw_replaces_line:
  assumes "history_ok h" and "th_state h = Text" and "\<not> th_fullscreen h"
    and "\<forall>c \<in> set w. visible c" and "length w \<le> 4096"
  shows "take_snapshot (feed (13 # w @ [27, cp (CHR ''[''), cp (CHR ''K'')]) q h)
           = (take_snapshot h)\<lparr>sn_partial := w, sn_seq := q\<rparr>
       \<and> th_position (feed (13 # w @ [27, cp (CHR ''[''), cp (CHR ''K'')]) q h) = length w"
  using redraw_line [of "h\<lparr>th_seq := q\<rparr>" w] assms
  by (simp add: feed_def take_snapshot_def TERM_HISTORY_MAX_LINE_CHARS_def)

theorem redraw_replaces_line_witness:
  "sn_partial (take_snapshot (feed ([13] @ lit ''8%'' @ [27, 91, 75]) 2 (feed (lit ''100%'') 1 new_history)))
     = lit ''8%''"
proof -
  have "th_state (feed (lit ''100%'') 1 new_history) = Text \<and> \<not> th_fullscreen (feed (lit ''100%'') 1 new_history)"
    by (simp add: feed_def new_history_def feed_char_def write_char_def TERM_HISTORY_MAX_LINE_CHARS_def)
  then show ?thesis
    using redraw_replaces_line [of "feed (lit ''100%'') 1 new_history" "lit ''8%''" 2]
    by (simp add: history_ok_feed visible_def)
qed

text \<open>
  The histories of a reconnecting browser fit their budget, and no more is dropped than
  the budget needs. Each terminal keeps its unfinished line and a run of its newest lines;
  when every unfinished line fits its share, the lines and unfinished lines together take at
  most \<open>budget\<close> characters as sent; and keeping even one line more of a terminal would
  exceed its share.
\<close>
theorem trim_fits_budget:
  assumes "\<forall>t \<in> set ts. length (dumps_str (sn_partial t)) \<le> budget div length ts"
  shows "(\<Sum>t \<leftarrow> trim_to_budget ts budget. history_cost t) \<le> budget
       \<and> map sn_partial (trim_to_budget ts budget) = map sn_partial ts
       \<and> list_all2 (\<lambda>t t'. \<exists>n \<le> length (sn_lines t).
            sn_lines t' = drop n (sn_lines t)
            \<and> (\<forall>m < n. budget div length ts
                 < length (dumps_str (sn_partial t)) + lines_cost (drop m (sn_lines t))))
          ts (trim_to_budget ts budget)"
proof (cases "ts = []")
  case True
  then show ?thesis by (simp add: trim_to_budget_def)
next
  case False
  let ?share = "budget div length ts"
  have trim: "trim_to_budget ts budget = map (trim_one ?share) ts"
    using False by (simp add: trim_to_budget_def)
  have "(\<Sum>t \<leftarrow> ts. history_cost (trim_one ?share t)) \<le> (\<Sum>t \<leftarrow> ts. ?share)"
    using assms by (intro sum_list_mono) (simp add: trim_one_fits)
  also have "\<dots> \<le> budget"
    by (simp add: sum_list_triv)
  finally have total: "(\<Sum>t \<leftarrow> map (trim_one ?share) ts. history_cost t) \<le> budget"
    by (simp add: comp_def)
  have "\<exists>n \<le> length (sn_lines t). sn_lines (trim_one ?share t) = drop n (sn_lines t)
      \<and> (\<forall>m < n. ?share < length (dumps_str (sn_partial t)) + lines_cost (drop m (sn_lines t)))" for t :: "'a snapshot_scheme"
  proof -
    let ?n = "length (sn_lines t) - count_kept ?share (length (dumps_str (sn_partial t))) (rev (sn_lines t))"
    have "?share < length (dumps_str (sn_partial t)) + lines_cost (drop m (sn_lines t))" if "m < ?n" for m
      by (rule trim_one_maximal) (use that in \<open>simp add: trim_one_lines\<close>)
    then show ?thesis by (intro exI [of _ ?n]) (simp add: trim_one_lines)
  qed
  then show ?thesis
    using total by (auto simp: trim list_all2_map2 list.rel_refl)
qed

theorem trim_fits_budget_witness:
  "(\<Sum>t \<leftarrow> trim_to_budget [\<lparr>sn_lines = [lit ''aa'', lit ''b''], sn_partial = [], sn_fullscreen = False,
        sn_seq = 3\<rparr>] 8. history_cost t) \<le> 8"
  using trim_fits_budget [of "[\<lparr>sn_lines = [lit ''aa'', lit ''b''], sn_partial = [],
      sn_fullscreen = False, sn_seq = 3\<rparr>]" 8]
  by (simp add: dumps_str_def)

end
