(* ===== verification/Output_Batcher.thy ===== *)
theory Output_Batcher
  imports Prelude Config
begin

text \<open>
  \<open>OutputBatcher\<close> of \<open>terminal_run.py\<close> with the part of Python's codec library it uses:
  \<open>str.encode("utf-8")\<close> and the incremental UTF-8 decoder with the \<open>replace\<close> error
  handler. The decoder keeps an incomplete sequence until the next read and replaces each
  maximal malformed subpart with one U+FFFD. The lemmas show that cutting the bytes anywhere
  gives the same text, that decoding undoes encoding, and that decoded text can always be
  encoded again.
\<close>

section \<open>Encoding\<close>

definition surrogate :: "nat \<Rightarrow> bool" where
  "surrogate c \<longleftrightarrow> 55296 \<le> c \<and> c \<le> 57343"

definition code_point :: "nat \<Rightarrow> bool" where
  "code_point c \<longleftrightarrow> c \<le> 1114111 \<and> \<not> surrogate c"

definition encode_char :: "nat \<Rightarrow> bytestr" where
  "encode_char c =
     (if c < 128 then [c]
      else if c < 2048 then [192 + c div 64, 128 + c mod 64]
      else if c < 65536 then [224 + c div 4096, 128 + c div 64 mod 64, 128 + c mod 64]
      else [240 + c div 262144, 128 + c div 4096 mod 64, 128 + c div 64 mod 64, 128 + c mod 64])"

text \<open>\<open>str.encode("utf-8")\<close>: None stands for the UnicodeEncodeError of a surrogate.\<close>

definition utf8_encode :: "pystr \<Rightarrow> bytestr option" where
  "utf8_encode s = (if \<exists>c \<in> set s. surrogate c then None else Some (concat (map encode_char s)))"

section \<open>Decoding\<close>

text \<open>
  What stands at the front of the bytes: a complete sequence and its length, a malformed
  subpart and its length, or a sequence that is well-formed so far and not complete.
\<close>

datatype lead = Scalar nat nat | Malformed nat | Incomplete

definition cont :: "nat \<Rightarrow> bool" where
  "cont b \<longleftrightarrow> 128 \<le> b \<and> b \<le> 191"

definition second_ok :: "nat \<Rightarrow> nat \<Rightarrow> bool" where
  "second_ok b1 b2 \<longleftrightarrow> cont b2
     \<and> (b1 = 224 \<longrightarrow> 160 \<le> b2) \<and> (b1 = 237 \<longrightarrow> b2 < 160)
     \<and> (b1 = 240 \<longrightarrow> 144 \<le> b2) \<and> (b1 = 244 \<longrightarrow> b2 < 144)"

fun front :: "bytestr \<Rightarrow> lead" where
  "front [] = Incomplete"
| "front (b1 # bs) =
     (if b1 < 128 then Scalar b1 1
      else if 194 \<le> b1 \<and> b1 \<le> 223 then
        (case bs of [] \<Rightarrow> Incomplete
         | b2 # _ \<Rightarrow> if cont b2 then Scalar ((b1 - 192) * 64 + (b2 - 128)) 2 else Malformed 1)
      else if 224 \<le> b1 \<and> b1 \<le> 239 then
        (case bs of [] \<Rightarrow> Incomplete
         | b2 # bs' \<Rightarrow> if \<not> second_ok b1 b2 then Malformed 1
             else (case bs' of [] \<Rightarrow> Incomplete
               | b3 # _ \<Rightarrow> if cont b3
                   then Scalar ((b1 - 224) * 4096 + (b2 - 128) * 64 + (b3 - 128)) 3
                   else Malformed 2))
      else if 240 \<le> b1 \<and> b1 \<le> 244 then
        (case bs of [] \<Rightarrow> Incomplete
         | b2 # bs' \<Rightarrow> if \<not> second_ok b1 b2 then Malformed 1
             else (case bs' of [] \<Rightarrow> Incomplete
               | b3 # bs'' \<Rightarrow> if \<not> cont b3 then Malformed 2
                   else (case bs'' of [] \<Rightarrow> Incomplete
                     | b4 # _ \<Rightarrow> if cont b4
                         then Scalar ((b1 - 240) * 262144 + (b2 - 128) * 4096 + (b3 - 128) * 64 + (b4 - 128)) 4
                         else Malformed 3)))
      else Malformed 1)"

lemma front_length:
  "front bs = Scalar c n \<Longrightarrow> 0 < n \<and> n \<le> length bs"
  "front bs = Malformed n \<Longrightarrow> 0 < n \<and> n \<le> length bs"
  by (cases bs; auto split: if_splits list.splits)+

text \<open>
  The decoder's loop over its buffer: the decoded text and the bytes kept for the next call.
  With \<open>final\<close> an incomplete tail is one more replacement character and nothing is kept.
\<close>

function decode :: "bool \<Rightarrow> bytestr \<Rightarrow> pystr \<times> bytestr" where
  "decode final bs = (case front bs of
       Scalar c n \<Rightarrow> (let (t, rest) = decode final (drop n bs) in (c # t, rest))
     | Malformed n \<Rightarrow> (let (t, rest) = decode final (drop n bs) in (65533 # t, rest))
     | Incomplete \<Rightarrow> if final then (if bs = [] then [] else [65533], []) else ([], bs))"
  by pat_completeness auto
termination
  by (relation "measure (length \<circ> snd)") (use front_length in fastforce)+

declare decode.simps [simp del]

section \<open>Cutting the bytes anywhere\<close>

lemma front_append: "front bs \<noteq> Incomplete \<Longrightarrow> front (bs @ cs) = front bs"
  by (cases bs) (auto split: if_splits list.splits)

lemma decode_nil [simp]: "decode f [] = ([], [])"
  by (simp add: decode.simps)

lemma decode_incomplete: "front (snd (decode False bs)) = Incomplete"
proof (induction "False" bs rule: decode.induct)
  case (1 bs)
  then show ?case by (subst decode.simps) (auto split: lead.splits prod.splits)
qed

lemma decode_keep: "front bs = Incomplete \<Longrightarrow> decode False bs = ([], bs)"
  by (simp add: decode.simps)

lemma decode_append:
  "decode f (bs @ cs) =
     (let (t, rest) = decode False bs; (t', rest') = decode f (rest @ cs) in (t @ t', rest'))"
proof (induction "False" bs rule: decode.induct)
  case (1 bs)
  show ?case
  proof (cases "front bs")
    case Incomplete
    then show ?thesis by (simp add: decode_keep)
  next
    case (Scalar c n)
    then have "drop n (bs @ cs) = drop n bs @ cs" using front_length(1) [of bs c n] by simp
    then show ?thesis
      using 1(1) [OF Scalar] Scalar front_append [of bs cs]
      by (subst decode.simps, subst (2) decode.simps) (simp add: Let_def split_beta)
  next
    case (Malformed n)
    then have "drop n (bs @ cs) = drop n bs @ cs" using front_length(2) [of bs n] by simp
    then show ?thesis
      using 1(2) [OF Malformed] Malformed front_append [of bs cs]
      by (subst decode.simps, subst (2) decode.simps) (simp add: Let_def split_beta)
  qed
qed

text \<open>The incremental decoder: its state is the kept bytes.\<close>

definition decode_more :: "bytestr \<Rightarrow> bytestr \<Rightarrow> bytestr \<times> pystr" where
  "decode_more data kept = (let (t, rest) = decode False (kept @ data) in (rest, t))"

interpretation utf8: stream_consumer decode_more "\<lambda>kept. front kept = Incomplete"
proof
  fix kept xs ys
  assume ok: "front kept = Incomplete"
  show "decode_more [] kept = (kept, [])"
    using ok by (simp add: decode_more_def decode_keep)
  show "front (fst (decode_more xs kept)) = Incomplete"
    using decode_incomplete by (simp add: decode_more_def split_beta)
  show "decode_more (xs @ ys) kept =
      (let (s', out) = decode_more xs kept; (s'', out') = decode_more ys s' in (s'', out @ out'))"
    using decode_append [of False "kept @ xs" ys]
    by (simp add: decode_more_def split_beta Let_def)
qed

section \<open>Decoding undoes encoding\<close>

lemma sextets:
  fixes c :: nat
  obtains a b d where "c = a * 4096 + b * 64 + d" "b < 64" "d < 64"
    "c div 4096 = a" "c div 64 mod 64 = b" "c mod 64 = d" "c div 64 = a * 64 + b"
proof -
  have q: "c div 4096 = c div 64 div 64" by (simp add: div_mult2_eq [symmetric])
  have "c = (c div 64 div 64 * 64 + c div 64 mod 64) * 64 + c mod 64" by (simp only: div_mult_mod_eq)
  then have "c = c div 4096 * 4096 + c div 64 mod 64 * 64 + c mod 64"
    unfolding q by (simp only: distrib_right mult.assoc)
  then show ?thesis
    by (rule that) (simp_all add: q)
qed

lemma front_encode:
  assumes "code_point c"
  shows "front (encode_char c @ bs) = Scalar c (length (encode_char c))"
proof -
  obtain a b d where c: "c = a * 4096 + b * 64 + d" "b < 64" "d < 64"
    "c div 4096 = a" "c div 64 mod 64 = b" "c mod 64 = d" "c div 64 = a * 64 + b"
    by (rule sextets [of c]) blast
  obtain p q where a: "a = p * 64 + q" "q < 64" "a div 64 = p" "a mod 64 = q"
    by (metis div_mult_mod_eq mod_less_divisor zero_less_numeral)
  have p: "c div 262144 = p" using c(4) a(3) div_mult2_eq [of c 4096 64] by simp
  consider "c < 128" | "128 \<le> c" "c < 2048" | "2048 \<le> c" "c < 65536" | "65536 \<le> c" "c \<le> 1114111"
    using assms by (fastforce simp: code_point_def)
  then show ?thesis
  proof cases
    case 1
    then show ?thesis by (simp add: encode_char_def)
  next
    case 2
    then have "a = 0" "2 \<le> b" "b < 32" using c by auto
    then show ?thesis using 2 c by (simp add: encode_char_def cont_def)
  next
    case 3
    have "a < 16" "a = 0 \<Longrightarrow> 32 \<le> b" using 3 c(1-3) by auto
    moreover have "a = 13 \<Longrightarrow> b < 32"
      using assms c(1-3) by (auto simp: code_point_def surrogate_def)
    ultimately have "second_ok (224 + a) (128 + b)"
      using c(2) by (auto simp: second_ok_def cont_def)
    then show ?thesis using 3 \<open>a < 16\<close> c by (simp add: encode_char_def cont_def)
  next
    case 4
    have "p < 5" "p = 0 \<Longrightarrow> 16 \<le> q" "p = 4 \<Longrightarrow> q < 16" using 4 c(1-3) a(1,2) by auto
    then have "second_ok (240 + p) (128 + q)"
      using a(2) by (auto simp: second_ok_def cont_def)
    moreover have "p * 262144 + q * 4096 + b * 64 + d = c" using c(1) a(1) by simp
    ultimately show ?thesis
      using 4 \<open>p < 5\<close> c(2-6) a(2-4) p by (simp add: encode_char_def cont_def)
  qed
qed

lemma decode_encode:
  "\<forall>c \<in> set s. code_point c \<Longrightarrow> decode f (concat (map encode_char s) @ bs) = (let (t, r) = decode f bs in (s @ t, r))"
proof (induction s)
  case Nil
  then show ?case by simp
next
  case (Cons c s)
  then have "front (encode_char c @ concat (map encode_char s) @ bs) = Scalar c (length (encode_char c))"
    by (simp add: front_encode)
  then show ?case
    using Cons by (subst decode.simps) (simp add: Let_def split_beta)
qed

section \<open>Decoded text is encodable\<close>

lemma code_point_three:
  "b1 \<le> 239 \<Longrightarrow> second_ok b1 b2 \<Longrightarrow> cont b3 \<Longrightarrow> code_point ((b1 - 224) * 4096 + (b2 - 128) * 64 + (b3 - 128))"
  by (cases "b1 = 237"; cases "b1 < 237") (auto simp: code_point_def surrogate_def cont_def second_ok_def)

lemma code_point_four:
  "240 \<le> b1 \<Longrightarrow> b1 \<le> 244 \<Longrightarrow> second_ok b1 b2 \<Longrightarrow> cont b3 \<Longrightarrow> cont b4 \<Longrightarrow>
     code_point ((b1 - 240) * 262144 + (b2 - 128) * 4096 + (b3 - 128) * 64 + (b4 - 128))"
  by (cases "b1 = 240"; cases "b1 = 244") (auto simp: code_point_def surrogate_def cont_def second_ok_def)

lemma code_point_small: "c < 2048 \<Longrightarrow> code_point c"
  by (simp add: code_point_def surrogate_def)

lemma scalar_code_point: "front bs = Scalar c n \<Longrightarrow> code_point c"
proof (cases bs)
  case (Cons b1 bs1)
  assume "front bs = Scalar c n"
  then show ?thesis
    using Cons code_point_three [of b1] code_point_four [of b1]
    by (auto split: if_splits list.splits simp: cont_def intro: code_point_small)
qed simp

lemma decode_code_points: "\<forall>c \<in> set (fst (decode f bs)). code_point c"
proof (induction f bs rule: decode.induct)
  case (1 f bs)
  have r: "code_point 65533" by (simp add: code_point_def surrogate_def)
  show ?case
  proof (cases "front bs")
    case (Scalar c n)
    then show ?thesis
      using 1(1) [OF Scalar] scalar_code_point [OF Scalar]
      by (subst decode.simps) (simp add: Let_def split_beta)
  next
    case (Malformed n)
    then show ?thesis
      using 1(2) [OF Malformed] r by (subst decode.simps) (simp add: Let_def split_beta)
  next
    case Incomplete
    then show ?thesis using r by (subst decode.simps) simp
  qed
qed

lemma encodable: "\<forall>c \<in> set s. code_point c \<Longrightarrow> utf8_encode s \<noteq> None"
  by (auto simp: utf8_encode_def code_point_def)

section \<open>The batcher\<close>

text \<open>
  The clock's readings are arguments, one per place that may read it: at the first text of a
  batch, in the test that ends \<open>add\<close> and in the test inside \<open>flush\<close>. The theorems hold
  for all of them. \<open>started\<close> is meaningful only while there is text.
\<close>

record batcher =
  decoder :: bytestr
  b_text :: pystr
  started :: "rat option"
  b_seq :: nat

definition new_batcher :: batcher where
  "new_batcher = \<lparr>decoder = [], b_text = [], started = None, b_seq = 0\<rparr>"

definition due :: "rat \<Rightarrow> batcher \<Rightarrow> bool" where
  "due now b \<longleftrightarrow> b_text b \<noteq> [] \<and>
     (TERM_BATCH_MAX_CHARS \<le> length (b_text b)
      \<or> (case started b of Some t \<Rightarrow> TERM_BATCH_INTERVAL \<le> now - t | None \<Rightarrow> False))"

definition append_text :: "rat \<Rightarrow> pystr \<Rightarrow> batcher \<Rightarrow> batcher" where
  "append_text now t b =
     (if t = [] then b
      else b\<lparr>started := (if b_text b = [] then Some now else started b), b_text := b_text b @ t\<rparr>)"

definition flush :: "bool \<Rightarrow> rat \<Rightarrow> rat \<Rightarrow> batcher \<Rightarrow> batcher \<times> (pystr \<times> nat) list" where
  "flush final t1 t2 b =
     (let b = (if final
               then let (tail, kept) = decode True (decoder b) in append_text t1 tail (b\<lparr>decoder := kept\<rparr>)
               else b)
      in if b_text b = [] \<or> (\<not> final \<and> \<not> due t2 b) then (b, [])
         else (b\<lparr>b_seq := b_seq b + 1, b_text := [], started := None\<rparr>, [(b_text b, b_seq b + 1)]))"

definition add_data :: "bytestr \<Rightarrow> rat \<Rightarrow> rat \<Rightarrow> rat \<Rightarrow> batcher \<Rightarrow> batcher \<times> (pystr \<times> nat) list" where
  "add_data data t1 t2 t3 b =
     (let (kept, t) = decode_more data (decoder b);
          b = append_text t1 t (b\<lparr>decoder := kept\<rparr>)
      in if due t2 b then flush False t3 t3 b else (b, []))"

text \<open>What \<open>read_channel\<close> does with a batcher: adds and flushes in any order, and the final flush.\<close>

datatype batch_op = Add bytestr rat rat rat | Flush rat

fun batch_bytes :: "batch_op list \<Rightarrow> bytestr" where
  "batch_bytes [] = []"
| "batch_bytes (Add data t1 t2 t3 # ops) = data @ batch_bytes ops"
| "batch_bytes (Flush t # ops) = batch_bytes ops"

definition apply_op :: "batch_op \<Rightarrow> batcher \<Rightarrow> batcher \<times> (pystr \<times> nat) list" where
  "apply_op x b = (case x of Add data t1 t2 t3 \<Rightarrow> add_data data t1 t2 t3 b | Flush t \<Rightarrow> flush False t t b)"

fun run_batcher :: "batch_op list \<Rightarrow> rat \<Rightarrow> batcher \<Rightarrow> (pystr \<times> nat) list" where
  "run_batcher [] t b = snd (flush True t t b)"
| "run_batcher (x # ops) t b = (let (b', out) = apply_op x b in out @ run_batcher ops t b')"

lemma flush_rejoin:
  assumes "flush False t1 t2 b = (b', out)"
  shows "concat (map fst out) @ b_text b' = b_text b \<and> decoder b' = decoder b
    \<and> map snd out = [Suc (b_seq b)..<Suc (b_seq b')] \<and> [] \<notin> set (map fst out)
    \<and> b_seq b \<le> b_seq b'"
  using assms by (auto simp: flush_def Let_def split: if_splits)

lemma apply_op_rejoin:
  assumes "apply_op x b = (b', out)" and that: "front (decoder b) = Incomplete"
  shows "concat (map fst out) @ b_text b' = b_text b @ snd (decode_more (batch_bytes [x]) (decoder b))
    \<and> decoder b' = fst (decode_more (batch_bytes [x]) (decoder b))
    \<and> map snd out = [Suc (b_seq b)..<Suc (b_seq b')] \<and> [] \<notin> set (map fst out)
    \<and> b_seq b \<le> b_seq b'"
proof (cases x)
  case (Flush t)
  then show ?thesis using assms flush_rejoin [of t t b b' out] that
    by (simp add: apply_op_def utf8.feed_nil)
next
  case (Add data t1 t2 t3)
  let ?b = "append_text t1 (snd (decode_more data (decoder b))) (b\<lparr>decoder := fst (decode_more data (decoder b))\<rparr>)"
  have b: "b_text ?b = b_text b @ snd (decode_more data (decoder b))" "b_seq ?b = b_seq b"
    "decoder ?b = fst (decode_more data (decoder b))"
    by (simp_all add: append_text_def)
  show ?thesis
    using assms Add b flush_rejoin [of t3 t3 ?b b' out]
    by (auto simp: apply_op_def add_data_def split_beta Let_def split: if_splits)
qed

lemma run_batcher_rejoin:
  "front (decoder b) = Incomplete \<Longrightarrow>
     concat (map fst (run_batcher ops t b)) = b_text b @ fst (decode True (decoder b @ batch_bytes ops))
   \<and> (\<exists>n. map snd (run_batcher ops t b) = [Suc (b_seq b)..<n]) \<and> [] \<notin> set (map fst (run_batcher ops t b))"
proof (induction ops arbitrary: b)
  case Nil
  have "\<exists>n. [] = [Suc (b_seq b)..<n]" by (rule exI [of _ 0]) simp
  then show ?case
    by (auto simp: flush_def append_text_def Let_def split_beta intro: exI [of _ "Suc (Suc (b_seq b))"])
next
  case (Cons x ops)
  obtain b' out where x: "apply_op x b = (b', out)" by force
  note r = apply_op_rejoin [OF x Cons.prems]
  have inc: "front (decoder b') = Incomplete" using r utf8.feed_ok [OF Cons.prems] by simp
  obtain n where n: "map snd (run_batcher ops t b') = [Suc (b_seq b')..<n]" using Cons.IH [OF inc] by blast
  have bytes: "batch_bytes (x # ops) = batch_bytes [x] @ batch_bytes ops" by (cases x) auto
  have split: "decode True (decoder b @ batch_bytes [x] @ batch_bytes ops) =
      (let (s, rest) = decode False (decoder b @ batch_bytes [x]); (s', rest') = decode True (rest @ batch_bytes ops)
       in (s @ s', rest'))"
    using decode_append [of True "decoder b @ batch_bytes [x]" "batch_bytes ops"] by simp
  have "concat (map fst (run_batcher (x # ops) t b)) = b_text b @ fst (decode True (decoder b @ batch_bytes (x # ops)))"
    using r Cons.IH [OF inc] unfolding bytes split
    by (simp add: x decode_more_def split_beta Let_def)
  moreover have "\<exists>m. map snd (run_batcher (x # ops) t b) = [Suc (b_seq b)..<m]"
  proof (cases "run_batcher ops t b' = []")
    case True
    then have "map snd (run_batcher (x # ops) t b) = map snd out" by (simp add: x)
    then show ?thesis using r by metis
  next
    case False
    then have "Suc (b_seq b') < n" using n by (metis list.map_disc_iff upt_conv_Nil not_le)
    then have "[Suc (b_seq b)..<Suc (b_seq b')] @ [Suc (b_seq b')..<n] = [Suc (b_seq b)..<n]"
      using r upt_add_eq_append [of "Suc (b_seq b)" "Suc (b_seq b')" "n - Suc (b_seq b')"] by simp
    moreover have "map snd (run_batcher (x # ops) t b) = map snd out @ map snd (run_batcher ops t b')"
      by (simp add: x)
    ultimately show ?thesis using r n by metis
  qed
  ultimately show ?case using r Cons.IH [OF inc] by (simp add: x)
qed

text \<open>A whole series of reads through the incremental decoder.\<close>

fun decode_reads :: "bytestr list \<Rightarrow> bytestr \<Rightarrow> bytestr \<times> pystr" where
  "decode_reads [] kept = (kept, [])"
| "decode_reads (c # cs) kept =
     (let (kept', t) = decode_more c kept; (kept'', t') = decode_reads cs kept' in (kept'', t @ t'))"

lemma decode_reads_eq: "decode_reads cs kept = utf8.feed_all cs kept"
  by (induction cs arbitrary: kept) (auto simp: Let_def split_beta)

section \<open>Properties\<close>

text \<open>
  Nothing the device prints is lost, repeated or reordered on its way into batches: for
  any reads, flushes and clock readings, the batches up to the final flush join to the
  decoding of all bytes as if they had come in one read, are never empty, and carry the
  sequence numbers 1, 2, 3, ...; and every batch can be encoded, so measuring its size for the
  acknowledgement accounting never raises.
\<close>

theorem batches_rejoin:
  "concat (map fst (run_batcher ops t new_batcher)) = fst (decode True (batch_bytes ops))
   \<and> map snd (run_batcher ops t new_batcher) = [1..<Suc (length (run_batcher ops t new_batcher))]
   \<and> (\<forall>b \<in> set (map fst (run_batcher ops t new_batcher)). b \<noteq> [] \<and> utf8_encode b \<noteq> None)"
proof -
  let ?out = "run_batcher ops t new_batcher"
  note r = run_batcher_rejoin [of new_batcher ops t]
  have joined: "concat (map fst ?out) = fst (decode True (batch_bytes ops))"
    using r by (simp add: new_batcher_def)
  obtain n where n: "map snd ?out = [1..<n]" using r by (auto simp: new_batcher_def)
  have "length ?out = n - 1" using arg_cong [OF n, of length] by simp
  then have seqs: "map snd ?out = [1..<Suc (length ?out)]" using n by (cases n) auto
  have ok: "\<forall>c \<in> set b. code_point c" if "b \<in> set (map fst ?out)" for b
    using decode_code_points [of True "batch_bytes ops"] that unfolding joined [symmetric] by auto
  have "utf8_encode b \<noteq> None" if "b \<in> set (map fst ?out)" for b by (rule encodable [OF ok [OF that]])
  moreover have "[] \<notin> set (map fst ?out)" using r by (simp add: new_batcher_def)
  ultimately show ?thesis using joined seqs by metis
qed

theorem batches_rejoin_witness:
  "concat (map fst (run_batcher [Add [226, 130] 0 0 0, Add [172, 255] 0 1 1] 2 new_batcher)) = [8364, 65533]"
  using batches_rejoin [of "[Add [226, 130] 0 0 0, Add [172, 255] 0 1 1]" 2]
  by (simp add: decode.simps cont_def second_ok_def)

text \<open>
  Sending text to a device and reading it back is the identity: for every text without
  surrogates the encoder succeeds, and however its bytes are cut by reads, the decoder returns
  the text and keeps nothing.
\<close>

theorem utf8_roundtrip:
  assumes "\<forall>c \<in> set s. code_point c"
  shows "\<exists>bs. utf8_encode s = Some bs \<and> (\<forall>cs. concat cs = bs \<longrightarrow> decode_reads cs [] = ([], s))"
proof -
  let ?bs = "concat (map encode_char s)"
  have "utf8_encode s = Some ?bs" using encodable [OF assms] by (simp add: utf8_encode_def split: if_splits)
  moreover have "decode_reads cs [] = ([], s)" if cs: "concat cs = ?bs" for cs
  proof -
    have "decode False ?bs = (s, [])" using decode_encode [OF assms, of False "[]"] by simp
    then show ?thesis
      by (simp add: decode_reads_eq utf8.feed_all_concat decode_more_def cs)
  qed
  ultimately show ?thesis by blast
qed

theorem utf8_roundtrip_witness: "decode_reads [[226], [130, 172, 65]] [] = ([], [8364, 65])"
proof -
  obtain bs where bs: "utf8_encode [8364, 65] = Some bs"
    and all: "\<forall>cs. concat cs = bs \<longrightarrow> decode_reads cs [] = ([], [8364, 65])"
    using utf8_roundtrip [of "[8364, 65]"] by (auto simp: code_point_def surrogate_def)
  have "bs = [226, 130, 172, 65]" using bs by (simp add: utf8_encode_def encode_char_def surrogate_def)
  then have "concat [[226], [130, 172, 65]] = bs" by simp
  then show ?thesis using all by blast
qed

end
