(* ===== verification/Terminal_Writer.thy ===== *)
theory Terminal_Writer
  imports Output_Batcher
begin

text \<open>
  \<open>clamp_size\<close> and \<open>TerminalWriter\<close> of \<open>terminal_run.py\<close>: the queue of input, control
  bytes and resizes of one run, and the loop of its thread, one item at a time. The methods
  run under the writer's condition and are atomic; the channel's answers are data.
\<close>

section \<open>Sizes\<close>

definition clamp_size :: "int option \<Rightarrow> int option \<Rightarrow> int \<times> int" where
  "clamp_size cols rows =
     (let cols = (case cols of None \<Rightarrow> TERM_DEFAULT_COLS | Some c \<Rightarrow> c);
          rows = (case rows of None \<Rightarrow> TERM_DEFAULT_ROWS | Some r \<Rightarrow> r)
      in (max TERM_MIN_COLS (min TERM_MAX_COLS cols), max TERM_MIN_ROWS (min TERM_MAX_ROWS rows)))"

section \<open>The queue\<close>

text \<open>
  \<open>Write data is_input waited\<close> is the tuple \<open>("write", data, is_input)\<close>, with a fourth
  element when \<open>waited\<close>: the event that the password's sender waits for.
\<close>

datatype witem = Write bytestr bool bool | Resize int int

record terminal_writer =
  w_items :: "witem list"
  pending_input :: int
  w_closed :: bool

definition new_writer :: terminal_writer where
  "new_writer = \<lparr>w_items = [], pending_input = 0, w_closed = False\<rparr>"

fun input_cost :: "witem \<Rightarrow> nat" where
  "input_cost (Write data True waited) = length data"
| "input_cost _ = 0"

definition add_item :: "witem \<Rightarrow> terminal_writer \<Rightarrow> terminal_writer" where
  "add_item i w = w\<lparr>w_items := w_items w @ [i], pending_input := pending_input w + int (input_cost i)\<rparr>"

text \<open>None: the text has a surrogate, and \<open>data.encode("utf-8")\<close> raises before the lock.\<close>

definition writer_input :: "pystr \<Rightarrow> terminal_writer \<Rightarrow> (terminal_writer \<times> bool) option" where
  "writer_input data w =
     (case utf8_encode data of
        None \<Rightarrow> None
      | Some encoded \<Rightarrow>
          if w_closed w \<or> pending_input w + int (length encoded) > int TERM_PENDING_INPUT_MAX_BYTES
          then Some (w, False)
          else Some (add_item (Write encoded True False) w, True))"

definition put :: "witem \<Rightarrow> terminal_writer \<Rightarrow> terminal_writer" where
  "put i w = (if w_closed w then w else w\<lparr>w_items := w_items w @ [i]\<rparr>)"

definition writer_resize :: "int \<Rightarrow> int \<Rightarrow> terminal_writer \<Rightarrow> terminal_writer" where
  "writer_resize cols rows w = put (Resize cols rows) w"

definition writer_password :: "pystr option \<Rightarrow> terminal_writer \<Rightarrow> (terminal_writer \<times> bool) option" where
  "writer_password password w =
     (case password of
        None \<Rightarrow> Some (w, False)
      | Some p \<Rightarrow>
          if p = [] then Some (w, False)
          else case utf8_encode (p @ [10]) of
              None \<Rightarrow> None
            | Some encoded \<Rightarrow> Some (put (Write encoded False True) w, True))"

definition interrupt :: "terminal_writer \<Rightarrow> terminal_writer" where
  "interrupt w = (if w_closed w then w else w\<lparr>w_items := Write [3] False False # w_items w\<rparr>)"

fun is_input :: "witem \<Rightarrow> bool" where
  "is_input (Write data input waited) = input"
| "is_input (Resize cols rows) = False"

definition clear_input :: "terminal_writer \<Rightarrow> terminal_writer" where
  "clear_input w = w\<lparr>w_items := filter (\<lambda>i. \<not> is_input i) (w_items w), pending_input := 0\<rparr>"

definition writer_close :: "terminal_writer \<Rightarrow> terminal_writer" where
  "writer_close w = w\<lparr>w_closed := True\<rparr>"

section \<open>The thread\<close>

text \<open>
  The locked part of the loop: nothing while it waits, the end once closed, or the next
  item with its input bytes given back.
\<close>

datatype taken = Waiting | Ended | Took witem terminal_writer

definition pop_item :: "terminal_writer \<Rightarrow> terminal_writer" where
  "pop_item w = (case w_items w of [] \<Rightarrow> w
     | i # rest \<Rightarrow> w\<lparr>w_items := rest, pending_input := pending_input w - int (input_cost i)\<rparr>)"

definition take_item :: "terminal_writer \<Rightarrow> taken" where
  "take_item w =
     (if w_closed w then Ended
      else case w_items w of [] \<Rightarrow> Waiting | i # rest \<Rightarrow> Took i (pop_item w))"

text \<open>
  The send loop. Each round first looks at the closed flag and the deadline and then gets
  one answer of the channel; \<open>Accepted 0\<close> is what a closed channel returns. The result is
  the bytes the channel took, the bytes left and whether the device is stuck; None while the
  loop has not ended with the answers so far.
\<close>

datatype send_round = WriterClosed | PastDeadline | TimedOut | SendFailed | Accepted nat

fun send_loop :: "send_round list \<Rightarrow> bytestr \<Rightarrow> (bytestr \<times> bytestr \<times> bool) option" where
  "send_loop rounds [] = Some ([], [], False)"
| "send_loop [] (b # bs) = None"
| "send_loop (r # rounds) (b # bs) =
     (case r of
        WriterClosed \<Rightarrow> Some ([], b # bs, False)
      | PastDeadline \<Rightarrow> Some ([], b # bs, True)
      | TimedOut \<Rightarrow> send_loop rounds (b # bs)
      | SendFailed \<Rightarrow> Some ([], b # bs, False)
      | Accepted n \<Rightarrow>
          if n = 0 then Some ([], b # bs, False)
          else map_option (\<lambda>(sent, left, stuck). (take n (b # bs) @ sent, left, stuck))
                 (send_loop rounds (drop n (b # bs))))"

section \<open>Accounting\<close>

interpretation wq: accounted_queue w_items pending_input input_cost add_item pop_item
  by unfold_locales (auto simp: add_item_def pop_item_def)

lemma input_cost_not_input: "\<not> is_input i \<Longrightarrow> input_cost i = 0"
  by (cases i) auto

lemma put_add: "\<not> is_input i \<Longrightarrow> \<not> w_closed w \<Longrightarrow> put i w = add_item i w"
  by (simp add: put_def add_item_def input_cost_not_input)

lemma put_balanced: "\<not> is_input i \<Longrightarrow> wq.balanced w \<Longrightarrow> wq.balanced (put i w)"
  by (cases "w_closed w") (simp_all add: put_add wq.balanced_add, simp add: put_def)

lemma no_input_cost: "sum_list (map input_cost (filter (\<lambda>i. \<not> is_input i) xs)) = 0"
  by (induction xs) (auto simp: input_cost_not_input)

definition writer_ok :: "terminal_writer \<Rightarrow> bool" where
  "writer_ok w \<longleftrightarrow> wq.balanced w \<and> pending_input w \<le> int TERM_PENDING_INPUT_MAX_BYTES"

lemma put_pending [simp]: "pending_input (put i w) = pending_input w"
  by (simp add: put_def)

lemma writer_ok_new [simp]: "writer_ok new_writer"
  by (simp add: writer_ok_def wq.balanced_def new_writer_def)

lemma writer_ok_put: "\<not> is_input i \<Longrightarrow> writer_ok w \<Longrightarrow> writer_ok (put i w)"
  by (simp add: writer_ok_def put_balanced)

lemma writer_ok_input: "writer_ok w \<Longrightarrow> writer_input d w = Some (w', r) \<Longrightarrow> writer_ok w'"
  by (auto simp: writer_ok_def writer_input_def wq.balanced_add split: option.splits if_splits)
    (simp add: add_item_def)

lemma writer_ok_password: "writer_ok w \<Longrightarrow> writer_password p w = Some (w', r) \<Longrightarrow> writer_ok w'"
  by (auto simp: writer_password_def writer_ok_put split: option.splits if_splits)

lemma writer_ok_interrupt: "writer_ok w \<Longrightarrow> writer_ok (interrupt w)"
  by (simp add: writer_ok_def wq.balanced_def interrupt_def)

lemma writer_ok_clear: "writer_ok (clear_input w)"
  by (simp add: writer_ok_def wq.balanced_def clear_input_def no_input_cost)

lemma writer_ok_close: "writer_ok w \<Longrightarrow> writer_ok (writer_close w)"
  by (simp add: writer_ok_def wq.balanced_def writer_close_def)

lemma writer_ok_take: "writer_ok w \<Longrightarrow> take_item w = Took i w' \<Longrightarrow> writer_ok w'"
proof -
  assume w: "writer_ok w" "take_item w = Took i w'"
  then have "w_items w \<noteq> []" "w' = pop_item w" by (auto simp: take_item_def split: if_splits list.splits)
  moreover have "pending_input (pop_item w) \<le> pending_input w" by (simp add: pop_item_def split: list.splits)
  ultimately show ?thesis using w wq.balanced_pop by (simp add: writer_ok_def)
qed

lemmas writer_ok_ops = writer_ok_input writer_ok_password writer_ok_interrupt writer_ok_clear
  writer_ok_close writer_ok_take writer_ok_put

section \<open>Any use of a writer\<close>

datatype writer_call =
    CallInput pystr
  | CallResize int int
  | CallPassword "pystr option"
  | CallInterrupt
  | CallClear
  | CallClose
  | ThreadTakes

definition apply_call :: "writer_call \<Rightarrow> terminal_writer \<Rightarrow> terminal_writer" where
  "apply_call c w = (case c of
       CallInput d \<Rightarrow> (case writer_input d w of None \<Rightarrow> w | Some (w', r) \<Rightarrow> w')
     | CallResize cols rows \<Rightarrow> writer_resize cols rows w
     | CallPassword p \<Rightarrow> (case writer_password p w of None \<Rightarrow> w | Some (w', r) \<Rightarrow> w')
     | CallInterrupt \<Rightarrow> interrupt w
     | CallClear \<Rightarrow> clear_input w
     | CallClose \<Rightarrow> writer_close w
     | ThreadTakes \<Rightarrow> (case take_item w of Took i w' \<Rightarrow> w' | Waiting \<Rightarrow> w | Ended \<Rightarrow> w))"

lemma writer_ok_call: "writer_ok w \<Longrightarrow> writer_ok (apply_call c w)"
  by (cases c) (auto simp: apply_call_def writer_resize_def split: option.splits taken.splits intro: writer_ok_ops)

lemma writer_ok_calls: "writer_ok w \<Longrightarrow> writer_ok (fold apply_call cs w)"
  by (induction cs arbitrary: w) (auto simp: writer_ok_call)

section \<open>Properties\<close>

text \<open>
  The input a run holds for a slow device is bounded and never miscounted: after any
  calls from any threads, in any order, the running count is the number of input bytes queued
  and at most 65536; passwords, control bytes and resizes never count; and input is refused
  exactly when the writer is closed or the input would exceed the bound.
\<close>

theorem writer_input_bounded:
  "pending_input (fold apply_call cs new_writer)
     = int (\<Sum>i \<leftarrow> w_items (fold apply_call cs new_writer). input_cost i)
   \<and> pending_input (fold apply_call cs new_writer) \<le> 65536
   \<and> (utf8_encode d = Some bs \<longrightarrow>
       (writer_input d (fold apply_call cs new_writer) = Some (fold apply_call cs new_writer, False)
        \<longleftrightarrow> w_closed (fold apply_call cs new_writer)
           \<or> 65536 < (\<Sum>i \<leftarrow> w_items (fold apply_call cs new_writer). input_cost i) + length bs))"
proof -
  let ?w = "fold apply_call cs new_writer"
  have ok: "writer_ok ?w" by (rule writer_ok_calls) simp
  then have p: "pending_input ?w = int (\<Sum>i \<leftarrow> w_items ?w. input_cost i)"
    by (simp add: writer_ok_def wq.balanced_def)
  have "add_item (Write bs True False) ?w \<noteq> ?w" by (metis append_self_conv list.simps(3) wq.items_add)
  then show ?thesis
    using ok p by (auto simp: writer_ok_def writer_input_def TERM_PENDING_INPUT_MAX_BYTES_def)
qed

theorem writer_input_bounded_witness:
  "writer_input [97] (fold apply_call [CallInput [98], CallClose] new_writer)
     = Some (fold apply_call [CallInput [98], CallClose] new_writer, False)"
  using writer_input_bounded [of "[CallInput [98], CallClose]" "[97]" "[97]"]
  by (simp add: utf8_encode_def encode_char_def surrogate_def apply_call_def writer_close_def)

text \<open>
  Ctrl+C overtakes everything and a new controller starts clean: after an interrupt the
  thread's next item is the single byte 3, whatever is queued, and the rest follows unchanged;
  and after a claim has cleared the input no queued item is input, while passwords, control
  bytes and resizes keep their order, and any input of up to 65536 bytes is accepted.
\<close>

theorem interrupt_overtakes:
  assumes "\<not> w_closed w"
  shows "(\<exists>w'. take_item (interrupt w) = Took (Write [3] False False) w' \<and> w_items w' = w_items w
            \<and> pending_input w' = pending_input w)
    \<and> w_items (clear_input w) = filter (\<lambda>i. \<not> is_input i) (w_items w)
    \<and> (\<forall>d bs. utf8_encode d = Some bs \<and> length bs \<le> 65536 \<longrightarrow>
         (\<exists>w'. writer_input d (clear_input w) = Some (w', True)
             \<and> w_items w' = filter (\<lambda>i. \<not> is_input i) (w_items w) @ [Write bs True False]))"
  using assms
  by (auto simp: take_item_def interrupt_def pop_item_def clear_input_def writer_input_def add_item_def
      TERM_PENDING_INPUT_MAX_BYTES_def)

theorem interrupt_overtakes_witness:
  "\<exists>w'. take_item (interrupt (fold apply_call [CallInput [98], CallResize 80 24] new_writer))
      = Took (Write [3] False False) w'
    \<and> w_items w' = [Write [98] True False, Resize 80 24]"
proof -
  let ?w = "fold apply_call [CallInput [98], CallResize 80 24] new_writer"
  have w: "\<not> w_closed ?w" "w_items ?w = [Write [98] True False, Resize 80 24]"
    by (simp_all add: apply_call_def writer_input_def utf8_encode_def encode_char_def surrogate_def
        new_writer_def add_item_def writer_resize_def put_def TERM_PENDING_INPUT_MAX_BYTES_def)
  then show ?thesis using interrupt_overtakes [OF w(1)] by metis
qed

text \<open>
  A write is never reordered, repeated or reported complete when it is not: whatever the
  channel answers, the bytes it took followed by the bytes left are the item's bytes; the
  device is declared stuck only with bytes left; and the loop ends as soon as the channel's
  answers cover the item, the deadline passes, or the channel or the writer closes.
\<close>

theorem send_exact:
  "(case send_loop rounds data of
      None \<Rightarrow> WriterClosed \<notin> set rounds \<and> PastDeadline \<notin> set rounds \<and> SendFailed \<notin> set rounds
              \<and> Accepted 0 \<notin> set rounds
    | Some (sent, left, stuck) \<Rightarrow> sent @ left = data \<and> (stuck \<longrightarrow> left \<noteq> []))
   \<and> (length data \<le> (\<Sum>r \<leftarrow> rounds. case r of Accepted n \<Rightarrow> n | _ \<Rightarrow> 0) \<longrightarrow> send_loop rounds data \<noteq> None)"
proof (induction rounds data rule: send_loop.induct)
  case (3 r rounds b bs)
  show ?case
  proof (cases r)
    case (Accepted n)
    show ?thesis
    proof (cases "n = 0")
      case True
      then show ?thesis using Accepted by simp
    next
      case False
      have split: "take n (b # bs) @ drop n (b # bs) = b # bs" by (rule append_take_drop_id)
      show ?thesis
        using 3(2) [OF Accepted False] False split
        by (auto simp: Accepted split: option.splits)
    qed
  qed (use 3 in \<open>auto split: option.splits\<close>)
qed auto

theorem send_exact_witness:
  "send_loop [TimedOut, Accepted 2, PastDeadline] [1, 2, 3] = Some ([1, 2], [3], True)
   \<and> send_loop [Accepted 2, Accepted 1] [1, 2, 3] \<noteq> None"
  using send_exact [of "[Accepted 2, Accepted 1]" "[1, 2, 3]"] by simp

end
