(* ===== verification/Py_Text.thy ===== *)
theory Py_Text
  imports Prelude Complex_Main
begin

text \<open>
  What the program uses of Python's text and number handling: white space and \<open>str.strip\<close>,
  \<open>int\<close> of a string in base 10 and 16, \<open>str\<close> of an integer, and the values that
  \<open>json.loads\<close> produces with their truth value. Every value is computed, so witnesses can
  evaluate them.
\<close>

section \<open>White space\<close>

text \<open>\<open>str.strip\<close> removes Unicode white space at both ends.\<close>

definition py_space :: "nat \<Rightarrow> bool" where
  "py_space c \<longleftrightarrow> (9 \<le> c \<and> c \<le> 13) \<or> (28 \<le> c \<and> c \<le> 32) \<or> c \<in> {133, 160, 5760, 8232, 8233, 8239, 8287, 12288}
     \<or> (8192 \<le> c \<and> c \<le> 8202)"

definition strip :: "pystr \<Rightarrow> pystr" where
  "strip s = rev (dropWhile py_space (rev (dropWhile py_space s)))"

lemma dropWhile_rev_hd:
  "s \<noteq> [] \<Longrightarrow> \<not> p (hd s) \<Longrightarrow> rev (dropWhile p (rev s)) \<noteq> [] \<and> hd (rev (dropWhile p (rev s))) = hd s"
proof -
  assume "s \<noteq> []" "\<not> p (hd s)"
  then obtain c cs where s: "s = c # cs" and c: "\<not> p c" by (cases s) auto
  have "dropWhile p (rev cs @ [c]) = dropWhile p (rev cs) @ [c]"
    using c by (induction "rev cs" rule: list.induct; simp add: dropWhile_append)
  then show ?thesis by (simp add: s)
qed

text \<open>A stripped text is empty or starts and ends with something visible.\<close>

definition stripped :: "pystr \<Rightarrow> bool" where
  "stripped s \<longleftrightarrow> s = [] \<or> (\<not> py_space (hd s) \<and> \<not> py_space (last s))"

lemma strip_stripped: "stripped (strip s)"
proof (cases "dropWhile py_space s = []")
  case True
  then show ?thesis unfolding strip_def stripped_def by (simp del: dropWhile_eq_Nil_conv)
next
  case False
  let ?t = "dropWhile py_space s"
  have h: "\<not> py_space (hd ?t)" using False by (rule hd_dropWhile)
  from dropWhile_rev_hd [where p = py_space, OF False h] have "strip s \<noteq> []" "hd (strip s) = hd ?t"
    by (simp_all add: strip_def)
  moreover have "\<not> py_space (last (strip s))"
    using calculation(1) hd_dropWhile [of py_space "rev ?t"] by (simp add: strip_def last_rev)
  ultimately show ?thesis using h by (simp add: stripped_def)
qed

lemma strip_id: "stripped s \<Longrightarrow> strip s = s"
proof (cases "s = []")
  case True
  then show ?thesis by (simp add: strip_def)
next
  case False
  assume "stripped s"
  then have "dropWhile py_space s = s" and "dropWhile py_space (rev s) = rev s"
    using False by (simp_all add: stripped_def dropWhile_eq_self_iff hd_rev)
  then show ?thesis by (simp add: strip_def)
qed

lemma strip_strip [simp]: "strip (strip s) = strip s"
  by (simp add: strip_id strip_stripped)

lemma strip_empty [simp]: "strip [] = []"
  by (simp add: strip_def)

lemma strip_take:
  assumes "stripped s" "s \<noteq> []" "0 < n"
  shows "strip (take n s) \<noteq> []"
proof -
  have t: "take n s \<noteq> []" and "hd (take n s) = hd s" using assms by (simp_all add: hd_take)
  moreover have "\<not> py_space (hd s)" using assms by (simp add: stripped_def)
  ultimately have h: "\<not> py_space (hd (take n s))" by simp
  then have "dropWhile py_space (take n s) = take n s" using t by (simp add: dropWhile_eq_self_iff)
  then show ?thesis using dropWhile_rev_hd [where p = py_space, OF t h] by (simp add: strip_def)
qed

section \<open>Integers in text\<close>

text \<open>
  The zeros of the runs of ten decimal digits of Unicode 14 (category Nd); \<open>int\<close> accepts any
  of them.
\<close>

definition DIGIT_ZEROS :: "nat list" where
  "DIGIT_ZEROS = [48, 1632, 1776, 1984, 2406, 2534, 2662, 2790, 2918, 3046, 3174, 3302, 3430, 3558,
     3664, 3792, 3872, 4160, 4240, 6112, 6160, 6470, 6608, 6784, 6800, 6992, 7088, 7232, 7248, 42528,
     43216, 43264, 43472, 43504, 43600, 44016, 65296, 66720, 68912, 69734, 69872, 69942, 70096, 70384,
     70736, 70864, 71248, 71360, 71472, 71904, 72016, 72784, 73040, 73120, 92768, 92864, 93008, 120782,
     120792, 120802, 120812, 120822, 123200, 123632, 125264, 130032]"

definition digit_value :: "nat \<Rightarrow> nat option" where
  "digit_value c = map_option (\<lambda>z. c - z) (find (\<lambda>z. z \<le> c \<and> c < z + 10) DIGIT_ZEROS)"

definition hex_value :: "nat \<Rightarrow> nat option" where
  "hex_value c =
     (if 97 \<le> c \<and> c \<le> 102 then Some (c - 87)
      else if 65 \<le> c \<and> c \<le> 70 then Some (c - 55)
      else digit_value c)"

text \<open>One or more digits, single underscores allowed between them.\<close>

fun digit_run :: "(nat \<Rightarrow> nat option) \<Rightarrow> pystr \<Rightarrow> nat list option" where
  "digit_run v [] = None"
| "digit_run v [c] = map_option (\<lambda>d. [d]) (v c)"
| "digit_run v (c # c' # cs) =
     (case v c of
        None \<Rightarrow> None
      | Some d \<Rightarrow> map_option ((#) d) (if c' = 95 then digit_run v cs else digit_run v (c' # cs)))"

fun split_sign :: "pystr \<Rightarrow> bool \<times> pystr" where
  "split_sign [] = (False, [])"
| "split_sign (c # cs) = (if c = 45 then (True, cs) else if c = 43 then (False, cs) else (False, c # cs))"

definition from_digits :: "nat \<Rightarrow> nat list \<Rightarrow> nat" where
  "from_digits b ds = foldl (\<lambda>n d. n * b + d) 0 ds"

text \<open>\<open>int(s)\<close>: None for a ValueError, which a text of more than 4300 digits also raises.\<close>

definition py_int :: "pystr \<Rightarrow> int option" where
  "py_int s =
     (let (neg, t) = split_sign (strip s)
      in case digit_run digit_value t of
           None \<Rightarrow> None
         | Some ds \<Rightarrow>
             if length ds > 4300 then None
             else Some (if neg then - int (from_digits 10 ds) else int (from_digits 10 ds)))"

text \<open>\<open>int(s, 16)\<close> also takes a prefix \<open>0x\<close>, and an underscore after it.\<close>

definition skip_hex_prefix :: "pystr \<Rightarrow> pystr" where
  "skip_hex_prefix cs =
     (if take 2 cs \<in> {[48, 120], [48, 88]}
      then (if take 1 (drop 2 cs) = [95] then drop 3 cs else drop 2 cs)
      else cs)"

definition py_int_hex :: "pystr \<Rightarrow> int option" where
  "py_int_hex s =
     (let (neg, t) = split_sign (strip s)
      in map_option (\<lambda>ds. if neg then - int (from_digits 16 ds) else int (from_digits 16 ds))
           (digit_run hex_value (skip_hex_prefix t)))"

fun decimal :: "nat \<Rightarrow> pystr" where
  "decimal n = (if n < 10 then [48 + n] else decimal (n div 10) @ [48 + n mod 10])"

declare decimal.simps [simp del]

definition int_text :: "int \<Rightarrow> pystr" where
  "int_text i = (if i < 0 then 45 # decimal (nat (- i)) else decimal (nat i))"

text \<open>Reading back a printed number.\<close>

lemma digit_value_ascii: "d < 10 \<Longrightarrow> digit_value (48 + d) = Some d"
  by (simp add: digit_value_def DIGIT_ZEROS_def)

lemma digit_run_snoc:
  "digit_run v s = Some ds \<Longrightarrow> v c = Some d \<Longrightarrow> c \<noteq> 95 \<Longrightarrow> digit_run v (s @ [c]) = Some (ds @ [d])"
proof (induction v s arbitrary: ds rule: digit_run.induct)
  case (3 v a b cs)
  from "3.prems"(1) obtain e es where e: "v a = Some e" "ds = e # es"
    and es: "(if b = 95 then digit_run v cs else digit_run v (b # cs)) = Some es"
    by (auto split: option.splits)
  show ?case
  proof (cases "b = 95")
    case True
    then have "cs \<noteq> []" using es by auto
    then obtain x xs where "cs @ [c] = x # xs" by (cases cs) auto
    then show ?thesis using "3.IH"(1) [OF e(1) True _ "3.prems"(2,3)] True es e by simp
  next
    case False
    then show ?thesis using "3.IH"(2) [OF e(1) False _ "3.prems"(2,3)] es e by simp
  qed
qed auto

lemma decimal_digits: "\<exists>ds. digit_run digit_value (decimal n) = Some ds \<and> from_digits 10 ds = n
    \<and> length ds = length (decimal n) \<and> set (decimal n) \<subseteq> {48..57}"
proof (induction n rule: decimal.induct)
  case (1 n)
  show ?case
  proof (cases "n < 10")
    case True
    then show ?thesis
      by (simp add: decimal.simps [of n] digit_value_ascii from_digits_def)
  next
    case False
    then obtain ds where ds: "digit_run digit_value (decimal (n div 10)) = Some ds" "from_digits 10 ds = n div 10"
      "length ds = length (decimal (n div 10))" "set (decimal (n div 10)) \<subseteq> {48..57}"
      using 1 by blast
    have "digit_run digit_value (decimal (n div 10) @ [48 + n mod 10]) = Some (ds @ [n mod 10])"
      using ds(1) by (rule digit_run_snoc) (simp_all add: digit_value_ascii)
    then show ?thesis
      using False ds by (simp add: decimal.simps [of n] from_digits_def)
  qed
qed

section \<open>JSON values\<close>

text \<open>
  What \<open>json.loads\<close> returns. An object is a dictionary in the order of its keys;
  \<open>JNonFinite\<close> stands for the three values NaN, Infinity and -Infinity it also accepts.
\<close>

datatype json =
    JNull
  | JBool bool
  | JInt int
  | JFloat rat
  | JNonFinite
  | JStr pystr
  | JArr "json list"
  | JObj "(pystr, json) dict"

definition js :: "string \<Rightarrow> json" where
  "js s = JStr (lit s)"

fun truthy :: "json \<Rightarrow> bool" where
  "truthy JNull = False"
| "truthy (JBool b) = b"
| "truthy (JInt i) = (i \<noteq> 0)"
| "truthy (JFloat q) = (q \<noteq> 0)"
| "truthy JNonFinite = True"
| "truthy (JStr s) = (s \<noteq> [])"
| "truthy (JArr xs) = (xs \<noteq> [])"
| "truthy (JObj d) = (d \<noteq> [])"

text \<open>\<open>int\<close> of a float rounds towards zero; an integer equals a number of any kind with its value.\<close>

definition int_of_float :: "rat \<Rightarrow> int" where
  "int_of_float q = (if q < 0 then \<lceil>q\<rceil> else \<lfloor>q\<rfloor>)"

fun eq_int :: "int \<Rightarrow> json \<Rightarrow> bool" where
  "eq_int i (JInt j) = (i = j)"
| "eq_int i (JFloat q) = (of_int i = q)"
| "eq_int i (JBool b) = (i = (if b then 1 else 0))"
| "eq_int i _ = False"

definition json_get :: "(pystr, json) dict \<Rightarrow> string \<Rightarrow> json option" where
  "json_get d k = dict_get d (lit k)"

text \<open>A field's value when it is present and of the wanted kind.\<close>

fun str_of :: "json option \<Rightarrow> pystr option" where
  "str_of (Some (JStr s)) = Some s"
| "str_of _ = None"

fun bool_of :: "json option \<Rightarrow> bool option" where
  "bool_of (Some (JBool b)) = Some b"
| "bool_of _ = None"

fun int_of :: "json option \<Rightarrow> int option" where
  "int_of (Some (JInt i)) = Some i"
| "int_of _ = None"

fun arr_of :: "json option \<Rightarrow> json list option" where
  "arr_of (Some (JArr xs)) = Some xs"
| "arr_of _ = None"

lemma field_of_iff [simp]:
  "str_of v = Some s \<longleftrightarrow> v = Some (JStr s)"
  "bool_of v = Some b \<longleftrightarrow> v = Some (JBool b)"
  "int_of v = Some i \<longleftrightarrow> v = Some (JInt i)"
  "arr_of v = Some xs \<longleftrightarrow> v = Some (JArr xs)"
  by (cases v rule: str_of.cases, simp_all) (cases v rule: bool_of.cases; cases v rule: int_of.cases; cases v rule: arr_of.cases; simp)+

definition json_set :: "string \<Rightarrow> json \<Rightarrow> (pystr, json) dict \<Rightarrow> (pystr, json) dict" where
  "json_set k v d = dict_set (lit k) v d"

lemma lit_inject [simp]: "lit s = lit t \<longleftrightarrow> s = t"
proof -
  have "inj (of_char :: char \<Rightarrow> nat)" by (rule injI) simp
  then show ?thesis by (simp add: lit_def inj_map_eq_map)
qed

lemma json_get_set [dict_simps]: "json_get (json_set k v d) k' = (if k' = k then Some v else json_get d k')"
  by (simp add: json_get_def json_set_def dict_get_set del: lit_simps)

lemma json_set_same: "json_get d k = Some v \<Longrightarrow> json_set k v d = d"
  unfolding json_get_def json_set_def by (induction d) auto

text \<open>
  The contents of a file that is read with \<open>json.load\<close> or \<open>json.loads\<close>: the value it parses
  to, or text for which that raises (not JSON, or not UTF-8). \<open>json.dumps\<close> writes text that
  parses to the value it was given.
\<close>

datatype file_text = Json json | NotJson | NotUtf8

end
