(* ===== verification/Ssh_State.thy ===== *)
theory Ssh_State
  imports Terminal_History Terminal_Writer Py_Text
begin

text \<open>
  The state of \<open>SSHManager\<close> (\<open>ssh_manager.py\<close>), of \<open>_Session\<close> (\<open>ssh_session.py\<close>) and
  of \<open>_PendingHostKey\<close> (\<open>host_keys.py\<close>), and the messages the manager pushes.

  Sessions are objects with identity: the slot of a device, the connect attempt, the
  command's worker and its timers all hold the same object, and the code compares it with
  \<open>is\<close>. So they live in a store under addresses that are never reused, and the
  dictionary \<open>sessions\<close> maps a device to an address. The network client, the channel and
  the timer are opaque: whether the session has a client, the channel's identity, and
  whether a timer is set. Debug-log lines and the \<open>_debug_tag\<close> they carry are left out.
\<close>

record device =
  d_host :: pystr
  d_username :: pystr

datatype conn_state = Connecting | Connected | HostKeyPending | Closed

record session =
  s_device :: device
  s_device_id :: string
  s_password :: "pystr option"
  s_client :: bool
  s_busy :: bool
  s_channel :: "nat option"
  s_run_id :: "string option"
  s_cancelled :: bool
  s_cancel_requested :: bool
  s_owner :: string
  s_state :: conn_state
  s_generation :: nat
  s_last_io :: rat
  s_writer :: "terminal_writer option"
  s_controller :: "string option"
  s_control_rev :: int
  s_auth_complete :: bool
  s_cols :: "int option"
  s_rows :: "int option"
  s_stop_timer :: bool
  s_forced :: bool
  s_writer_stuck :: bool
  s_history :: "terminal_history option"
  s_label :: "pystr option"
  s_sent_seq :: int
  s_sent_bytes :: "(int, nat) dict"
  s_acked_seq :: int
  s_ack_progress_at :: rat
  s_ack_stalled :: bool

definition new_session :: "device \<Rightarrow> pystr \<Rightarrow> string \<Rightarrow> string \<Rightarrow> rat \<Rightarrow> session" where
  "new_session dev pw own did now = \<lparr>s_device = dev, s_device_id = did, s_password = Some pw,
     s_client = False, s_busy = False, s_channel = None, s_run_id = None, s_cancelled = False,
     s_cancel_requested = False, s_owner = own, s_state = Connecting, s_generation = 0,
     s_last_io = now, s_writer = None, s_controller = None, s_control_rev = 0,
     s_auth_complete = False, s_cols = None, s_rows = None, s_stop_timer = False,
     s_forced = False, s_writer_stuck = False, s_history = None, s_label = None,
     s_sent_seq = 0, s_sent_bytes = [], s_acked_seq = 0, s_ack_progress_at = now,
     s_ack_stalled = False\<rparr>"

text \<open>\<open>_Session.close\<close>: the finally block clears the references whatever the client does.\<close>

definition close_session :: "session \<Rightarrow> session" where
  "close_session s = s\<lparr>s_client := False, s_channel := None, s_password := None, s_history := None\<rparr>"

text \<open>\<open>_PendingHostKey\<close>. A host key is opaque: its name and its bytes.\<close>

type_synonym hostkey = "pystr \<times> bytestr"

record prompt =
  p_host :: pystr
  p_key :: hostkey
  p_code :: string
  p_owner :: string
  p_generation :: nat
  p_created_at :: rat

record owner_info =
  i_last_active :: rat
  i_warned :: bool
  i_silent :: bool

section \<open>Messages\<close>

datatype message =
    SshLog string pystr string "string option"
  | SshStatus string string "string option"
  | SshLock string bool
  | SshIdleTimeout
  | SshIdleWarning int
  | TermStart string string "string option" int int
  | TermData string string nat pystr
  | TermEnd string string

record pushed =
  m_body :: message
  m_owner :: "string option"
  m_gen :: "nat option"

section \<open>The manager\<close>

record manager =
  sessions :: "(string, nat) dict"
  store :: "nat \<Rightarrow> session"
  next_ref :: nat
  pending :: "(string, prompt) dict"
  activity :: "(string, owner_info) dict"
  gen_counter :: nat
  pushes :: "pushed list"

definition new_manager :: manager where
  "new_manager = \<lparr>sessions = [], store = (\<lambda>_. new_session \<lparr>d_host = [], d_username = []\<rparr> [] [] [] 0),
     next_ref = 0, pending = [], activity = [], gen_counter = 0, pushes = []\<rparr>"

abbreviation current :: "manager \<Rightarrow> string \<Rightarrow> nat option" where
  "current m did \<equiv> dict_get (sessions m) did"

text \<open>\<open>_is_current\<close>, for a session and the device it was made for.\<close>

definition is_current :: "manager \<Rightarrow> string \<Rightarrow> nat \<Rightarrow> bool" where
  "is_current m did r \<longleftrightarrow> current m did = Some r"

definition edit :: "nat \<Rightarrow> (session \<Rightarrow> session) \<Rightarrow> manager \<Rightarrow> manager" where
  "edit r f m = m\<lparr>store := (store m)(r := f (store m r))\<rparr>"

section \<open>Pushing\<close>

text \<open>
  \<open>_push\<close> records the message; what the delivery queue does with it is the theory
  \<open>Delivery_Queue\<close>. \<open>_log\<close> and \<open>_status\<close> fall back to the owner of the slot's session
  and leave the owner out when it is empty.
\<close>

definition push_msg :: "message \<Rightarrow> string option \<Rightarrow> nat option \<Rightarrow> manager \<Rightarrow> manager" where
  "push_msg b own gen m = m\<lparr>pushes := pushes m @ [\<lparr>m_body = b, m_owner = own, m_gen = gen\<rparr>]\<rparr>"

definition stamped_owner :: "string option \<Rightarrow> string \<Rightarrow> manager \<Rightarrow> string option" where
  "stamped_owner own did m =
     (case (case own of Some o1 \<Rightarrow> Some o1
            | None \<Rightarrow> map_option (\<lambda>r. s_owner (store m r)) (current m did)) of
        None \<Rightarrow> None
      | Some o1 \<Rightarrow> if o1 = [] then None else Some o1)"

definition log_msg ::
  "string \<Rightarrow> pystr \<Rightarrow> string \<Rightarrow> string option \<Rightarrow> string option \<Rightarrow> nat option \<Rightarrow> manager \<Rightarrow> manager" where
  "log_msg did txt level own cmd gen m =
     push_msg (SshLog did txt level cmd) (stamped_owner own did m) gen m"

definition status_msg ::
  "string \<Rightarrow> string \<Rightarrow> string option \<Rightarrow> nat option \<Rightarrow> string \<Rightarrow> manager \<Rightarrow> manager" where
  "status_msg did st own gen reason m =
     push_msg (SshStatus did st (if st = ''idle'' then Some reason else None)) (stamped_owner own did m) gen m"

definition lock_msg :: "string \<Rightarrow> bool \<Rightarrow> nat option \<Rightarrow> manager \<Rightarrow> manager" where
  "lock_msg did locked gen m = push_msg (SshLock did locked) None gen m"

text \<open>
  \<open>_deliver\<close>, on the event loop: a message stamped with a generation is dropped unless the
  device's current session has it. The result is what reaches \<open>_broadcast\<close>.
\<close>

fun msg_device :: "message \<Rightarrow> string option" where
  "msg_device (SshLog did t l c) = Some did"
| "msg_device (SshStatus did s r) = Some did"
| "msg_device (SshLock did b) = Some did"
| "msg_device SshIdleTimeout = None"
| "msg_device (SshIdleWarning n) = None"
| "msg_device (TermStart did run c x y) = Some did"
| "msg_device (TermData did run n t) = Some did"
| "msg_device (TermEnd did run) = Some did"

definition deliver :: "manager \<Rightarrow> pushed \<Rightarrow> (message \<times> string option) option" where
  "deliver m p =
     (case m_gen p of
        None \<Rightarrow> Some (m_body p, m_owner p)
      | Some g \<Rightarrow>
          (case Option.bind (msg_device (m_body p)) (current m) of
             None \<Rightarrow> None
           | Some r \<Rightarrow> if s_generation (store m r) \<noteq> g then None else Some (m_body p, m_owner p)))"

section \<open>Owner activity\<close>

definition owner_touch :: "string \<Rightarrow> rat \<Rightarrow> manager \<Rightarrow> manager" where
  "owner_touch own now m =
     m\<lparr>activity := dict_set own \<lparr>i_last_active = now, i_warned = False, i_silent = False\<rparr> (activity m)\<rparr>"

definition owner_reset :: "string \<Rightarrow> rat \<Rightarrow> manager \<Rightarrow> manager" where
  "owner_reset own now m = (case dict_get (activity m) own of
       None \<Rightarrow> m
     | Some info \<Rightarrow> m\<lparr>activity := dict_set own (info\<lparr>i_last_active := now, i_warned := False\<rparr>) (activity m)\<rparr>)"

definition owner_pop :: "string \<Rightarrow> manager \<Rightarrow> manager" where
  "owner_pop own m = m\<lparr>activity := dict_pop own (activity m)\<rparr>"

section \<open>What a thread still has to do\<close>

text \<open>
  A handler is one section under the device's lock followed by work outside it: closing a
  client, pushing messages, entering another locked section, waiting for the network. That
  work is data: the list of the thread's remaining actions. The step relation of
  \<open>Ssh_System\<close> runs the first action of any thread, so every interleaving of the threads at
  the lock boundaries is a behaviour of the model.

  \<open>run_args\<close> are the arguments of \<open>_exec\<close> and its local \<open>started\<close>.
\<close>

record run_args =
  r_device :: string
  r_run :: string
  r_label :: pystr
  r_sudo :: bool
  r_cmd_id :: "string option"
  r_cols :: int
  r_rows :: int
  r_started :: bool

record read_result =
  rr_gate_passed :: bool
  rr_refused :: bool
  rr_superseded :: bool
  rr_exit_code :: int

datatype act =
    ClearPending string
  | CloseSession nat
  | Log string pystr string "string option" "string option" "nat option"
  | Status string string "string option" "nat option" string
  | Lock string bool "nat option"
  | PushTo message string
  | OwnerTouch string
  | OwnerReset string
  | OwnerPop string
  | ClearActivity
  | NetConnect string nat string bool
  | SaveKey string nat prompt
  | CloseSlot string "nat option" string
  | SweepDevice rat string
  | TickOwners rat
  | TickOwner rat string
  | ReleasePrompts string
  | ExecStart nat run_args
  | ExecOpen nat run_args
  | ExecRead nat run_args
  | ExecWaitAck nat run_args pystr nat
  | ExecFeed nat run_args pystr nat
  | ExecPush nat run_args pystr nat
  | ExecSent nat run_args pystr nat
  | ExecDone nat run_args "read_result option"
  | FinishExec nat
  | StatusConnected nat
  | ForceStop string nat string nat
  | CloseChannel nat

section \<open>Frame facts\<close>

lemma push_msg_simps [simp]:
  "sessions (push_msg b own gen m) = sessions m" "store (push_msg b own gen m) = store m"
  "next_ref (push_msg b own gen m) = next_ref m" "pending (push_msg b own gen m) = pending m"
  "activity (push_msg b own gen m) = activity m" "gen_counter (push_msg b own gen m) = gen_counter m"
  "pushes (push_msg b own gen m) = pushes m @ [\<lparr>m_body = b, m_owner = own, m_gen = gen\<rparr>]"
  by (simp_all add: push_msg_def)

lemmas msg_defs = log_msg_def status_msg_def lock_msg_def

lemma log_msg_simps [simp]:
  "sessions (log_msg d t l own c g m) = sessions m" "store (log_msg d t l own c g m) = store m"
  "next_ref (log_msg d t l own c g m) = next_ref m" "pending (log_msg d t l own c g m) = pending m"
  "activity (log_msg d t l own c g m) = activity m" "gen_counter (log_msg d t l own c g m) = gen_counter m"
  by (simp_all add: log_msg_def)

lemma status_msg_simps [simp]:
  "sessions (status_msg d s own g re m) = sessions m" "store (status_msg d s own g re m) = store m"
  "next_ref (status_msg d s own g re m) = next_ref m" "pending (status_msg d s own g re m) = pending m"
  "activity (status_msg d s own g re m) = activity m" "gen_counter (status_msg d s own g re m) = gen_counter m"
  by (simp_all add: status_msg_def)

lemma lock_msg_simps [simp]:
  "sessions (lock_msg d b g m) = sessions m" "store (lock_msg d b g m) = store m"
  "next_ref (lock_msg d b g m) = next_ref m" "pending (lock_msg d b g m) = pending m"
  "activity (lock_msg d b g m) = activity m" "gen_counter (lock_msg d b g m) = gen_counter m"
  by (simp_all add: lock_msg_def)

lemma edit_simps [simp]:
  "sessions (edit r f m) = sessions m" "store (edit r f m) = (store m)(r := f (store m r))"
  "next_ref (edit r f m) = next_ref m" "pending (edit r f m) = pending m"
  "activity (edit r f m) = activity m" "gen_counter (edit r f m) = gen_counter m"
  "pushes (edit r f m) = pushes m"
  by (simp_all add: edit_def)

lemma owner_simps [simp]:
  "sessions (owner_touch own now m) = sessions m" "store (owner_touch own now m) = store m"
  "next_ref (owner_touch own now m) = next_ref m" "pending (owner_touch own now m) = pending m"
  "gen_counter (owner_touch own now m) = gen_counter m" "pushes (owner_touch own now m) = pushes m"
  "sessions (owner_reset own now m) = sessions m" "store (owner_reset own now m) = store m"
  "next_ref (owner_reset own now m) = next_ref m" "pending (owner_reset own now m) = pending m"
  "gen_counter (owner_reset own now m) = gen_counter m" "pushes (owner_reset own now m) = pushes m"
  "sessions (owner_pop own m) = sessions m" "store (owner_pop own m) = store m"
  "next_ref (owner_pop own m) = next_ref m" "pending (owner_pop own m) = pending m"
  "gen_counter (owner_pop own m) = gen_counter m" "pushes (owner_pop own m) = pushes m"
  by (simp_all add: owner_touch_def owner_reset_def owner_pop_def split: option.splits)

lemma close_session_simps [simp]:
  "s_password (close_session s) = None" "s_client (close_session s) = False"
  "s_channel (close_session s) = None"
  "s_state (close_session s) = s_state s" "s_owner (close_session s) = s_owner s"
  "s_generation (close_session s) = s_generation s" "s_device_id (close_session s) = s_device_id s"
  "s_busy (close_session s) = s_busy s" "s_run_id (close_session s) = s_run_id s"
  "s_cancelled (close_session s) = s_cancelled s"
  by (simp_all add: close_session_def)

end
