(* ===== verification/Ssh_Connect.thy ===== *)
theory Ssh_Connect
  imports Ssh_State
begin

text \<open>
  Connecting, host-key prompts, closing and the idle timeout of \<open>ssh_manager.py\<close>. Each
  definition is a section under the device's lock (or the part of a handler between two
  such sections); it returns the manager, the reply where the section decides it, and the
  actions the thread goes on with.
\<close>

section \<open>Constants and texts\<close>

definition IDLE_WARN_SECONDS :: rat where
  "IDLE_WARN_SECONDS = 270"

definition IDLE_TIMEOUT_SECONDS :: rat where
  "IDLE_TIMEOUT_SECONDS = 300"

definition HOST_KEY_PENDING_SECONDS :: rat where
  "HOST_KEY_PENDING_SECONDS = 300"

definition disconnected_text :: pystr where
  "disconnected_text = lit ''Disconnected. Password cleared from memory.''"

section \<open>Teardown\<close>

text \<open>The three assignments that retire a session, made wherever a slot loses it.\<close>

definition retire :: "session \<Rightarrow> session" where
  "retire s = s\<lparr>s_state := Closed, s_cancelled := True, s_cancel_requested := True\<rparr>"

definition clear_pending :: "string \<Rightarrow> manager \<Rightarrow> manager" where
  "clear_pending did m = m\<lparr>pending := dict_pop did (pending m)\<rparr>"

definition drop_slot :: "string \<Rightarrow> manager \<Rightarrow> manager" where
  "drop_slot did m = m\<lparr>sessions := dict_pop did (sessions m)\<rparr>"

text \<open>\<open>_close\<close>\<close>

definition close_slot :: "string \<Rightarrow> nat option \<Rightarrow> string \<Rightarrow> manager \<Rightarrow> manager \<times> act list" where
  "close_slot did sess reason m =
     (case current m did of
        None \<Rightarrow> (m, [])
      | Some r \<Rightarrow>
          if sess \<noteq> None \<and> sess \<noteq> Some r then (m, [])
          else (edit r retire (drop_slot did m),
                [ClearPending did, CloseSession r,
                 Log did disconnected_text ''muted'' (Some (s_owner (store m r))) None None,
                 Status did ''idle'' (Some (s_owner (store m r))) None reason,
                 Lock did False None]))"

datatype reply =
    Ok
  | NotOwner
  | InUse
  | Superseded
  | HostKeyUnknown string
  | HostKeyChanged string
  | AuthFailed
  | Expired
  | Failed pystr

definition disconnect ::
  "string \<Rightarrow> string option \<Rightarrow> string \<Rightarrow> manager \<Rightarrow> manager \<times> reply \<times> act list" where
  "disconnect did own reason m =
     (case current m did of
        None \<Rightarrow> (m, Ok, [Status did ''idle'' own None reason, Lock did False None])
      | Some r \<Rightarrow>
          if own \<noteq> None \<and> own \<noteq> Some (s_owner (store m r)) then (m, NotOwner, [])
          else (edit r retire (drop_slot did m), Ok,
                [ClearPending did, CloseSession r,
                 Log did disconnected_text ''muted'' (Some (s_owner (store m r))) None None,
                 Status did ''idle'' (case own of Some o1 \<Rightarrow> Some o1 | None \<Rightarrow> Some (s_owner (store m r))) None reason,
                 Lock did False None]))"

definition disconnect_all :: "string \<Rightarrow> manager \<Rightarrow> act list" where
  "disconnect_all reason m = map (\<lambda>did. CloseSlot did None reason) (dict_keys (sessions m)) @ [ClearActivity]"

definition clear_activity :: "manager \<Rightarrow> manager" where
  "clear_activity m = m\<lparr>activity := []\<rparr>"

definition release_owner :: "string \<Rightarrow> string \<Rightarrow> manager \<Rightarrow> act list" where
  "release_owner own reason m =
     map (\<lambda>(did, r). CloseSlot did (Some r) reason)
       (filter (\<lambda>(did, r). s_owner (store m r) = own) (sessions m))
     @ [ReleasePrompts own, OwnerPop own]"

definition release_prompts :: "string \<Rightarrow> manager \<Rightarrow> act list" where
  "release_prompts own m =
     map (\<lambda>(did, p). ClearPending did) (filter (\<lambda>(did, p). p_owner p = own) (pending m))"

section \<open>Connecting\<close>

text \<open>The first locked section of \<open>connect\<close>: refuse, or retire the own session and reserve.\<close>

definition reserve ::
  "string \<Rightarrow> pystr \<Rightarrow> device \<Rightarrow> string \<Rightarrow> rat \<Rightarrow> manager \<Rightarrow> manager" where
  "reserve did pw dev own now m =
     m\<lparr>store := (store m)(next_ref m :=
           (new_session dev pw own did now)\<lparr>s_state := Connecting, s_generation := gen_counter m + 1\<rparr>),
       next_ref := next_ref m + 1,
       gen_counter := gen_counter m + 1,
       sessions := dict_set did (next_ref m) (sessions m)\<rparr>"

definition live :: "session \<Rightarrow> bool" where
  "live s \<longleftrightarrow> s_state s \<in> {Connecting, Connected, HostKeyPending}"

definition connect ::
  "string \<Rightarrow> pystr \<Rightarrow> device \<Rightarrow> string \<Rightarrow> rat \<Rightarrow> manager \<Rightarrow> manager \<times> reply option \<times> act list" where
  "connect did pw dev own now m =
     (case current m did of
        None \<Rightarrow> (reserve did pw dev own now m, None, [NetConnect did (next_ref m) own False])
      | Some r \<Rightarrow>
          if live (store m r) then
            (if s_owner (store m r) \<noteq> own then (m, Some InUse, [])
             else (reserve did pw dev own now (edit r retire m), None,
                   [CloseSession r, Log did disconnected_text ''muted'' (Some own) None None,
                    NetConnect did (next_ref m) own True]))
          else (reserve did pw dev own now m, None, [NetConnect did (next_ref m) own False]))"

text \<open>
  What \<open>_connect_error_message\<close> looks at in an exception: its classes, and for a
  NoValidConnectionsError the errno of each address's error (None without one).
\<close>

record exception =
  x_gaierror :: bool
  x_timeout :: bool
  x_refused :: bool
  x_no_valid :: "int option list option"
  x_ssh :: bool

definition ECONNREFUSED :: int where
  "ECONNREFUSED = 111"

definition connect_error_message :: "exception \<Rightarrow> pystr" where
  "connect_error_message x =
     (if x_gaierror x then
        lit ''Could not connect: the device'' @ [39] @ lit ''s address could not be found. Check the host name.''
      else if x_timeout x then
        lit ''Could not connect: the device did not respond in time. Check that it is on and reachable.''
      else
        let refused = (case x_no_valid x of
              None \<Rightarrow> x_refused x
            | Some errnos \<Rightarrow> errnos \<noteq> [] \<and> list_all (\<lambda>e. e = Some ECONNREFUSED) errnos)
        in if refused then
             lit ''Could not connect: the device refused the connection. Check that SSH is running on it.''
           else if x_ssh x then lit ''Could not connect: the SSH handshake with the device failed.''
           else lit ''Could not connect. Check that the device is on and reachable.'')"

text \<open>
  How the blocking network connect ends: connected, one of the exceptions with its own branch,
  or any other exception. \<open>code\<close> is the fresh \<open>secrets.token_urlsafe(24)\<close>.
\<close>

datatype net_outcome =
    NetOk
  | NetUnknownKey pystr hostkey
  | NetBadKey hostkey
  | NetAuthFailed
  | NetHostsUnreadable
  | NetFailed exception

definition raise_prompt ::
  "string \<Rightarrow> nat \<Rightarrow> pystr \<Rightarrow> hostkey \<Rightarrow> string \<Rightarrow> string \<Rightarrow> rat \<Rightarrow> manager \<Rightarrow> manager" where
  "raise_prompt did r host key code own now m =
     (if is_current m did r
      then (edit r (\<lambda>s. s\<lparr>s_state := HostKeyPending\<rparr>) m)\<lparr>pending :=
        dict_set did \<lparr>p_host = host, p_key = key, p_code = code, p_owner = own,
          p_generation = s_generation (store m r), p_created_at = now\<rparr> (pending m)\<rparr>
      else m)"

definition connect_failed :: "string \<Rightarrow> nat \<Rightarrow> string \<Rightarrow> bool \<Rightarrow> manager \<Rightarrow> manager \<times> act list" where
  "connect_failed did r own replaced m =
     (if is_current m did r
      then (drop_slot did m,
            if replaced then [Status did ''idle'' (Some own) None ''connect failed'', Lock did False None]
            else [])
      else (m, []))"

definition connected_text :: "device \<Rightarrow> pystr" where
  "connected_text dev = lit ''Connected to '' @ d_host dev @ lit '' as '' @ d_username dev @ lit ''.''"

definition unreadable_text :: pystr where
  "unreadable_text = lit ''Could not connect: the approved host keys file could not be read. Check the server log.''"

definition connect_finish ::
  "net_outcome \<Rightarrow> string \<Rightarrow> rat \<Rightarrow> string \<Rightarrow> nat \<Rightarrow> string \<Rightarrow> bool \<Rightarrow> manager
     \<Rightarrow> manager \<times> reply \<times> act list" where
  "connect_finish out code now did r own replaced m =
     (case out of
        NetUnknownKey host key \<Rightarrow> (raise_prompt did r host key code own now m, HostKeyUnknown code, [])
      | NetBadKey key \<Rightarrow>
          (raise_prompt did r (d_host (s_device (store m r))) key code own now m, HostKeyChanged code, [])
      | NetAuthFailed \<Rightarrow> (let (m', acts) = connect_failed did r own replaced m in (m', AuthFailed, acts))
      | NetHostsUnreadable \<Rightarrow>
          (let (m', acts) = connect_failed did r own replaced m in (m', Failed unreadable_text, acts))
      | NetFailed x \<Rightarrow>
          (let (m', acts) = connect_failed did r own replaced m in (m', Failed (connect_error_message x), acts))
      | NetOk \<Rightarrow>
          (let m = edit r (\<lambda>s. s\<lparr>s_client := True\<rparr>) m
           in if \<not> is_current m did r then (m, Superseded, [CloseSession r])
              else ((edit r (\<lambda>s. s\<lparr>s_state := Connected\<rparr>) m)\<lparr>pending := dict_pop did (pending m)\<rparr>, Ok,
                    [OwnerTouch own,
                     Log did (connected_text (s_device (store m r))) ''ok'' (Some own) None (Some (s_generation (store m r))),
                     Status did ''connected'' (Some own) (Some (s_generation (store m r))) ''unknown'',
                     Lock did True (Some (s_generation (store m r)))])))"

section \<open>Host-key prompts\<close>

text \<open>
  \<open>_valid_host_key_pending\<close>. Codes are ASCII (\<open>token_urlsafe\<close>), so \<open>compare_digest\<close> is
  equality; a missing code counts as the empty one.
\<close>

definition valid_prompt :: "string \<Rightarrow> string option \<Rightarrow> string \<Rightarrow> rat \<Rightarrow> manager \<Rightarrow> prompt option" where
  "valid_prompt did code own now m =
     (case dict_get (pending m) did of
        None \<Rightarrow> None
      | Some p \<Rightarrow>
          (case current m did of
             None \<Rightarrow> None
           | Some r \<Rightarrow>
               if s_generation (store m r) \<noteq> p_generation p
                  \<or> s_state (store m r) \<noteq> HostKeyPending
                  \<or> p_owner p \<noteq> own
                  \<or> p_code p \<noteq> (case code of None \<Rightarrow> [] | Some c \<Rightarrow> c)
                  \<or> now - p_created_at p > HOST_KEY_PENDING_SECONDS
               then None else Some p))"

definition trust_host_key ::
  "string \<Rightarrow> string option \<Rightarrow> string \<Rightarrow> rat \<Rightarrow> manager \<Rightarrow> manager \<times> reply option \<times> act list" where
  "trust_host_key did code own now m =
     (case valid_prompt did code own now m of
        None \<Rightarrow> (m, Some Expired, [])
      | Some p \<Rightarrow>
          (case current m did of
             None \<Rightarrow> (m, Some Expired, [])
           | Some r \<Rightarrow> (clear_pending did m, None, [SaveKey did r p])))"

text \<open>How reading, changing and saving the known-hosts file ends.\<close>

datatype save_outcome = Saved | SaveUnreadable | SaveFailed

definition trust_finish ::
  "save_outcome \<Rightarrow> string \<Rightarrow> nat \<Rightarrow> prompt \<Rightarrow> reply \<times> act list" where
  "trust_finish out did r p =
     (case out of
        Saved \<Rightarrow> (Ok, [])
      | _ \<Rightarrow>
          (Failed (if out = SaveUnreadable
             then lit ''The approved host keys file could not be read, so nothing was changed. Check the server log.''
             else lit ''Could not save the host key.''),
           [Log did (lit ''Host key approval failed. Password cleared from memory.'') ''muted''
              (Some (p_owner p)) None None,
            CloseSlot did (Some r) ''host key approval failed'']))"

definition reject_host_key ::
  "string \<Rightarrow> string option \<Rightarrow> string \<Rightarrow> rat \<Rightarrow> manager \<Rightarrow> manager \<times> reply \<times> act list" where
  "reject_host_key did code own now m =
     (case valid_prompt did code own now m of
        None \<Rightarrow> (m, Expired, [])
      | Some p \<Rightarrow>
          (clear_pending did m, Ok,
           [Log did (lit ''Host key declined. Password cleared from memory.'') ''muted''
              (Some (p_owner p)) None None,
            CloseSlot did (current m did) ''host key declined'']))"

section \<open>Expired prompts and idle owners\<close>

definition sweep_expired_host_key_prompts :: "rat \<Rightarrow> manager \<Rightarrow> act list" where
  "sweep_expired_host_key_prompts now m = map (SweepDevice now) (dict_keys (pending m))"

definition sweep_device :: "rat \<Rightarrow> string \<Rightarrow> manager \<Rightarrow> manager \<times> act list" where
  "sweep_device now did m =
     (case dict_get (pending m) did of
        None \<Rightarrow> (m, [])
      | Some p \<Rightarrow>
          if now - p_created_at p < HOST_KEY_PENDING_SECONDS then (m, [])
          else (clear_pending did m,
                case current m did of
                  None \<Rightarrow> []
                | Some r \<Rightarrow>
                    if s_generation (store m r) = p_generation p \<and> s_state (store m r) = HostKeyPending
                    then [Log did (lit ''Host-key prompt expired. Password cleared from memory.'') ''warn''
                            (Some (p_owner p)) None None,
                          CloseSlot did (Some r) ''host-key prompt expired'']
                    else []))"

definition tick_idle :: "rat \<Rightarrow> manager \<Rightarrow> act list" where
  "tick_idle now m = sweep_expired_host_key_prompts now m @ [TickOwners now]"

definition owned :: "string \<Rightarrow> manager \<Rightarrow> (string \<times> nat) list" where
  "owned own m = filter (\<lambda>(did, r). s_owner (store m r) = own) (sessions m)"

text \<open>The reads of the owner's runs that decide its idle clock, then the clock itself.\<close>

definition idle_clock :: "rat \<Rightarrow> string \<Rightarrow> manager \<Rightarrow> manager \<times> bool" where
  "idle_clock now own m =
     (let busy = filter s_busy (map (\<lambda>(did, r). store m r) (owned own m));
          set_info = (\<lambda>f. case dict_get (activity m) own of
             None \<Rightarrow> m | Some info \<Rightarrow> m\<lparr>activity := dict_set own (f info) (activity m)\<rparr>)
      in if busy \<noteq> [] \<and> list_ex (\<lambda>s. now - s_last_io s < TERM_SILENCE_SECONDS) busy
         then (set_info (\<lambda>info. info\<lparr>i_last_active := now, i_warned := False, i_silent := False\<rparr>), True)
         else if busy \<noteq> []
         then (set_info (\<lambda>info. if i_silent info then info
                 else info\<lparr>i_silent := True, i_last_active := now - IDLE_WARN_SECONDS, i_warned := False\<rparr>), False)
         else (m, False))"

definition tick_owner :: "rat \<Rightarrow> string \<Rightarrow> manager \<Rightarrow> manager \<times> act list" where
  "tick_owner now own m =
     (if owned own m = [] then (owner_pop own m, [])
      else let (m, active) = idle_clock now own m
      in if active then (m, [])
         else case dict_get (activity m) own of
             None \<Rightarrow> (m, [])
           | Some info \<Rightarrow>
               let idle = now - i_last_active info
               in if IDLE_TIMEOUT_SECONDS \<le> idle
                  then (m, concat (map (\<lambda>(did, r).
                          [Log did (lit ''Disconnected due to idle timeout.'') ''warn'' (Some own) None None,
                           CloseSlot did (Some r) ''idle timeout'']) (owned own m))
                        @ [PushTo SshIdleTimeout own, OwnerPop own])
                  else if IDLE_WARN_SECONDS \<le> idle \<and> \<not> i_warned info
                  then (push_msg (SshIdleWarning \<lfloor>IDLE_TIMEOUT_SECONDS - idle\<rfloor>) (Some own) None
                          (m\<lparr>activity := dict_set own (info\<lparr>i_warned := True\<rparr>) (activity m)\<rparr>), [])
                  else (m, []))"

definition stay_connected :: "string \<Rightarrow> rat \<Rightarrow> rat \<Rightarrow> manager \<Rightarrow> manager" where
  "stay_connected own now now' m =
     foldl (\<lambda>m (did, r). if s_owner (store m r) = own \<and> s_busy (store m r)
         then edit r (\<lambda>s. s\<lparr>s_last_io := now'\<rparr>) m else m)
       (owner_reset own now m) (sessions m)"

section \<open>Snapshots\<close>

definition locked_device_ids :: "manager \<Rightarrow> string list" where
  "locked_device_ids m =
     map fst (filter (\<lambda>(did, r). s_state (store m r) = Connected) (sessions m))"

definition owner_ssh_snapshot :: "string \<Rightarrow> manager \<Rightarrow> string list \<times> string list" where
  "owner_ssh_snapshot own m =
     (let mine = filter (\<lambda>(did, r). s_owner (store m r) = own \<and> s_state (store m r) = Connected) (sessions m)
      in (map fst mine, map fst (filter (\<lambda>(did, r). s_busy (store m r)) mine)))"

end
