(* ===== verification/Ssh_Run.thy ===== *)
theory Ssh_Run
  imports Ssh_Connect
begin

text \<open>
  Running a command (\<open>run_command\<close>, \<open>_exec\<close> and \<open>_finish_exec\<close> of \<open>ssh_manager.py\<close>) and
  the terminal controls of a running command (\<open>terminal_control.py\<close>). The worker \<open>_exec\<close>
  is a chain of actions, each one the code between two points where other threads can run;
  the reads of the channel (\<open>read_channel\<close>, with the gate and the batcher modelled in
  \<open>Sudo_Gate\<close> and \<open>Output_Batcher\<close>) are events of the environment: a batch to emit, a
  result, or an exception.
\<close>

section \<open>Starting a run\<close>

datatype run_reply =
    RunOk string
  | RunNotConnected
  | RunNotOwner
  | RunEmpty
  | RunBusy

definition reserve_run ::
  "string \<Rightarrow> pystr \<Rightarrow> int \<Rightarrow> int \<Rightarrow> rat \<Rightarrow> rat \<Rightarrow> session \<Rightarrow> session" where
  "reserve_run run lab cols rows now now' s = s\<lparr>s_busy := True, s_cancelled := False,
     s_cancel_requested := False, s_forced := False, s_writer_stuck := False, s_stop_timer := False,
     s_run_id := Some run, s_controller := None, s_control_rev := 0, s_auth_complete := False,
     s_last_io := now, s_history := Some new_history, s_label := Some lab,
     s_sent_seq := 0, s_acked_seq := 0, s_sent_bytes := [], s_ack_progress_at := now',
     s_ack_stalled := False, s_cols := Some cols, s_rows := Some rows\<rparr>"

text \<open>\<open>run\<close> is the fresh \<open>secrets.token_urlsafe(16)\<close>; the worker is a new thread.\<close>

definition run_command ::
  "string \<Rightarrow> rat \<Rightarrow> rat \<Rightarrow> string \<Rightarrow> pystr option \<Rightarrow> bool \<Rightarrow> pystr option \<Rightarrow> string option \<Rightarrow> string option
     \<Rightarrow> int option \<Rightarrow> int option \<Rightarrow> manager \<Rightarrow> manager \<times> run_reply \<times> act list" where
  "run_command run now now' did raw_cmd use_sudo lab own cmd_id cols rows m =
     (let lab = (case lab of None \<Rightarrow> lit ''Custom command'' | Some l \<Rightarrow> if l = [] then lit ''Custom command'' else l);
          (cols, rows) = clamp_size cols rows
      in case current m did of
           None \<Rightarrow> (m, RunNotConnected, [])
         | Some r \<Rightarrow>
             if s_state (store m r) \<noteq> Connected then (m, RunNotConnected, [])
             else if own \<noteq> None \<and> own \<noteq> Some (s_owner (store m r)) then (m, RunNotOwner, [])
             else if strip (case raw_cmd of None \<Rightarrow> [] | Some c \<Rightarrow> c) = [] then (m, RunEmpty, [])
             else if s_busy (store m r) then (m, RunBusy, [])
             else (edit r (reserve_run run lab cols rows now now') m, RunOk run,
                   [ExecStart r \<lparr>r_device = did, r_run = run, r_label = lab, r_sudo = use_sudo,
                      r_cmd_id = cmd_id, r_cols = cols, r_rows = rows, r_started = False\<rparr>]))"

section \<open>The worker\<close>

text \<open>Messages of the worker carry the generation of its session.\<close>

definition gen_of :: "nat \<Rightarrow> manager \<Rightarrow> nat option" where
  "gen_of r m = Some (s_generation (store m r))"

text \<open>\<open>_log\<close> without an owner, guarded by \<open>_is_current\<close>.\<close>

definition current_log :: "nat \<Rightarrow> run_args \<Rightarrow> pystr \<Rightarrow> string \<Rightarrow> string option \<Rightarrow> manager \<Rightarrow> manager" where
  "current_log r a txt level cmd m =
     (if is_current m (r_device a) r then log_msg (r_device a) txt level None cmd (gen_of r m) m else m)"

definition announce_run :: "nat \<Rightarrow> run_args \<Rightarrow> manager \<Rightarrow> manager" where
  "announce_run r a m =
     (if is_current m (r_device a) r
      then current_log r a (lit ''$ '' @ r_label a) ''cmd'' (r_cmd_id a)
             (status_msg (r_device a) ''running'' None (gen_of r m) ''unknown'' m)
      else m)"

definition exec_start :: "nat \<Rightarrow> run_args \<Rightarrow> manager \<Rightarrow> manager \<times> act list" where
  "exec_start r a m =
     (if \<not> s_client (store m r)
      then (current_log r a (lit ''Not connected.'') ''err'' None m, [FinishExec r])
      else
        let m = announce_run r a m
        in if s_cancel_requested (store m r)
           then (current_log r a ([9632] @ lit '' '' @ r_label a @ lit '' cancelled.'') ''warn'' None
                   (edit r (\<lambda>s. s\<lparr>s_cancelled := True\<rparr>) m), [FinishExec r])
           else (m, [ExecOpen r a]))"

text \<open>
  \<open>send_start\<close>: the local \<open>started\<close>, and the message. The worker's session is the slot's
  session when it pushes.
\<close>

definition send_start :: "nat \<Rightarrow> run_args \<Rightarrow> manager \<Rightarrow> run_args \<times> manager" where
  "send_start r a m =
     (if \<not> r_started a \<and> is_current m (r_device a) r
      then (a\<lparr>r_started := True\<rparr>,
            push_msg (TermStart (r_device a) (r_run a) (r_cmd_id a) (r_cols a) (r_rows a))
              (Some (s_owner (store m r))) (gen_of r m)
              (edit r (\<lambda>s. s\<lparr>s_auth_complete := True\<rparr>) m))
      else (a, m))"

text \<open>
  Opening the channel: \<open>None\<close> is an exception of the SSH library, \<open>Some ch\<close> the new channel.
  A client that was closed meanwhile makes \<open>sess.client.get_transport()\<close> raise.
\<close>

definition exec_open :: "nat option \<Rightarrow> nat \<Rightarrow> run_args \<Rightarrow> manager \<Rightarrow> manager \<times> act list" where
  "exec_open chan r a m =
     (case (if s_client (store m r) then chan else None) of
        None \<Rightarrow> (m, [ExecDone r a None])
      | Some ch \<Rightarrow>
          let m = edit r (\<lambda>s. s\<lparr>s_channel := Some ch, s_cols := Some (r_cols a), s_rows := Some (r_rows a),
                    s_writer := Some new_writer,
                    s_cancelled := (if s_cancel_requested s then True else s_cancelled s)\<rparr>) m;
              (a, m) = (if r_sudo a then (a, m) else send_start r a m)
          in (m, [ExecRead r a]))"

text \<open>
  What \<open>read_channel\<close> does next: another batch, its result, or an exception; it asks for the
  sudo password through the writer; and it announces that the gate was passed.
\<close>

datatype read_event =
    ReadBatch pystr nat
  | ReadPassword
  | ReadGatePassed
  | ReadResult read_result
  | ReadException

definition exec_read :: "read_event \<Rightarrow> nat \<Rightarrow> run_args \<Rightarrow> manager \<Rightarrow> manager \<times> act list" where
  "exec_read ev r a m =
     (case ev of
        ReadBatch txt seq \<Rightarrow>
          (let (a, m) = send_start r a m in (m, [ExecWaitAck r a txt seq]))
      | ReadPassword \<Rightarrow>
          (case s_writer (store m r) of
             None \<Rightarrow> (m, [ExecRead r a])
           | Some w \<Rightarrow>
               (case writer_password (s_password (store m r)) w of
                  None \<Rightarrow> (m, [ExecDone r a None])
                | Some (w', sent) \<Rightarrow> (edit r (\<lambda>s. s\<lparr>s_writer := Some w'\<rparr>) m, [ExecRead r a])))
      | ReadGatePassed \<Rightarrow> (let (a, m) = send_start r a m in (m, [ExecRead r a]))
      | ReadResult res \<Rightarrow> (m, [ExecDone r a (Some res)])
      | ReadException \<Rightarrow> (m, [ExecDone r a None]))"

text \<open>
  \<open>emit\<close>: wait for acknowledgements, feed the history under the lock, push, count the sent
  bytes. A False anywhere goes back to \<open>read_channel\<close>, which then returns; its next event is
  the environment's, so the model allows more than the code does.
\<close>

definition sent_total :: "session \<Rightarrow> nat" where
  "sent_total s = sum_list (map snd (s_sent_bytes s))"

datatype ack_wait = Proceed bool | KeepWaiting

definition wait_for_terminal_ack ::
  "bool \<Rightarrow> rat \<Rightarrow> string \<Rightarrow> nat \<Rightarrow> string \<Rightarrow> manager \<Rightarrow> manager \<times> ack_wait" where
  "wait_for_terminal_ack watching now did r run m =
     (let s = store m r
      in if \<not> is_current m did r \<or> s_run_id s \<noteq> Some run then (m, Proceed False)
         else if s_cancelled s then (m, Proceed True)
         else if \<not> watching \<or> s_ack_stalled s then (m, Proceed True)
         else if sent_total s \<le> TERM_UNACKED_MAX_BYTES then (m, Proceed True)
         else if TERM_ACK_STALL_SECONDS - (now - s_ack_progress_at s) \<le> 0
              then (edit r (\<lambda>s. s\<lparr>s_ack_stalled := True\<rparr>) m, Proceed True)
         else (m, KeepWaiting))"

definition exec_wait_ack ::
  "bool \<Rightarrow> rat \<Rightarrow> nat \<Rightarrow> run_args \<Rightarrow> pystr \<Rightarrow> nat \<Rightarrow> manager \<Rightarrow> manager \<times> act list" where
  "exec_wait_ack watching now r a txt seq m =
     (case wait_for_terminal_ack watching now (r_device a) r (r_run a) m of
        (m, Proceed True) \<Rightarrow> (m, [ExecFeed r a txt seq])
      | (m, Proceed False) \<Rightarrow> (m, [ExecRead r a])
      | (m, KeepWaiting) \<Rightarrow> (m, [ExecWaitAck r a txt seq]))"

definition still_mine :: "nat \<Rightarrow> run_args \<Rightarrow> manager \<Rightarrow> bool" where
  "still_mine r a m \<longleftrightarrow> is_current m (r_device a) r \<and> s_run_id (store m r) = Some (r_run a)"

definition exec_feed :: "rat \<Rightarrow> nat \<Rightarrow> run_args \<Rightarrow> pystr \<Rightarrow> nat \<Rightarrow> manager \<Rightarrow> manager \<times> act list" where
  "exec_feed now r a txt seq m =
     (if \<not> still_mine r a m then (m, [ExecRead r a])
      else (edit r (\<lambda>s. s\<lparr>s_history := map_option (Terminal_History.feed txt (int seq)) (s_history s),
                           s_last_io := now\<rparr>) m,
            [ExecPush r a txt seq]))"

text \<open>
  \<open>push_terminal\<close>: it waits for capacity (\<open>room\<close> is False), gives up once the run is not
  current or the queue is shut down, and otherwise queues the message.
\<close>

definition exec_push ::
  "bool \<Rightarrow> bool \<Rightarrow> nat \<Rightarrow> run_args \<Rightarrow> pystr \<Rightarrow> nat \<Rightarrow> manager \<Rightarrow> manager \<times> act list" where
  "exec_push room is_shut r a txt seq m =
     (if is_shut \<or> \<not> still_mine r a m then (m, [ExecRead r a])
      else if \<not> room then (m, [ExecPush r a txt seq])
      else (push_msg (TermData (r_device a) (r_run a) seq txt) (Some (s_owner (store m r))) (gen_of r m) m,
            [ExecSent r a txt seq]))"

definition mark_sent :: "int \<Rightarrow> nat \<Rightarrow> session \<Rightarrow> session" where
  "mark_sent seq n s = s\<lparr>s_sent_seq := seq, s_sent_bytes := dict_set seq n (s_sent_bytes s)\<rparr>"

definition exec_sent :: "nat \<Rightarrow> run_args \<Rightarrow> pystr \<Rightarrow> nat \<Rightarrow> manager \<Rightarrow> manager \<times> act list" where
  "exec_sent r a txt seq m =
     (case utf8_encode txt of
        None \<Rightarrow> (edit r (\<lambda>s. s\<lparr>s_sent_seq := int seq\<rparr>) m, [ExecDone r a None])
      | Some bs \<Rightarrow>
          (edit r (mark_sent (int seq) (length bs)) m, [ExecRead r a]))"

text \<open>The end of \<open>_exec\<close>: the last lines of the log and \<open>_finish_exec\<close>.\<close>

definition cancelled_text :: "bool \<Rightarrow> pystr \<Rightarrow> pystr" where
  "cancelled_text forced lab =
     (if forced then [9632] @ lit '' '' @ lab @ lit '' did not respond to Ctrl+C, so it was stopped.''
      else [9632] @ lit '' '' @ lab @ lit '' cancelled.'')"

definition end_line :: "session \<Rightarrow> pystr \<Rightarrow> read_result \<Rightarrow> pystr \<times> string" where
  "end_line s lab res =
     (if s_cancelled s then (cancelled_text (s_forced s) lab, ''warn'')
      else if rr_refused res
      then ([10007] @ lit '' '' @ lab @ lit '' did not run: sudo did not accept the password.'', ''err'')
      else if \<not> rr_gate_passed res then ([10007] @ lit '' '' @ lab @ lit '' did not run.'', ''err'')
      else if rr_exit_code res = 0 then ([10003] @ lit '' '' @ lab @ lit '' finished.'', ''ok'')
      else ([10007] @ lit '' '' @ lab @ lit '' exited with code '' @ int_text (rr_exit_code res) @ lit ''.'', ''err''))"

definition failure_line :: "session \<Rightarrow> pystr \<Rightarrow> pystr \<times> string" where
  "failure_line s lab =
     (if s_cancelled s then (cancelled_text (s_forced s) lab, ''warn'')
      else ([10007] @ lit '' '' @ lab @ lit '' stopped because of an unexpected error.'', ''err''))"

definition exec_done :: "nat \<Rightarrow> run_args \<Rightarrow> read_result option \<Rightarrow> manager \<Rightarrow> manager \<times> act list" where
  "exec_done r a res m =
     (if \<not> is_current m (r_device a) r then (m, [FinishExec r])
      else case res of
        Some res \<Rightarrow>
          if rr_superseded res then (m, [FinishExec r])
          else
            let (a, m) = (if rr_gate_passed res then send_start r a m else (a, m));
                m = (if r_started a
                     then push_msg (TermEnd (r_device a) (r_run a)) (Some (s_owner (store m r))) (gen_of r m) m
                     else m);
                (txt, level) = end_line (store m r) (r_label a) res
            in (log_msg (r_device a) txt level None None (gen_of r m) m, [FinishExec r])
      | None \<Rightarrow>
          let (txt, level) = failure_line (store m r) (r_label a)
          in (log_msg (r_device a) txt level None None (gen_of r m) m, [FinishExec r]))"

definition finish_exec :: "nat \<Rightarrow> manager \<Rightarrow> manager \<times> act list" where
  "finish_exec r m =
     (let did = s_device_id (store m r);
          m = edit r (\<lambda>s. s\<lparr>s_writer := map_option writer_close (s_writer s), s_stop_timer := False\<rparr>) m
      in if is_current m did r
         then (edit r (\<lambda>s. s\<lparr>s_busy := False, s_channel := None, s_run_id := None, s_writer := None,
                 s_history := None, s_label := None\<rparr>) m,
               (if s_owner (store m r) \<noteq> [] then [OwnerReset (s_owner (store m r))] else [])
               @ [StatusConnected r])
         else (m, []))"

definition status_connected :: "nat \<Rightarrow> manager \<Rightarrow> manager" where
  "status_connected r m =
     status_msg (s_device_id (store m r)) ''connected'' None (gen_of r m) ''unknown'' m"

text \<open>The writer thread's report that the device takes no input.\<close>

definition writer_stuck :: "string \<Rightarrow> nat \<Rightarrow> string \<Rightarrow> nat \<Rightarrow> manager \<Rightarrow> manager" where
  "writer_stuck did r run ch m =
     (if is_current m did r \<and> s_run_id (store m r) = Some run \<and> s_channel (store m r) = Some ch
      then edit r (\<lambda>s. s\<lparr>s_cancelled := True, s_forced := True, s_writer_stuck := True\<rparr>) m
      else m)"

section \<open>Terminal controls\<close>

text \<open>
  The fields of a browser message are JSON values. A test such as \<open>sess.run_id != run_id\<close>
  compares a string with any value, \<open>sess.control_rev != rev\<close> an integer with any value: a
  number equal to it passes, a Boolean counts as 0 or 1. A number with a fraction is a rational.
\<close>

definition eq_run :: "string option \<Rightarrow> json \<Rightarrow> bool" where
  "eq_run run v = (v = (case run of None \<Rightarrow> JNull | Some s \<Rightarrow> js s))"

text \<open>
  The slot of a device named by a JSON value: None when there is none. A list or
  an object as a device id is not hashable and \<open>dict.get\<close> raises before any state
  changes, which the model shows as a refusal.
\<close>

definition slot_of :: "manager \<Rightarrow> json \<Rightarrow> nat option" where
  "slot_of m did = (case find (\<lambda>(d, r). js d = did) (sessions m) of None \<Rightarrow> None | Some (d, r) \<Rightarrow> Some r)"

text \<open>
  The guard every control shares: the owner's connected, running command. The socket is what
  \<open>socket_id\<close> answers: None for a socket the WebSocket manager has already dropped.
\<close>

definition running_for :: "string \<Rightarrow> json \<Rightarrow> session \<Rightarrow> bool" where
  "running_for own run s \<longleftrightarrow>
     s_owner s = own \<and> s_state s = Connected \<and> s_busy s \<and> eq_run (s_run_id s) run"

definition claim_terminal ::
  "json \<Rightarrow> json \<Rightarrow> string \<Rightarrow> string option \<Rightarrow> manager \<Rightarrow> manager \<times> int option" where
  "claim_terminal did run own socket m =
     (case slot_of m did of
        None \<Rightarrow> (m, None)
      | Some r \<Rightarrow>
          if \<not> running_for own run (store m r) then (m, None)
          else (edit r (\<lambda>s. s\<lparr>s_controller := socket, s_control_rev := s_control_rev s + 1,
                   s_writer := map_option clear_input (s_writer s)\<rparr>) m,
                Some (s_control_rev (store m r) + 1)))"

text \<open>The guard of input and resize: the controller's socket at the current revision.\<close>

definition controls :: "string \<Rightarrow> json \<Rightarrow> json \<Rightarrow> string option \<Rightarrow> session \<Rightarrow> bool" where
  "controls own run rv socket s \<longleftrightarrow>
     running_for own run s \<and> s_controller s = socket \<and> eq_int (s_control_rev s) rv
     \<and> s_auth_complete s \<and> s_writer s \<noteq> None"

datatype input_reply = InputOk | InputRefused | InputFull | InputRaises

definition terminal_input ::
  "json \<Rightarrow> json \<Rightarrow> json \<Rightarrow> json \<Rightarrow> string \<Rightarrow> string option \<Rightarrow> rat \<Rightarrow> manager \<Rightarrow> manager \<times> input_reply" where
  "terminal_input did run rv data own socket now m =
     (case slot_of m did of
        None \<Rightarrow> (m, InputRefused)
      | Some r \<Rightarrow>
          (case (data, s_writer (store m r)) of
             (JStr txt, Some w) \<Rightarrow>
               if \<not> (length txt \<le> TERM_INPUT_MAX_CHARS \<and> controls own run rv socket (store m r))
               then (m, InputRefused)
               else (case writer_input txt w of
                   None \<Rightarrow> (m, InputRaises)
                 | Some (w', False) \<Rightarrow> (m, InputFull)
                 | Some (w', True) \<Rightarrow> (edit r (\<lambda>s. s\<lparr>s_writer := Some w', s_last_io := now\<rparr>) m, InputOk))
           | _ \<Rightarrow> (m, InputRefused)))"

definition terminal_resize ::
  "json \<Rightarrow> json \<Rightarrow> json \<Rightarrow> json \<Rightarrow> json \<Rightarrow> string \<Rightarrow> string option \<Rightarrow> manager \<Rightarrow> manager \<times> bool" where
  "terminal_resize did run rv cols rows own socket m =
     (case slot_of m did of
        None \<Rightarrow> (m, False)
      | Some r \<Rightarrow>
          (case (cols, rows) of
             (JInt c, JInt w) \<Rightarrow>
               if \<not> controls own run rv socket (store m r) then (m, False)
               else (let (c, w) = clamp_size (Some c) (Some w)
                     in (edit r (\<lambda>s. s\<lparr>s_cols := Some c, s_rows := Some w,
                           s_writer := map_option (writer_resize c w) (s_writer s)\<rparr>) m, True))
           | _ \<Rightarrow> (m, False)))"

definition record_ack :: "int \<Rightarrow> rat \<Rightarrow> session \<Rightarrow> session" where
  "record_ack n now s =
     (if n > s_sent_seq s \<or> n \<le> s_acked_seq s then s
      else s\<lparr>s_acked_seq := n, s_ack_progress_at := now, s_ack_stalled := False,
             s_sent_bytes := filter (\<lambda>(k, v). \<not> k \<le> n) (s_sent_bytes s)\<rparr>)"

definition terminal_ack :: "json \<Rightarrow> json \<Rightarrow> json \<Rightarrow> string \<Rightarrow> rat \<Rightarrow> manager \<Rightarrow> manager" where
  "terminal_ack did run seq own now m =
     (case seq of
        JInt n \<Rightarrow>
          (case slot_of m did of
             None \<Rightarrow> m
           | Some r \<Rightarrow>
               if \<not> running_for own run (store m r) then m
               else edit r (record_ack n now) m)
      | _ \<Rightarrow> m)"

text \<open>\<open>cancel\<close>: the thread it starts is the grace timer; its argument types are the route's.\<close>

definition cancel ::
  "string \<Rightarrow> string option \<Rightarrow> string option \<Rightarrow> manager \<Rightarrow> manager \<times> reply option \<times> act list \<times> act list" where
  "cancel did run own m =
     (case current m did of
        None \<Rightarrow> (m, None, [], [])
      | Some r \<Rightarrow>
          let s = store m r
          in if \<not> s_busy s \<or> s_run_id s \<noteq> run then (m, None, [], [])
             else if own \<noteq> None \<and> own \<noteq> Some (s_owner s) then (m, Some NotOwner, [], [])
             else
               let m = edit r (\<lambda>s. s\<lparr>s_cancelled := True, s_cancel_requested := True\<rparr>) m
               in (case s_channel s of
                     None \<Rightarrow> (m, Some Ok, [], [])
                   | Some ch \<Rightarrow>
                       if s_auth_complete s \<and> s_writer s \<noteq> None then
                         (if s_stop_timer s
                          then (edit r (\<lambda>s. s\<lparr>s_forced := True\<rparr>) m, Some Ok, [CloseChannel ch], [])
                          else (edit r (\<lambda>s. s\<lparr>s_writer := map_option interrupt (s_writer s),
                                   s_stop_timer := True\<rparr>) m, Some Ok, [],
                                [ForceStop did r (case run of Some x \<Rightarrow> x | None \<Rightarrow> []) ch]))
                       else (m, Some Ok, [CloseChannel ch], [])))"

definition force_stop :: "string \<Rightarrow> nat \<Rightarrow> string \<Rightarrow> nat \<Rightarrow> manager \<Rightarrow> manager" where
  "force_stop did r run ch m =
     (if \<not> is_current m did r \<or> s_run_id (store m r) \<noteq> Some run \<or> s_channel (store m r) \<noteq> Some ch then m
      else edit r (\<lambda>s. s\<lparr>s_forced := True\<rparr>) m)"

text \<open>
  What a reconnecting browser gets, one terminal per running command; taking the snapshot
  acknowledges what was sent.
\<close>

record terminal = snapshot +
  t_device :: string
  t_run :: "string option"
  t_cols :: "int option"
  t_rows :: "int option"
  t_label :: "pystr option"

definition terminal_of :: "string \<Rightarrow> session \<Rightarrow> terminal_history \<Rightarrow> terminal" where
  "terminal_of did s h = snapshot.extend (take_snapshot h)
     (terminal.fields did (s_run_id s) (s_cols s) (s_rows s) (s_label s))"

definition ack_all :: "rat \<Rightarrow> session \<Rightarrow> session" where
  "ack_all now s =
     (if s_sent_seq s > s_acked_seq s
      then s\<lparr>s_acked_seq := s_sent_seq s, s_ack_progress_at := now, s_ack_stalled := False, s_sent_bytes := []\<rparr>
      else s)"

definition snapshot_device ::
  "string \<Rightarrow> rat \<Rightarrow> (string \<times> nat) \<Rightarrow> manager \<times> terminal list \<Rightarrow> manager \<times> terminal list" where
  "snapshot_device own now entry acc =
     (let (did, r) = entry; (m, ts) = acc; s = store m r
      in case s_history s of
           None \<Rightarrow> (m, ts)
         | Some h \<Rightarrow>
             if s_owner s \<noteq> own \<or> s_state s \<noteq> Connected \<or> \<not> s_busy s then (m, ts)
             else (edit r (ack_all now) m, ts @ [terminal_of did s h]))"

definition owner_terminal_snapshot :: "string \<Rightarrow> rat \<Rightarrow> manager \<Rightarrow> manager \<times> terminal list" where
  "owner_terminal_snapshot own now m =
     (let (m, ts) = fold (snapshot_device own now) (sessions m) (m, [])
      in (m, trim_to_budget ts TERM_INIT_HISTORY_MAX_CHARS))"

definition request_terminal_redraw :: "string \<Rightarrow> string option \<Rightarrow> string \<Rightarrow> manager \<Rightarrow> manager \<times> bool" where
  "request_terminal_redraw did run own m =
     (case current m did of
        None \<Rightarrow> (m, False)
      | Some r \<Rightarrow>
          let s = store m r
          in (case (s_writer s, s_rows s, s_cols s) of
                (Some w, Some rows, Some cols) \<Rightarrow>
                  if s_owner s \<noteq> own \<or> s_run_id s \<noteq> run then (m, False)
                  else (edit r (\<lambda>s. s\<lparr>s_writer := Some (writer_resize cols rows (writer_resize cols (rows - 1) w))\<rparr>) m,
                        True)
              | _ \<Rightarrow> (m, False)))"

end
