(* ===== verification/Ssh_System.thy ===== *)
theory Ssh_System
  imports Ssh_Run "HOL-Library.Multiset"
begin

text \<open>
  The SSH manager under every interleaving: any number of threads, each with the actions it
  still has to run, handlers called at any time by any owner, and an environment that decides
  how network connects, file writes and channel reads end. The invariants proved here are the
  ground of the properties: who holds a device, which prompt can be answered, how many workers
  a session has, and what a session that lost its slot can still do.
\<close>

section \<open>Actions\<close>

record env =
  e_now :: rat
  e_net :: net_outcome
  e_code :: string
  e_saved :: save_outcome
  e_chan :: "nat option"
  e_read :: read_event
  e_watching :: bool
  e_room :: bool
  e_shut :: bool

fun perform :: "env \<Rightarrow> act \<Rightarrow> manager \<Rightarrow> manager \<times> act list" where
  "perform e (ClearPending did) m = (clear_pending did m, [])"
| "perform e (CloseSession r) m = (edit r close_session m, [])"
| "perform e (Log did txt level own cmd gen) m = (log_msg did txt level own cmd gen m, [])"
| "perform e (Status did st own gen reason) m = (status_msg did st own gen reason m, [])"
| "perform e (Lock did locked gen) m = (lock_msg did locked gen m, [])"
| "perform e (PushTo b own) m = (push_msg b (Some own) None m, [])"
| "perform e (OwnerTouch own) m = (owner_touch own (e_now e) m, [])"
| "perform e (OwnerReset own) m = (owner_reset own (e_now e) m, [])"
| "perform e (OwnerPop own) m = (owner_pop own m, [])"
| "perform e ClearActivity m = (clear_activity m, [])"
| "perform e (NetConnect did r own replaced) m =
     (let (m', reply, acts) = connect_finish (e_net e) (e_code e) (e_now e) did r own replaced m in (m', acts))"
| "perform e (SaveKey did r p) m = (m, snd (trust_finish (e_saved e) did r p))"
| "perform e (CloseSlot did sess reason) m = close_slot did sess reason m"
| "perform e (SweepDevice now did) m = sweep_device now did m"
| "perform e (TickOwners now) m = (m, map (TickOwner now) (dict_keys (activity m)))"
| "perform e (TickOwner now own) m = tick_owner now own m"
| "perform e (ReleasePrompts own) m = (m, release_prompts own m)"
| "perform e (ExecStart r a) m = exec_start r a m"
| "perform e (ExecOpen r a) m = exec_open (e_chan e) r a m"
| "perform e (ExecRead r a) m = exec_read (e_read e) r a m"
| "perform e (ExecWaitAck r a txt seq) m = exec_wait_ack (e_watching e) (e_now e) r a txt seq m"
| "perform e (ExecFeed r a txt seq) m = exec_feed (e_now e) r a txt seq m"
| "perform e (ExecPush r a txt seq) m = exec_push (e_room e) (e_shut e) r a txt seq m"
| "perform e (ExecSent r a txt seq) m = exec_sent r a txt seq m"
| "perform e (ExecDone r a res) m = exec_done r a res m"
| "perform e (FinishExec r) m = finish_exec r m"
| "perform e (StatusConnected r) m = (status_connected r m, [])"
| "perform e (ForceStop did r run ch) m = (force_stop did r run ch m, [])"
| "perform e (CloseChannel ch) m = (m, [])"

section \<open>Calls\<close>

datatype call =
    CallConnect string pystr device string rat
  | CallDisconnect string "string option" string
  | CallDisconnectAll string
  | CallRelease string string
  | CallTrust string "string option" string rat
  | CallReject string "string option" string rat
  | CallTick rat
  | CallStay string rat rat
  | CallRun string rat rat string "pystr option" bool "pystr option" "string option" "string option"
      "int option" "int option"
  | CallClaim json json string "string option"
  | CallTermInput json json json json string "string option" rat
  | CallTermResize json json json json json string "string option"
  | CallAck json json json string rat
  | CallCancel string "string option" "string option"
  | CallSnapshot string rat
  | CallRedraw string "string option" string
  | CallWriterStuck string nat string nat

fun start_call :: "call \<Rightarrow> manager \<Rightarrow> manager \<times> act list list" where
  "start_call (CallConnect did pw dev own now) m = (let (m', reply, acts) = connect did pw dev own now m in (m', [acts]))"
| "start_call (CallDisconnect did own reason) m = (let (m', reply, acts) = disconnect did own reason m in (m', [acts]))"
| "start_call (CallDisconnectAll reason) m = (m, [disconnect_all reason m])"
| "start_call (CallRelease own reason) m = (m, [release_owner own reason m])"
| "start_call (CallTrust did code own now) m = (let (m', reply, acts) = trust_host_key did code own now m in (m', [acts]))"
| "start_call (CallReject did code own now) m = (let (m', reply, acts) = reject_host_key did code own now m in (m', [acts]))"
| "start_call (CallTick now) m = (m, [tick_idle now m])"
| "start_call (CallStay own now now') m = (stay_connected own now now' m, [])"
| "start_call (CallRun run now now' did raw sud lab own cmd cols rows) m =
     (let (m', reply, acts) = run_command run now now' did raw sud lab own cmd cols rows m in (m', [acts]))"
| "start_call (CallClaim did run own socket) m = (fst (claim_terminal did run own socket m), [])"
| "start_call (CallTermInput did run rv data own socket now) m = (fst (terminal_input did run rv data own socket now m), [])"
| "start_call (CallTermResize did run rv cols rows own socket) m = (fst (terminal_resize did run rv cols rows own socket m), [])"
| "start_call (CallAck did run seq own now) m = (terminal_ack did run seq own now m, [])"
| "start_call (CallCancel did run own) m = (let (m', reply, acts, timer) = cancel did run own m in (m', [acts, timer]))"
| "start_call (CallSnapshot own now) m = (fst (owner_terminal_snapshot own now m), [])"
| "start_call (CallRedraw did run own) m = (fst (request_terminal_redraw did run own m), [])"
| "start_call (CallWriterStuck did r run ch) m = (writer_stuck did r run ch m, [])"

section \<open>The system\<close>

record ssh_sys =
  mgr :: manager
  threads :: "act list list"

definition ssh_init :: "ssh_sys \<Rightarrow> bool" where
  "ssh_init s \<longleftrightarrow> s = \<lparr>mgr = new_manager, threads = []\<rparr>"

inductive ssh_step :: "ssh_sys \<Rightarrow> ssh_sys \<Rightarrow> bool" where
  step_call: "start_call c (mgr s) = (m', ts) \<Longrightarrow> ssh_step s \<lparr>mgr = m', threads = threads s @ ts\<rparr>"
| step_act: "i < length (threads s) \<Longrightarrow> threads s ! i = a # rest \<Longrightarrow> perform e a (mgr s) = (m', new) \<Longrightarrow>
    ssh_step s \<lparr>mgr = m', threads = (threads s)[i := new @ rest]\<rparr>"

inductive_cases ssh_stepE: "ssh_step s t"

text \<open>All actions not yet run, whatever thread they belong to.\<close>

definition acts :: "ssh_sys \<Rightarrow> act multiset" where
  "acts s = mset (concat (threads s))"

lemma acts_split:
  assumes "i < length ts" "ts ! i = a # rest"
  shows "mset (concat (ts[i := new @ rest])) + {#a#} = mset (concat ts) + mset new"
proof -
  have "concat ts = concat (take i ts) @ (a # rest) @ concat (drop (Suc i) ts)"
    using assms by (metis concat.simps(2) concat_append id_take_nth_drop)
  moreover have "concat (ts[i := new @ rest]) = concat (take i ts) @ (new @ rest) @ concat (drop (Suc i) ts)"
    using assms by (simp add: upd_conv_take_nth_drop)
  ultimately show ?thesis by (simp add: union_ac)
qed

section \<open>What actions belong to\<close>

text \<open>The session a worker's action belongs to, and the device and run of its arguments.\<close>

fun worker_ref :: "act \<Rightarrow> nat option" where
  "worker_ref (ExecStart r a) = Some r"
| "worker_ref (ExecOpen r a) = Some r"
| "worker_ref (ExecRead r a) = Some r"
| "worker_ref (ExecWaitAck r a txt seq) = Some r"
| "worker_ref (ExecFeed r a txt seq) = Some r"
| "worker_ref (ExecPush r a txt seq) = Some r"
| "worker_ref (ExecSent r a txt seq) = Some r"
| "worker_ref (ExecDone r a res) = Some r"
| "worker_ref (FinishExec r) = Some r"
| "worker_ref _ = None"

fun worker_args :: "act \<Rightarrow> run_args option" where
  "worker_args (ExecStart r a) = Some a"
| "worker_args (ExecOpen r a) = Some a"
| "worker_args (ExecRead r a) = Some a"
| "worker_args (ExecWaitAck r a txt seq) = Some a"
| "worker_args (ExecFeed r a txt seq) = Some a"
| "worker_args (ExecPush r a txt seq) = Some a"
| "worker_args (ExecSent r a txt seq) = Some a"
| "worker_args (ExecDone r a res) = Some a"
| "worker_args _ = None"

fun connect_ref :: "act \<Rightarrow> nat option" where
  "connect_ref (NetConnect did r own replaced) = Some r"
| "connect_ref _ = None"

definition workers :: "nat \<Rightarrow> act multiset \<Rightarrow> nat" where
  "workers r A = size {#a \<in># A. worker_ref a = Some r#}"

definition attempts :: "nat \<Rightarrow> act multiset \<Rightarrow> nat" where
  "attempts r A = size {#a \<in># A. connect_ref a = Some r#}"

lemma count_simps [simp]:
  "workers r {#} = 0" "attempts r {#} = 0"
  "workers r (add_mset a A) = (if worker_ref a = Some r then Suc (workers r A) else workers r A)"
  "attempts r (add_mset a A) = (if connect_ref a = Some r then Suc (attempts r A) else attempts r A)"
  "workers r (A + B) = workers r A + workers r B" "attempts r (A + B) = attempts r A + attempts r B"
  by (simp_all add: workers_def attempts_def)

lemma workers_member: "a \<in># A \<Longrightarrow> worker_ref a = Some r \<Longrightarrow> 0 < workers r A"
  by (metis count_simps(3) insert_DiffM zero_less_Suc)

lemma attempts_member: "a \<in># A \<Longrightarrow> connect_ref a = Some r \<Longrightarrow> 0 < attempts r A"
  by (metis count_simps(4) insert_DiffM zero_less_Suc)

lemma count_plain:
  "(\<And>a. a \<in># A \<Longrightarrow> worker_ref a = None) \<Longrightarrow> workers r A = 0"
  "(\<And>a. a \<in># A \<Longrightarrow> connect_ref a = None) \<Longrightarrow> attempts r A = 0"
  by (auto simp: workers_def attempts_def)

section \<open>The invariant\<close>

text \<open>
  Of one session \<open>r\<close> with the actions \<open>A\<close> still to run:
  \<^item> its generation numbers it;
  \<^item> a connect attempt in progress belongs to a fresh session, and there is one at most;
  \<^item> a worker in progress is the only one, and the session is busy with its run;
  \<^item> a closed session has lost client and password, or is about to.
\<close>

definition session_ok :: "nat \<Rightarrow> session \<Rightarrow> act multiset \<Rightarrow> bool" where
  "session_ok r s A \<longleftrightarrow>
     s_generation s = Suc r
   \<and> attempts r A \<le> 1
   \<and> (0 < attempts r A \<longrightarrow> s_state s \<in> {Connecting, Closed} \<and> \<not> s_client s \<and> \<not> s_busy s)
   \<and> workers r A \<le> 1
   \<and> (0 < workers r A \<longrightarrow> s_busy s)
   \<and> (s_busy s \<longrightarrow> s_state s \<in> {Connected, Closed} \<and> s_run_id s \<noteq> None)
   \<and> (\<not> s_busy s \<longrightarrow> s_run_id s = None)
   \<and> (s_state s = Closed \<longrightarrow> (s_password s = None \<and> \<not> s_client s) \<or> CloseSession r \<in># A)"

text \<open>Of one action: a worker's arguments name its session's device and run; an attempt's, its owner.\<close>

fun act_ok :: "manager \<Rightarrow> act \<Rightarrow> bool" where
  "act_ok m (NetConnect did r own replaced) \<longleftrightarrow>
     r < next_ref m \<and> s_device_id (store m r) = did \<and> s_owner (store m r) = own"
| "act_ok m (StatusConnected r) \<longleftrightarrow> r < next_ref m"
| "act_ok m (CloseSession r) \<longleftrightarrow> r < next_ref m"
| "act_ok m a \<longleftrightarrow> (case worker_ref a of None \<Rightarrow> True
     | Some r \<Rightarrow> r < next_ref m \<and> (case worker_args a of None \<Rightarrow> True
         | Some x \<Rightarrow> r_device x = s_device_id (store m r) \<and> s_run_id (store m r) = Some (r_run x)))"

text \<open>
  Of the slots and prompts: a slot's session is its device's, not closed, while it is
  connecting its attempt is in progress, and while it is busy its worker is; a prompt was
  raised for a session of its device and owner that is waiting for it or closed.
\<close>

definition slot_ok :: "manager \<Rightarrow> act multiset \<Rightarrow> string \<Rightarrow> nat \<Rightarrow> bool" where
  "slot_ok m A did r \<longleftrightarrow>
     r < next_ref m \<and> s_device_id (store m r) = did \<and> s_state (store m r) \<noteq> Closed
   \<and> (s_state (store m r) = Connecting \<longrightarrow> attempts r A = 1)
   \<and> (s_busy (store m r) \<longrightarrow> workers r A = 1)"

definition prompt_ok :: "manager \<Rightarrow> string \<Rightarrow> prompt \<Rightarrow> bool" where
  "prompt_ok m did p \<longleftrightarrow>
     (\<exists>r < next_ref m. p_generation p = Suc r \<and> s_device_id (store m r) = did
        \<and> s_owner (store m r) = p_owner p \<and> s_state (store m r) \<in> {HostKeyPending, Closed})"

definition ssh_inv :: "manager \<Rightarrow> act multiset \<Rightarrow> bool" where
  "ssh_inv m A \<longleftrightarrow>
     gen_counter m = next_ref m
   \<and> wf_dict (sessions m) \<and> wf_dict (pending m)
   \<and> (\<forall>r < next_ref m. session_ok r (store m r) A)
   \<and> (\<forall>a \<in># A. act_ok m a)
   \<and> (\<forall>did r. current m did = Some r \<longrightarrow> slot_ok m A did r)
   \<and> (\<forall>did p. dict_get (pending m) did = Some p \<longrightarrow> prompt_ok m did p)"

section \<open>What a worker can change\<close>

text \<open>
  \<open>local_change r did m m'\<close>: only session \<open>r\<close> differs, and not in its identity, its
  state, its client or its run; and every message pushed is stamped with its generation.
\<close>

definition same_id :: "session \<Rightarrow> session \<Rightarrow> bool" where
  "same_id s s' \<longleftrightarrow> s_device_id s' = s_device_id s \<and> s_owner s' = s_owner s \<and> s_generation s' = s_generation s
     \<and> s_state s' = s_state s \<and> s_client s' = s_client s \<and> s_password s' = s_password s
     \<and> s_busy s' = s_busy s \<and> s_run_id s' = s_run_id s"

definition stamped :: "nat \<Rightarrow> string \<Rightarrow> pushed \<Rightarrow> bool" where
  "stamped g did p \<longleftrightarrow> m_gen p = Some g \<and> msg_device (m_body p) = Some did"

definition local_change :: "nat \<Rightarrow> string \<Rightarrow> manager \<Rightarrow> manager \<Rightarrow> bool" where
  "local_change r did m m' \<longleftrightarrow>
     sessions m' = sessions m \<and> pending m' = pending m \<and> next_ref m' = next_ref m
   \<and> gen_counter m' = gen_counter m \<and> activity m' = activity m
   \<and> (\<forall>q. q \<noteq> r \<longrightarrow> store m' q = store m q) \<and> same_id (store m r) (store m' r)
   \<and> (\<exists>ps. pushes m' = pushes m @ ps \<and> (\<forall>p \<in> set ps. stamped (s_generation (store m r)) did p))"

lemma same_id_refl [simp]: "same_id s s"
  by (simp add: same_id_def)

lemma local_refl [simp]: "local_change r did m m"
  by (simp add: local_change_def)

lemma local_trans:
  "local_change r did m m1 \<Longrightarrow> local_change r did m1 m2 \<Longrightarrow> local_change r did m m2"
  unfolding local_change_def same_id_def by (elim conjE exE) (auto simp: ball_Un)

lemma local_edit: "same_id (store m r) (f (store m r)) \<Longrightarrow> local_change r did m (edit r f m)"
  by (auto simp: local_change_def)

lemma local_push: "msg_device b = Some did \<Longrightarrow> local_change r did m (push_msg b own (gen_of r m) m)"
  by (auto simp: local_change_def gen_of_def stamped_def)

lemma gen_of_same: "local_change r did m m1 \<Longrightarrow> gen_of r m1 = gen_of r m"
  by (simp add: local_change_def same_id_def gen_of_def)

lemma local_log: "local_change r did m (log_msg did txt level own cmd (gen_of r m) m)"
  by (simp add: log_msg_def local_push)

lemma local_status: "local_change r did m (status_msg did st own (gen_of r m) reason m)"
  by (simp add: status_msg_def local_push)

lemma local_current_log: "local_change r (r_device a) m (current_log r a txt level cmd m)"
  by (simp add: current_log_def local_log)

lemma local_send_start:
  assumes "send_start r a m = (a', m')"
  shows "local_change r (r_device a) m m'" and "r_device a' = r_device a" and "r_run a' = r_run a"
proof -
  let ?m = "edit r (\<lambda>s. s\<lparr>s_auth_complete := True\<rparr>) m"
  have e: "local_change r (r_device a) m ?m" by (rule local_edit) (simp add: same_id_def)
  have "local_change r (r_device a) ?m
      (push_msg (TermStart (r_device a) (r_run a) (r_cmd_id a) (r_cols a) (r_rows a))
        (Some (s_owner (store m r))) (gen_of r ?m) ?m)"
    by (rule local_push) simp
  then have "local_change r (r_device a) m
      (push_msg (TermStart (r_device a) (r_run a) (r_cmd_id a) (r_cols a) (r_rows a))
        (Some (s_owner (store m r))) (gen_of r m) ?m)"
    using local_trans [OF e] gen_of_same [OF e] by simp
  then show "local_change r (r_device a) m m'"
    using assms by (auto simp: send_start_def split: if_splits)
  show "r_device a' = r_device a" "r_run a' = r_run a"
    using assms by (auto simp: send_start_def split: if_splits)
qed

text \<open>
  \<open>continues r a m m' new\<close>: the worker went on: a local change, and exactly one action of
  the same worker, device and run.
\<close>

definition continues :: "nat \<Rightarrow> run_args \<Rightarrow> manager \<Rightarrow> manager \<times> act list \<Rightarrow> bool" where
  "continues r a m out \<longleftrightarrow> local_change r (r_device a) m (fst out)
     \<and> (\<exists>b. snd out = [b] \<and> worker_ref b = Some r
          \<and> (case worker_args b of None \<Rightarrow> True | Some a' \<Rightarrow> r_device a' = r_device a \<and> r_run a' = r_run a))"

lemma continuesI:
  "local_change r (r_device a) m m' \<Longrightarrow> worker_ref b = Some r \<Longrightarrow>
   (case worker_args b of None \<Rightarrow> True | Some a' \<Rightarrow> r_device a' = r_device a \<and> r_run a' = r_run a) \<Longrightarrow>
   continues r a m (m', [b])"
  by (simp add: continues_def)

lemma local_announce: "local_change r (r_device a) m (announce_run r a m)"
  using local_trans [OF local_status local_current_log] by (simp add: announce_run_def)

lemma exec_start_continues: "continues r a m (exec_start r a m)"
proof -
  have "local_change r (r_device a) (announce_run r a m) (edit r (\<lambda>s. s\<lparr>s_cancelled := True\<rparr>) (announce_run r a m))"
    by (rule local_edit) (simp add: same_id_def)
  then have "local_change r (r_device a) m (edit r (\<lambda>s. s\<lparr>s_cancelled := True\<rparr>) (announce_run r a m))"
    by (rule local_trans [OF local_announce])
  then have c: "local_change r (r_device a) m
      (current_log r a x l c (edit r (\<lambda>s. s\<lparr>s_cancelled := True\<rparr>) (announce_run r a m)))" for x l c
    by (rule local_trans [OF _ local_current_log])
  show ?thesis
    unfolding exec_start_def Let_def
    by (auto simp del: lit_simps intro!: continuesI local_current_log local_announce c)
qed

lemma exec_open_continues: "continues r a m (exec_open chan r a m)"
proof (cases "if s_client (store m r) then chan else None")
  case None
  then show ?thesis unfolding exec_open_def None by (auto intro!: continuesI)
next
  case (Some ch)
  let ?m = "edit r (\<lambda>s. s\<lparr>s_channel := Some ch, s_cols := Some (r_cols a), s_rows := Some (r_rows a),
                    s_writer := Some new_writer,
                    s_cancelled := (if s_cancel_requested s then True else s_cancelled s)\<rparr>) m"
  have m: "local_change r (r_device a) m ?m" by (rule local_edit) (simp add: same_id_def)
  obtain a' m' where s: "send_start r a ?m = (a', m')" by force
  note st = local_send_start [OF s]
  show ?thesis
    unfolding exec_open_def Some option.case Let_def s
    by (auto intro!: continuesI m local_trans [OF m st(1)] simp: st)
qed

lemma exec_read_continues: "continues r a m (exec_read ev r a m)"
proof -
  obtain a' m' where s: "send_start r a m = (a', m')" by force
  note st = local_send_start [OF s]
  have w: "local_change r (r_device a) m (edit r (\<lambda>s. s\<lparr>s_writer := Some w'\<rparr>) m)" for w'
    by (rule local_edit) (simp add: same_id_def)
  show ?thesis
    unfolding exec_read_def s
    by (auto split: read_event.splits option.splits intro!: continuesI w simp: st)
qed

lemma wait_local: "local_change r did m (fst (wait_for_terminal_ack watching now did' r run m))"
proof -
  have "local_change r did m (edit r (\<lambda>s. s\<lparr>s_ack_stalled := True\<rparr>) m)"
    by (rule local_edit) (simp add: same_id_def)
  then show ?thesis by (simp add: wait_for_terminal_ack_def Let_def)
qed

lemma exec_wait_ack_continues: "continues r a m (exec_wait_ack watching now r a txt seq m)"
  using wait_local [of r "r_device a" m watching now "r_device a" "r_run a"]
  unfolding exec_wait_ack_def
  by (auto split: prod.splits ack_wait.splits bool.splits intro!: continuesI)

lemma exec_feed_continues: "continues r a m (exec_feed now r a txt seq m)"
proof -
  have "local_change r (r_device a) m (edit r (\<lambda>s. s\<lparr>s_history := map_option (Terminal_History.feed txt (int seq)) (s_history s),
      s_last_io := now\<rparr>) m)"
    by (rule local_edit) (simp add: same_id_def)
  then show ?thesis unfolding exec_feed_def by (auto intro!: continuesI)
qed

lemma exec_push_continues: "continues r a m (exec_push room is_shut r a txt seq m)"
  unfolding exec_push_def by (auto intro!: continuesI local_push)

lemma exec_sent_continues: "continues r a m (exec_sent r a txt seq m)"
proof -
  have "local_change r (r_device a) m (edit r (\<lambda>s. s\<lparr>s_sent_seq := int seq\<rparr>) m)"
    "local_change r (r_device a) m (edit r (mark_sent (int seq) n) m)" for n
    by (auto intro!: local_edit simp: same_id_def mark_sent_def)
  then show ?thesis unfolding exec_sent_def by (auto split: option.splits intro!: continuesI)
qed

lemma exec_done_continues: "continues r a m (exec_done r a res m)"
proof (cases res)
  case None
  then show ?thesis
    using local_log [of r "r_device a" m _ _ None None]
    by (simp add: exec_done_def continues_def split_beta)
next
  case (Some x)
  obtain a' m1 where s: "(if rr_gate_passed x then send_start r a m else (a, m)) = (a', m1)" by force
  have m1: "local_change r (r_device a) m m1" "r_device a' = r_device a"
  proof -
    show "local_change r (r_device a) m m1"
      using s local_send_start(1) by (cases "rr_gate_passed x") auto
    show "r_device a' = r_device a"
      using s local_send_start(2) by (cases "rr_gate_passed x") auto
  qed
  let ?m2 = "if r_started a'
             then push_msg (TermEnd (r_device a') (r_run a')) (Some (s_owner (store m1 r))) (gen_of r m1) m1
             else m1"
  have "local_change r (r_device a) m1 ?m2" by (auto intro!: local_push simp: m1)
  then have m2: "local_change r (r_device a) m ?m2" by (rule local_trans [OF m1(1)])
  obtain y level where l: "end_line (store ?m2 r) (r_label a') x = (y, level)" by force
  have "local_change r (r_device a) m (log_msg (r_device a) y level None None (gen_of r ?m2) ?m2)"
    by (rule local_trans [OF m2 local_log])
  then show ?thesis
    unfolding exec_done_def Some option.case s Let_def prod.case l
    by (auto intro!: continuesI simp: m1)
qed

text \<open>Every action of a worker but the last continues it.\<close>

lemma worker_continues:
  assumes "worker_ref b = Some r" "worker_args b = Some a"
  shows "continues r a m (perform e b m)"
  using assms
  by (cases b) (simp_all add: exec_start_continues exec_open_continues exec_read_continues
      exec_wait_ack_continues exec_feed_continues exec_push_continues exec_sent_continues
      exec_done_continues)

end
