(* ===== verification/Ssh_Invariant.thy ===== *)
theory Ssh_Invariant
  imports Ssh_System
begin

text \<open>
  Every step of the SSH system keeps \<open>ssh_inv\<close>. Most operations leave the identity of all
  sessions, the slots and the prompts alone (\<open>same_core\<close>) and need one lemma together; the
  rest of the theory treats the operations that move a session through its life.
\<close>

section \<open>Operations that keep the core\<close>

definition same_core :: "manager \<Rightarrow> manager \<Rightarrow> bool" where
  "same_core m m' \<longleftrightarrow> sessions m' = sessions m \<and> pending m' = pending m \<and> next_ref m' = next_ref m
     \<and> gen_counter m' = gen_counter m \<and> (\<forall>q. same_id (store m q) (store m' q))"

lemma same_core_refl [simp]: "same_core m m"
  by (simp add: same_core_def)

lemma same_core_trans: "same_core m m1 \<Longrightarrow> same_core m1 m2 \<Longrightarrow> same_core m m2"
  by (simp add: same_core_def same_id_def)

lemma same_core_edit: "same_id (store m r) (f (store m r)) \<Longrightarrow> same_core m (edit r f m)"
  by (simp add: same_core_def)

lemma same_core_msgs [simp]:
  "same_core m (push_msg b own gen m)" "same_core m (log_msg d t l own c g m)"
  "same_core m (status_msg d st own g re m)" "same_core m (lock_msg d k g m)"
  "same_core m (owner_touch o1 now m)" "same_core m (owner_reset o1 now m)"
  "same_core m (owner_pop o1 m)" "same_core m (clear_activity m)"
  by (simp_all add: same_core_def clear_activity_def)

lemma local_same_core: "local_change r did m m' \<Longrightarrow> same_core m m'"
  unfolding local_change_def same_core_def by (metis same_id_refl)

lemma session_ok_same: "same_id s s' \<Longrightarrow> session_ok q s' A \<longleftrightarrow> session_ok q s A"
  by (simp add: session_ok_def same_id_def)

lemma act_ok_same:
  assumes "same_core m m'" shows "act_ok m' a \<longleftrightarrow> act_ok m a"
  using assms by (cases a) (simp_all add: same_core_def same_id_def)

lemma inv_same_core: "same_core m m' \<Longrightarrow> ssh_inv m A \<Longrightarrow> ssh_inv m' A"
proof -
  assume c: "same_core m m'"
  then have q: "same_id (store m q) (store m' q)" for q by (simp add: same_core_def)
  have "slot_ok m' A did r = slot_ok m A did r" "prompt_ok m' did p = prompt_ok m did p" for did r p
    using c q by (simp_all add: slot_ok_def prompt_ok_def same_core_def same_id_def)
  then show "ssh_inv m A \<Longrightarrow> ssh_inv m' A"
    using c session_ok_same [OF q] act_ok_same [OF c] by (simp add: ssh_inv_def same_core_def)
qed

section \<open>Adding, dropping and exchanging actions\<close>

text \<open>An action that is nobody's worker, attempt or pending close.\<close>

definition quiet :: "act \<Rightarrow> bool" where
  "quiet a \<longleftrightarrow> worker_ref a = None \<and> connect_ref a = None \<and> (\<forall>r. a \<noteq> CloseSession r)"

lemma quiet_simps [simp]:
  "quiet (ClearPending did)" "quiet (Log did x l own c g)" "quiet (Status did st own g re)"
  "quiet (Lock did k g)" "quiet (PushTo b o1)" "quiet (OwnerTouch o1)" "quiet (OwnerReset o1)"
  "quiet (OwnerPop o1)" "quiet ClearActivity" "quiet (SaveKey did r p)" "quiet (CloseSlot did ro re)"
  "quiet (SweepDevice now did)" "quiet (TickOwners now)" "quiet (TickOwner now o1)"
  "quiet (ReleasePrompts o1)" "quiet (StatusConnected r)" "quiet (ForceStop did r run ch)"
  "quiet (CloseChannel ch)" "\<not> quiet (CloseSession r)" "\<not> quiet (NetConnect did r o1 replaced)"
  by (simp_all add: quiet_def)

lemma session_ok_quiet: "quiet a \<Longrightarrow> session_ok r s (add_mset a A) \<longleftrightarrow> session_ok r s A"
  by (auto simp: session_ok_def quiet_def)

lemma slot_ok_quiet: "quiet a \<Longrightarrow> slot_ok m (add_mset a A) did r \<longleftrightarrow> slot_ok m A did r"
  by (auto simp: slot_ok_def quiet_def)

lemma inv_quiet: "quiet a \<Longrightarrow> ssh_inv m (add_mset a A) \<longleftrightarrow> ssh_inv m A \<and> act_ok m a"
  by (auto simp: ssh_inv_def session_ok_quiet slot_ok_quiet)

lemma inv_quiets:
  "(\<forall>a \<in> set new. quiet a \<and> act_ok m a) \<Longrightarrow> ssh_inv m (A + mset new) \<longleftrightarrow> ssh_inv m A"
  by (induction new) (auto simp: inv_quiet)

text \<open>A second wish to close a session is harmless.\<close>

lemma session_ok_close: "session_ok q s A \<Longrightarrow> session_ok q s (add_mset (CloseSession r) A)"
  by (auto simp: session_ok_def)

lemma slot_ok_close [simp]: "slot_ok m (add_mset (CloseSession r) A) did q \<longleftrightarrow> slot_ok m A did q"
  by (simp add: slot_ok_def)

lemma inv_add_close: "ssh_inv m A \<Longrightarrow> r < next_ref m \<Longrightarrow> ssh_inv m (add_mset (CloseSession r) A)"
  by (auto simp: ssh_inv_def session_ok_close)

lemma inv_swap:
  assumes "ssh_inv m (add_mset a A)" "worker_ref a = Some r" "worker_ref b = Some r" "act_ok m b"
  shows "ssh_inv m (add_mset b A)"
proof -
  have "connect_ref a = None" "connect_ref b = None" "\<And>q. a \<noteq> CloseSession q" "\<And>q. b \<noteq> CloseSession q"
    using assms(2,3) by (cases a; simp; fail | cases b; simp; fail)+
  then have "session_ok q s (add_mset b A) = session_ok q s (add_mset a A)"
    "slot_ok m (add_mset b A) did q = slot_ok m (add_mset a A) did q" for q s did
    using assms(2,3) by (auto simp: session_ok_def slot_ok_def)
  then show ?thesis using assms(1,4) by (simp add: ssh_inv_def)
qed

section \<open>The worker\<close>

lemma act_ok_worker:
  assumes "worker_ref b = Some r" "r < next_ref m"
    and "case worker_args b of None \<Rightarrow> True
         | Some x \<Rightarrow> r_device x = s_device_id (store m r) \<and> s_run_id (store m r) = Some (r_run x)"
  shows "act_ok m b"
  using assms by (cases b) auto

lemma act_ok_workerD:
  assumes "act_ok m b" "worker_ref b = Some r"
  shows "r < next_ref m"
    and "worker_args b = Some x \<Longrightarrow> r_device x = s_device_id (store m r) \<and> s_run_id (store m r) = Some (r_run x)"
  using assms by (cases b; auto)+

lemma inv_worker:
  assumes inv: "ssh_inv m (add_mset a A)" and r: "worker_ref a = Some r" and x: "worker_args a = Some x"
    and p: "perform e a m = (m', new)"
  shows "ssh_inv m' (A + mset new)"
proof -
  have ok: "act_ok m a" using inv by (simp add: ssh_inv_def)
  note d = act_ok_workerD [OF ok r]
  obtain b where new: "new = [b]" and b: "worker_ref b = Some r"
    and args: "case worker_args b of None \<Rightarrow> True | Some y \<Rightarrow> r_device y = r_device x \<and> r_run y = r_run x"
    and loc: "local_change r (r_device x) m m'"
    using worker_continues [OF r x, of m e] p by (auto simp: continues_def)
  have "act_ok m b"
    by (rule act_ok_worker [OF b d(1)]) (use args d(2) [OF x] in \<open>auto split: option.splits\<close>)
  then have "ssh_inv m (add_mset b A)" by (rule inv_swap [OF inv r b])
  then show ?thesis using inv_same_core [OF local_same_core [OF loc]] new by simp
qed

section \<open>Changing one session\<close>

definition others :: "nat \<Rightarrow> act multiset \<Rightarrow> act multiset \<Rightarrow> bool" where
  "others q A A' \<longleftrightarrow> attempts q A' = attempts q A \<and> workers q A' = workers q A
     \<and> (CloseSession q \<in># A \<longrightarrow> CloseSession q \<in># A')"

lemma session_ok_others: "others q A A' \<Longrightarrow> session_ok q s A \<Longrightarrow> session_ok q s A'"
  by (auto simp: others_def session_ok_def)

text \<open>\<open>m'\<close> is \<open>m\<close> with session \<open>r\<close> changed, keeping its device, owner and generation.\<close>

definition changed :: "nat \<Rightarrow> manager \<Rightarrow> manager \<Rightarrow> bool" where
  "changed r m m' \<longleftrightarrow> next_ref m' = next_ref m \<and> gen_counter m' = gen_counter m
     \<and> wf_dict (sessions m') \<and> wf_dict (pending m') \<and> (\<forall>q. q \<noteq> r \<longrightarrow> store m' q = store m q)
     \<and> s_device_id (store m' r) = s_device_id (store m r) \<and> s_owner (store m' r) = s_owner (store m r)
     \<and> s_generation (store m' r) = s_generation (store m r)"

lemma act_ok_changed:
  assumes "changed r m m'" "act_ok m a"
    and "s_run_id (store m' r) = s_run_id (store m r) \<or> worker_ref a \<noteq> Some r"
  shows "act_ok m' a"
proof -
  have "s_device_id (store m' q) = s_device_id (store m q)" "s_owner (store m' q) = s_owner (store m q)"
    "next_ref m' = next_ref m" "q \<noteq> r \<Longrightarrow> store m' q = store m q" for q
    using assms(1) by (cases "q = r"; simp add: changed_def)+
  then show ?thesis using assms(2,3) by (cases a) (simp_all, metis+)
qed

lemma prompt_ok_changed:
  assumes "changed r m m'" "prompt_ok m did p"
    and "s_state (store m r) \<in> {HostKeyPending, Closed} \<Longrightarrow> s_state (store m' r) \<in> {HostKeyPending, Closed}"
  shows "prompt_ok m' did p"
proof -
  obtain q where q: "q < next_ref m" "p_generation p = Suc q" "s_device_id (store m q) = did"
    "s_owner (store m q) = p_owner p" "s_state (store m q) \<in> {HostKeyPending, Closed}"
    using assms(2) by (auto simp: prompt_ok_def)
  then show ?thesis
    using assms(1,3) unfolding prompt_ok_def by (intro exI [of _ q]) (cases "q = r"; simp add: changed_def)
qed

lemma inv_changed:
  assumes inv: "ssh_inv m A" and ch: "changed r m m'"
    and r: "r < next_ref m \<Longrightarrow> session_ok r (store m' r) A'"
    and oth: "\<And>q. q \<noteq> r \<Longrightarrow> others q A A'"
    and new: "\<And>a. a \<in># A' \<Longrightarrow> act_ok m' a"
    and slots: "\<And>did q. current m' did = Some q \<Longrightarrow> current m did = Some q \<and> (q = r \<longrightarrow> slot_ok m' A' did r)"
    and prompts: "\<And>did p. dict_get (pending m') did = Some p \<Longrightarrow> prompt_ok m' did p"
  shows "ssh_inv m' A'"
proof -
  have sess: "session_ok q (store m' q) A'" if "q < next_ref m" for q
  proof (cases "q = r")
    case True
    then show ?thesis using r that by simp
  next
    case False
    then show ?thesis
      using inv ch oth that session_ok_others [of q A A'] by (simp add: ssh_inv_def changed_def)
  qed
  have slot: "slot_ok m' A' did q" if c: "current m' did = Some q" for did q
  proof (cases "q = r")
    case True
    then show ?thesis using slots [OF c] by simp
  next
    case False
    then have "slot_ok m A did q" using slots [OF c] inv by (simp add: ssh_inv_def)
    then show ?thesis using False oth [OF False] ch by (simp add: slot_ok_def others_def changed_def)
  qed
  show ?thesis
    using sess slot new prompts ch inv by (simp add: ssh_inv_def changed_def)
qed

lemma current_drop [simp]: "current (drop_slot did m) d = (if d = did then None else current m d)"
  by (simp add: drop_slot_def dict_simps)

lemma drop_slot_simps [simp]:
  "store (drop_slot did m) = store m" "next_ref (drop_slot did m) = next_ref m"
  "pending (drop_slot did m) = pending m" "gen_counter (drop_slot did m) = gen_counter m"
  "activity (drop_slot did m) = activity m" "pushes (drop_slot did m) = pushes m"
  "wf_dict (sessions m) \<Longrightarrow> wf_dict (sessions (drop_slot did m))"
  by (simp_all add: drop_slot_def)

lemma retire_simps [simp]:
  "s_state (retire s) = Closed" "s_cancelled (retire s) = True" "s_device_id (retire s) = s_device_id s"
  "s_owner (retire s) = s_owner s" "s_generation (retire s) = s_generation s"
  "s_client (retire s) = s_client s" "s_password (retire s) = s_password s"
  "s_busy (retire s) = s_busy s" "s_run_id (retire s) = s_run_id s"
  by (simp_all add: retire_def)

text \<open>What the invariant says of a device's session.\<close>

lemma inv_currentD:
  assumes "ssh_inv m A" "current m did = Some r"
  shows "r < next_ref m" "s_device_id (store m r) = did" "s_state (store m r) \<noteq> Closed"
    "session_ok r (store m r) A" "slot_ok m A did r"
  using assms by (auto simp: ssh_inv_def slot_ok_def)

lemma inv_slot_unique:
  "ssh_inv m A \<Longrightarrow> current m did = Some r \<Longrightarrow> current m did' = Some r \<Longrightarrow> did' = did"
  using inv_currentD(2) by metis

section \<open>Closing\<close>

lemma inv_retire:
  assumes inv: "ssh_inv m A" and cur: "current m did = Some r"
  shows "ssh_inv (edit r retire (drop_slot did m)) (add_mset (CloseSession r) A)"
proof (rule inv_changed [OF inv])
  note d = inv_currentD [OF inv cur]
  let ?m = "edit r retire (drop_slot did m)"
  show ch: "changed r m ?m" using inv by (simp add: changed_def ssh_inv_def)
  show "session_ok r (store ?m r) (add_mset (CloseSession r) A)"
    using d(4) by (auto simp: session_ok_def)
  show "others q A (add_mset (CloseSession r) A)" for q by (simp add: others_def)
  show "act_ok ?m a" if "a \<in># add_mset (CloseSession r) A" for a
    by (rule act_ok_changed [OF ch]) (use that inv d(1) in \<open>auto simp: ssh_inv_def\<close>)
  show "current m did' = Some q \<and> (q = r \<longrightarrow> slot_ok ?m (add_mset (CloseSession r) A) did' r)"
    if "current ?m did' = Some q" for did' q
    using that inv_slot_unique [OF inv cur, of did'] by (auto split: if_splits)
  show "prompt_ok ?m did' p" if "dict_get (pending ?m) did' = Some p" for did' p
    by (rule prompt_ok_changed [OF ch]) (use that inv in \<open>auto simp: ssh_inv_def\<close>)
qed

lemma inv_clear_pending: "ssh_inv m A \<Longrightarrow> ssh_inv (clear_pending did m) A"
proof -
  assume inv: "ssh_inv m A"
  have "session_ok 0 (store m 0) A" if "0 < next_ref m" using inv that by (simp add: ssh_inv_def)
  moreover have ch: "changed 0 m (clear_pending did m)"
    using inv by (simp add: changed_def clear_pending_def ssh_inv_def)
  moreover have "prompt_ok (clear_pending did m) d p" if "dict_get (pending (clear_pending did m)) d = Some p" for d p
    by (rule prompt_ok_changed [OF ch])
      (use that inv in \<open>auto simp: clear_pending_def dict_simps ssh_inv_def split: if_splits\<close>)
  moreover have "act_ok (clear_pending did m) a" if "a \<in># A" for a
    by (rule act_ok_changed [OF ch]) (use that inv in \<open>auto simp: ssh_inv_def clear_pending_def\<close>)
  moreover have "current m d = Some q \<and> (q = 0 \<longrightarrow> slot_ok (clear_pending did m) A d 0)"
    if "current (clear_pending did m) d = Some q" for d q
    using that inv by (auto simp: ssh_inv_def clear_pending_def slot_ok_def)
  ultimately show ?thesis
    by (intro inv_changed [OF inv ch]) (auto simp: others_def clear_pending_def)
qed

lemma act_ok_trivial [simp]:
  "act_ok m (ClearPending did)" "act_ok m (Log did x l own c g)" "act_ok m (Status did st own g re)"
  "act_ok m (Lock did k g)" "act_ok m (PushTo b o1)" "act_ok m (OwnerTouch o1)" "act_ok m (OwnerReset o1)"
  "act_ok m (OwnerPop o1)" "act_ok m ClearActivity" "act_ok m (SaveKey did r p)" "act_ok m (CloseSlot did ro re)"
  "act_ok m (SweepDevice now did)" "act_ok m (TickOwners now)" "act_ok m (TickOwner now o1)"
  "act_ok m (ReleasePrompts o1)" "act_ok m (ForceStop did r run ch)" "act_ok m (CloseChannel ch)"
  by simp_all

text \<open>The tail of a close: actions around \<open>CloseSession\<close> that are quiet.\<close>

lemma inv_closing:
  assumes "ssh_inv m (add_mset (CloseSession r) A)" "\<forall>a \<in> set (as @ bs). quiet a \<and> act_ok m a"
  shows "ssh_inv m (A + mset (as @ CloseSession r # bs))"
proof -
  have "A + mset (as @ CloseSession r # bs) = add_mset (CloseSession r) A + mset (as @ bs)"
    by simp
  then show ?thesis using assms inv_quiets [of "as @ bs" m] by metis
qed

lemma inv_close_slot:
  assumes inv: "ssh_inv m A" and out: "close_slot did sess reason m = (m', new)"
  shows "ssh_inv m' (A + mset new)"
proof (cases "current m did")
  case (Some r)
  have "ssh_inv (edit r retire (drop_slot did m)) (A + mset ([ClearPending did] @ CloseSession r #
      [Log did disconnected_text ''muted'' (Some (s_owner (store m r))) None None,
       Status did ''idle'' (Some (s_owner (store m r))) None reason, Lock did False None]))"
    by (rule inv_closing [OF inv_retire [OF inv Some]]) simp
  then show ?thesis using out inv Some by (auto simp: close_slot_def split: if_splits)
qed (use assms in \<open>simp add: close_slot_def\<close>)

lemma inv_disconnect:
  assumes inv: "ssh_inv m A" and out: "disconnect did own reason m = (m', reply, new)"
  shows "ssh_inv m' (A + mset new)"
proof (cases "current m did")
  case (Some r)
  have "ssh_inv (edit r retire (drop_slot did m)) (A + mset ([ClearPending did] @ CloseSession r #
      [Log did disconnected_text ''muted'' (Some (s_owner (store m r))) None None,
       Status did ''idle'' o1 None reason, Lock did False None]))" for o1
    by (rule inv_closing [OF inv_retire [OF inv Some]]) simp
  then show ?thesis using out inv Some by (auto simp: disconnect_def split: if_splits)
qed (use assms in \<open>auto simp: disconnect_def inv_quiet\<close>)

lemma inv_close_session:
  assumes inv: "ssh_inv m (add_mset (CloseSession r) A)"
  shows "ssh_inv (edit r close_session m) A"
proof (rule inv_changed [OF inv])
  let ?m = "edit r close_session m"
  have r: "r < next_ref m" "session_ok r (store m r) (add_mset (CloseSession r) A)"
    using inv by (auto simp: ssh_inv_def)
  show ch: "changed r m ?m" using inv by (simp add: changed_def ssh_inv_def)
  show "session_ok r (store ?m r) A" using r(2) by (auto simp: session_ok_def)
  show "others q (add_mset (CloseSession r) A) A" if "q \<noteq> r" for q using that by (simp add: others_def)
  show "act_ok ?m a" if "a \<in># A" for a
    by (rule act_ok_changed [OF ch]) (use that inv in \<open>auto simp: ssh_inv_def\<close>)
  show "current m did = Some q \<and> (q = r \<longrightarrow> slot_ok ?m A did r)" if "current ?m did = Some q" for did q
    using that inv by (auto simp: ssh_inv_def slot_ok_def)
  show "prompt_ok ?m did p" if "dict_get (pending ?m) did = Some p" for did p
    by (rule prompt_ok_changed [OF ch]) (use that inv in \<open>auto simp: ssh_inv_def\<close>)
qed

section \<open>Connecting\<close>

text \<open>No action speaks of a session that does not exist yet.\<close>

lemma inv_fresh:
  assumes "ssh_inv m A"
  shows "attempts (next_ref m) A = 0" "workers (next_ref m) A = 0"
proof -
  have "worker_ref a \<noteq> Some (next_ref m) \<and> connect_ref a \<noteq> Some (next_ref m)" if "a \<in># A" for a
  proof -
    have "act_ok m a" using assms that by (simp add: ssh_inv_def)
    then show ?thesis by (cases a) auto
  qed
  then show "attempts (next_ref m) A = 0" "workers (next_ref m) A = 0"
    by (auto simp: attempts_def workers_def)
qed

lemma reserve_simps [simp]:
  "next_ref (reserve did pw dev own now m) = Suc (next_ref m)"
  "gen_counter (reserve did pw dev own now m) = Suc (gen_counter m)"
  "pending (reserve did pw dev own now m) = pending m"
  "current (reserve did pw dev own now m) d = (if d = did then Some (next_ref m) else current m d)"
  "q \<noteq> next_ref m \<Longrightarrow> store (reserve did pw dev own now m) q = store m q"
  "wf_dict (sessions m) \<Longrightarrow> wf_dict (sessions (reserve did pw dev own now m))"
  by (simp_all add: reserve_def dict_simps)

lemma reserve_new [simp]:
  "s_generation (store (reserve did pw dev own now m) (next_ref m)) = Suc (gen_counter m)"
  "s_device_id (store (reserve did pw dev own now m) (next_ref m)) = did"
  "s_owner (store (reserve did pw dev own now m) (next_ref m)) = own"
  "s_state (store (reserve did pw dev own now m) (next_ref m)) = Connecting"
  "s_client (store (reserve did pw dev own now m) (next_ref m)) = False"
  "s_busy (store (reserve did pw dev own now m) (next_ref m)) = False"
  "s_run_id (store (reserve did pw dev own now m) (next_ref m)) = None"
  by (simp_all add: reserve_def new_session_def)

lemma act_ok_reserve:
  assumes "act_ok m a" shows "act_ok (reserve did pw dev own now m) a"
  using assms by (cases a) auto

lemma inv_reserve:
  assumes inv: "ssh_inv m A" and free: "current m did = None"
  shows "ssh_inv (reserve did pw dev own now m) (add_mset (NetConnect did (next_ref m) own rep) A)"
proof -
  let ?m = "reserve did pw dev own now m" and ?A = "add_mset (NetConnect did (next_ref m) own rep) A"
  note fresh = inv_fresh [OF inv]
  have "session_ok q (store ?m q) ?A" if "q < Suc (next_ref m)" for q
  proof (cases "q = next_ref m")
    case True
    then show ?thesis using fresh inv by (simp add: session_ok_def ssh_inv_def)
  next
    case False
    then have "session_ok q (store m q) A" using that inv by (simp add: ssh_inv_def)
    then show ?thesis using False session_ok_others [of q A ?A] by (simp add: others_def)
  qed
  moreover have "slot_ok ?m ?A d q" if "current ?m d = Some q" for d q
  proof (cases "d = did")
    case True
    then have q: "q = next_ref m" using that by simp
    show ?thesis unfolding q using True fresh by (simp add: slot_ok_def)
  next
    case False
    then have "slot_ok m A d q" using that inv by (simp add: ssh_inv_def)
    then show ?thesis by (auto simp: slot_ok_def)
  qed
  moreover have "prompt_ok ?m d p" if "dict_get (pending m) d = Some p" for d p
  proof -
    have "prompt_ok m d p" using that inv by (simp add: ssh_inv_def)
    then obtain q where q: "q < next_ref m" "p_generation p = Suc q" "s_device_id (store m q) = d"
      "s_owner (store m q) = p_owner p" "s_state (store m q) \<in> {HostKeyPending, Closed}"
      by (auto simp: prompt_ok_def)
    then show ?thesis unfolding prompt_ok_def by (intro exI [of _ q]) simp
  qed
  ultimately show ?thesis
    using inv act_ok_reserve by (auto simp: ssh_inv_def)
qed

text \<open>The invariant reads the slots as a map: the order of the dictionary does not matter.\<close>

lemma inv_slots_cong:
  assumes "ssh_inv m A" "current m' = current m" "wf_dict (sessions m')" "store m' = store m"
    "next_ref m' = next_ref m" "gen_counter m' = gen_counter m" "pending m' = pending m"
  shows "ssh_inv m' A"
proof -
  have "act_ok m' a = act_ok m a" for a using assms by (cases a) simp_all
  moreover have "slot_ok m' A d r = slot_ok m A d r" "prompt_ok m' d p = prompt_ok m d p" for d r p
    using assms by (simp_all add: slot_ok_def prompt_ok_def)
  ultimately show ?thesis using assms by (simp add: ssh_inv_def)
qed

lemma inv_connect:
  assumes inv: "ssh_inv m A" and out: "connect did pw dev own now m = (m', reply, new)"
  shows "ssh_inv m' (A + mset new)"
proof (cases "current m did")
  case None
  then show ?thesis using out inv_reserve [OF inv None] by (auto simp: connect_def)
next
  case (Some r)
  have "live (store m r)"
    using inv_currentD(3) [OF inv Some] by (cases "s_state (store m r)") (auto simp: live_def)
  then show ?thesis
  proof (cases "s_owner (store m r) = own")
    case False
    then show ?thesis using out inv Some \<open>live (store m r)\<close> by (auto simp: connect_def)
  next
    case True
    let ?m = "edit r retire (drop_slot did m)" and ?new = "NetConnect did (next_ref m) own True"
    have "ssh_inv (reserve did pw dev own now ?m) (add_mset (NetConnect did (next_ref ?m) own True) (add_mset (CloseSession r) A))"
      by (rule inv_reserve [OF inv_retire [OF inv Some]]) simp
    then have 1: "ssh_inv (reserve did pw dev own now ?m) (add_mset (CloseSession r) (add_mset ?new A))"
      by (simp add: add_mset_commute)
    have "current (reserve did pw dev own now (edit r retire m)) = current (reserve did pw dev own now ?m)"
      by (simp add: fun_eq_iff)
    moreover have "wf_dict (sessions m)" using inv by (simp add: ssh_inv_def)
    ultimately have "ssh_inv (reserve did pw dev own now (edit r retire m)) (add_mset (CloseSession r) (add_mset ?new A))"
      by (intro inv_slots_cong [OF 1]) (simp_all add: reserve_def)
    then have "ssh_inv (reserve did pw dev own now (edit r retire m))
        (add_mset ?new A + mset ([] @ CloseSession r # [Log did disconnected_text ''muted'' (Some own) None None]))"
      by (rule inv_closing) simp
    then show ?thesis using out Some True \<open>live (store m r)\<close>
      by (auto simp: connect_def add_mset_commute)
  qed
qed

text \<open>What the invariant says of an attempt in progress.\<close>

lemma inv_attemptD:
  assumes "ssh_inv m (add_mset (NetConnect did r own rep) A)"
  shows "r < next_ref m" "s_device_id (store m r) = did" "s_owner (store m r) = own"
    "s_generation (store m r) = Suc r" "attempts r A = 0"
    "s_state (store m r) \<in> {Connecting, Closed}" "\<not> s_client (store m r)" "\<not> s_busy (store m r)"
    "s_run_id (store m r) = None" "workers r A = 0"
    "s_state (store m r) = Closed \<Longrightarrow> s_password (store m r) = None \<or> CloseSession r \<in># A"
  using assms by (auto simp: ssh_inv_def session_ok_def)

text \<open>One lemma for all ends of an attempt: the session's new state, slot and prompt decide.\<close>

lemma inv_attempt_end:
  assumes inv: "ssh_inv m (add_mset (NetConnect did r own rep) A)" and ch: "changed r m m'"
    and r: "session_ok r (store m' r) A'" and run: "s_run_id (store m' r) = None"
    and A': "A' = A \<or> A' = add_mset (CloseSession r) A"
    and slots: "\<And>d q. current m' d = Some q \<Longrightarrow> current m d = Some q \<and> (q = r \<longrightarrow> slot_ok m' A' d r)"
    and prompts: "\<And>d p. dict_get (pending m') d = Some p \<Longrightarrow> prompt_ok m' d p"
  shows "ssh_inv m' A'"
proof (rule inv_changed [OF inv ch r])
  note d = inv_attemptD [OF inv]
  show "others q (add_mset (NetConnect did r own rep) A) A'" if "q \<noteq> r" for q
    using that A' by (auto simp: others_def)
  show "act_ok m' a" if "a \<in># A'" for a
  proof (rule act_ok_changed [OF ch])
    show "act_ok m a" using that A' inv d(1) by (auto simp: ssh_inv_def)
  qed (use run d(9) in simp)
qed (use slots prompts in auto)

lemma inv_prompt_keep:
  assumes inv: "ssh_inv m A" and ch: "changed r m m'"
    and st: "s_state (store m r) \<in> {HostKeyPending, Closed} \<Longrightarrow> s_state (store m' r) \<in> {HostKeyPending, Closed}"
    and p: "dict_get (pending m) d = Some p"
  shows "prompt_ok m' d p"
  by (rule prompt_ok_changed [OF ch _ st]) (use inv p in \<open>auto simp: ssh_inv_def\<close>)

lemma inv_raise_prompt:
  assumes inv: "ssh_inv m (add_mset (NetConnect did r own rep) A)"
  shows "ssh_inv (raise_prompt did r host key code own now m) A"
proof (cases "is_current m did r")
  case True
  note d = inv_attemptD [OF inv]
  have cur: "current m did = Some r" using True by (simp add: is_current_def)
  let ?p = "\<lparr>p_host = host, p_key = key, p_code = code, p_owner = own, p_generation = s_generation (store m r), p_created_at = now\<rparr>"
  let ?m = "(edit r (\<lambda>s. s\<lparr>s_state := HostKeyPending\<rparr>) m)\<lparr>pending := dict_set did ?p (pending m)\<rparr>"
  have ch: "changed r m ?m" using inv by (simp add: changed_def ssh_inv_def)
  have "ssh_inv ?m A"
  proof (rule inv_attempt_end [OF inv ch])
    show "session_ok r (store ?m r) A" using d by (simp add: session_ok_def)
    show "s_run_id (store ?m r) = None" using d(9) by simp
    show "current m d' = Some q \<and> (q = r \<longrightarrow> slot_ok ?m A d' r)" if "current ?m d' = Some q" for d' q
      using that inv d by (auto simp: slot_ok_def ssh_inv_def)
    show "prompt_ok ?m d' p" if "dict_get (pending ?m) d' = Some p" for d' p
    proof (cases "d' = did")
      case True
      then show ?thesis using that d by (auto simp: dict_simps prompt_ok_def intro!: exI [of _ r])
    next
      case False
      show ?thesis
        by (rule inv_prompt_keep [OF inv ch]) (use that False in \<open>auto simp: dict_simps\<close>)
    qed
  qed simp
  then show ?thesis using True by (simp add: raise_prompt_def)
next
  case False
  note d = inv_attemptD [OF inv]
  have ch: "changed r m m" using inv by (simp add: changed_def ssh_inv_def)
  have "ssh_inv m A"
  proof (rule inv_attempt_end [OF inv ch])
    show "session_ok r (store m r) A" using d inv by (auto simp: session_ok_def)
    show "current m d' = Some q \<and> (q = r \<longrightarrow> slot_ok m A d' r)" if "current m d' = Some q" for d' q
      using that False d(2) inv by (auto simp: is_current_def ssh_inv_def slot_ok_def)
    show "prompt_ok m d' p" if "dict_get (pending m) d' = Some p" for d' p
      using that inv by (simp add: ssh_inv_def)
  qed (use d in auto)
  then show ?thesis using False by (simp add: raise_prompt_def)
qed

lemma inv_connect_failed:
  assumes inv: "ssh_inv m (add_mset (NetConnect did r own rep) A)"
    and out: "connect_failed did r own rep m = (m', new)"
  shows "ssh_inv m' (A + mset new)"
proof -
  note d = inv_attemptD [OF inv]
  let ?m = "if is_current m did r then drop_slot did m else m"
  have ch: "changed r m ?m" using inv by (simp add: changed_def ssh_inv_def)
  have "ssh_inv ?m A"
  proof (rule inv_attempt_end [OF inv ch])
    show "session_ok r (store ?m r) A" using d inv by (auto simp: session_ok_def)
    show "current m d' = Some q \<and> (q = r \<longrightarrow> slot_ok ?m A d' r)" if "current ?m d' = Some q" for d' q
      using that d(2) inv inv_currentD(2) [OF inv] by (auto simp: is_current_def split: if_splits)
    show "prompt_ok ?m d' p" if "dict_get (pending ?m) d' = Some p" for d' p
      by (rule inv_prompt_keep [OF inv ch]) (use that in \<open>auto split: if_splits\<close>)
  qed (use d in auto)
  then show ?thesis using out by (auto simp: connect_failed_def inv_quiet split: if_splits)
qed

lemma inv_connected:
  assumes inv: "ssh_inv m (add_mset (NetConnect did r own rep) A)"
    and out: "connect_finish NetOk code now did r own rep m = (m', reply, new)"
  shows "ssh_inv m' (A + mset new)"
proof (cases "is_current m did r")
  case False
  note d = inv_attemptD [OF inv]
  let ?m = "edit r (\<lambda>s. s\<lparr>s_client := True\<rparr>) m"
  have ch: "changed r m ?m" using inv by (simp add: changed_def ssh_inv_def)
  have "ssh_inv ?m (add_mset (CloseSession r) A)"
  proof (rule inv_attempt_end [OF inv ch])
    show "session_ok r (store ?m r) (add_mset (CloseSession r) A)" using d by (auto simp: session_ok_def)
    show "current m d' = Some q \<and> (q = r \<longrightarrow> slot_ok ?m (add_mset (CloseSession r) A) d' r)"
      if "current ?m d' = Some q" for d' q
      using that False d(2) inv_currentD(2) [OF inv] by (auto simp: is_current_def)
    show "prompt_ok ?m d' p" if "dict_get (pending ?m) d' = Some p" for d' p
      by (rule inv_prompt_keep [OF inv ch]) (use that in auto)
  qed (use d in auto)
  then show ?thesis using out False by (auto simp: connect_finish_def is_current_def)
next
  case True
  note d = inv_attemptD [OF inv]
  let ?m = "(edit r (\<lambda>s. s\<lparr>s_client := True, s_state := Connected\<rparr>) m)\<lparr>pending := dict_pop did (pending m)\<rparr>"
  have eq: "(edit r (\<lambda>s. s\<lparr>s_state := Connected\<rparr>) (edit r (\<lambda>s. s\<lparr>s_client := True\<rparr>) m)) =
      edit r (\<lambda>s. s\<lparr>s_client := True, s_state := Connected\<rparr>) m"
    by (simp add: edit_def)
  have ch: "changed r m ?m" using inv by (simp add: changed_def ssh_inv_def)
  have "ssh_inv ?m A"
  proof (rule inv_attempt_end [OF inv ch])
    show "session_ok r (store ?m r) A" using d by (simp add: session_ok_def)
    show "current m d' = Some q \<and> (q = r \<longrightarrow> slot_ok ?m A d' r)" if "current ?m d' = Some q" for d' q
      using that d inv_currentD(2) [OF inv] by (auto simp: slot_ok_def)
    show "prompt_ok ?m d' p" if "dict_get (pending ?m) d' = Some p" for d' p
    proof -
      have p: "d' \<noteq> did" "dict_get (pending m) d' = Some p"
        using that by (auto simp: dict_simps split: if_splits)
      then have "prompt_ok m d' p" using inv by (simp add: ssh_inv_def)
      then obtain q where "q < next_ref m" "p_generation p = Suc q" "s_device_id (store m q) = d'"
        "s_owner (store m q) = p_owner p" "s_state (store m q) \<in> {HostKeyPending, Closed}"
        by (auto simp: prompt_ok_def)
      moreover have "q \<noteq> r" using calculation(3) d(2) p(1) by auto
      ultimately show ?thesis unfolding prompt_ok_def by (intro exI [of _ q]) simp
    qed
  qed (use d in auto)
  then show ?thesis using out True
    by (auto simp: connect_finish_def is_current_def eq Let_def inv_quiet)
qed

lemma inv_connect_finish:
  assumes inv: "ssh_inv m (add_mset (NetConnect did r own rep) A)"
    and out: "connect_finish oc code now did r own rep m = (m', reply, new)"
  shows "ssh_inv m' (A + mset new)"
proof (cases oc)
  case NetOk
  then show ?thesis using inv_connected [OF inv] out by simp
qed (use out inv_raise_prompt [OF inv] inv_connect_failed [OF inv]
     in \<open>auto simp: connect_finish_def split: prod.splits\<close>)

section \<open>Prompts and the sweep\<close>

lemma inv_trust: "ssh_inv m A \<Longrightarrow> trust_host_key did code own now m = (m', reply, new) \<Longrightarrow> ssh_inv m' (A + mset new)"
  by (auto simp: trust_host_key_def inv_quiet inv_clear_pending split: option.splits)

lemma inv_reject: "ssh_inv m A \<Longrightarrow> reject_host_key did code own now m = (m', reply, new) \<Longrightarrow> ssh_inv m' (A + mset new)"
  by (auto simp: reject_host_key_def inv_quiet inv_clear_pending split: option.splits)

lemma inv_sweep_device: "ssh_inv m A \<Longrightarrow> sweep_device now did m = (m', new) \<Longrightarrow> ssh_inv m' (A + mset new)"
  by (auto simp: sweep_device_def inv_quiet inv_clear_pending split: option.splits if_splits)

lemma tick_owner_core:
  assumes "tick_owner now own m = (m', new)"
  shows "same_core m m'" and "\<forall>a \<in> set new. quiet a \<and> act_ok k a"
proof -
  have c: "same_core m (fst (idle_clock now own m))"
    by (auto simp: idle_clock_def Let_def same_core_def split: option.splits)
  obtain m1 b where i: "idle_clock now own m = (m1, b)" by force
  have w: "same_core m (push_msg x y z (m1\<lparr>activity := act\<rparr>))" for x y z act
    using c i by (simp add: same_core_def)
  show "same_core m m'"
    using assms c i w by (auto simp: tick_owner_def Let_def split: if_splits option.splits)
  show "\<forall>a \<in> set new. quiet a \<and> act_ok k a"
    using assms i by (auto simp: tick_owner_def Let_def split: if_splits option.splits)
qed

section \<open>Runs\<close>

lemma inv_run_command:
  assumes inv: "ssh_inv m A"
    and out: "run_command run now now' did raw sud lab own cmd cols rows m = (m', reply, new)"
  shows "ssh_inv m' (A + mset new)"
proof (cases "new = []")
  case True
  then show ?thesis using out inv
    by (auto simp: run_command_def Let_def split: option.splits if_splits prod.splits)
next
  case False
  then obtain r l c w x where r: "current m did = Some r" "s_state (store m r) = Connected" "\<not> s_busy (store m r)"
    and m': "m' = edit r (reserve_run run l c w now now') m"
    and new: "new = [ExecStart r x]" "r_device x = did" "r_run x = run"
    using out by (auto simp: run_command_def Let_def split: option.splits if_splits prod.splits)
  note d = inv_currentD [OF inv r(1)]
  have none: "workers r A = 0" "attempts r A = 0"
    using d(4) r by (auto simp: session_ok_def)
  have ch: "changed r m m'" using inv by (simp add: changed_def ssh_inv_def m' reserve_run_def)
  have "ssh_inv m' (add_mset (ExecStart r x) A)"
  proof (rule inv_changed [OF inv ch])
    show "session_ok r (store m' r) (add_mset (ExecStart r x) A)"
      using d(4) none r by (simp add: session_ok_def m' reserve_run_def)
    show "others q A (add_mset (ExecStart r x) A)" if "q \<noteq> r" for q using that by (simp add: others_def)
    show "act_ok m' a" if "a \<in># add_mset (ExecStart r x) A" for a
    proof (cases "a = ExecStart r x")
      case True
      then show ?thesis using d(1,2) new by (simp add: m' reserve_run_def)
    next
      case False
      then have a: "a \<in># A" using that by simp
      then have "worker_ref a \<noteq> Some r" using workers_member none(1) by fastforce
      then show ?thesis using act_ok_changed [OF ch] a inv by (simp add: ssh_inv_def)
    qed
    show "current m d' = Some q \<and> (q = r \<longrightarrow> slot_ok m' (add_mset (ExecStart r x) A) d' r)"
      if "current m' d' = Some q" for d' q
      using that none r d inv_slot_unique [OF inv r(1), of d'] by (auto simp: m' reserve_run_def slot_ok_def)
    show "prompt_ok m' d' p" if "dict_get (pending m') d' = Some p" for d' p
      by (rule inv_prompt_keep [OF inv ch]) (use that in \<open>auto simp: m' reserve_run_def\<close>)
  qed
  then show ?thesis by (simp add: new)
qed

lemma inv_finish_exec:
  assumes inv: "ssh_inv m (add_mset (FinishExec r) A)" and out: "finish_exec r m = (m', new)"
  shows "ssh_inv m' (A + mset new)"
proof -
  have r: "r < next_ref m" "session_ok r (store m r) (add_mset (FinishExec r) A)"
    using inv by (auto simp: ssh_inv_def)
  then have none: "workers r A = 0" "attempts r A = 0" "s_busy (store m r)"
    by (auto simp: session_ok_def)
  let ?did = "s_device_id (store m r)"
  have "ssh_inv m' A"
  proof (rule inv_changed [OF inv])
    show ch: "changed r m m'"
      using out inv by (auto simp: finish_exec_def Let_def changed_def ssh_inv_def split: if_splits)
    show "session_ok r (store m' r) A"
      using out r none by (auto simp: finish_exec_def Let_def session_ok_def split: if_splits)
    show "others q (add_mset (FinishExec r) A) A" if "q \<noteq> r" for q using that by (simp add: others_def)
    show "act_ok m' a" if "a \<in># A" for a
      by (rule act_ok_changed [OF ch]) (use that inv none workers_member [OF that, of r] in \<open>auto simp: ssh_inv_def\<close>)
    show "current m d' = Some q \<and> (q = r \<longrightarrow> slot_ok m' A d' r)" if "current m' d' = Some q" for d' q
    proof -
      have c: "current m d' = Some q"
        using that out by (auto simp: finish_exec_def Let_def split: if_splits)
      show ?thesis
      proof (intro conjI impI)
        assume "q = r"
        then have cur: "current m ?did = Some r" "d' = ?did" using c inv_currentD(2) [OF inv c] by auto
        note d = inv_currentD [OF inv cur(1)]
        then show "slot_ok m' A d' r"
          using out cur none by (auto simp: finish_exec_def Let_def is_current_def slot_ok_def split: if_splits)
      qed (rule c)
    qed
    show "prompt_ok m' d' p" if "dict_get (pending m') d' = Some p" for d' p
      by (rule inv_prompt_keep [OF inv ch])
        (use that out in \<open>auto simp: finish_exec_def Let_def split: if_splits\<close>)
  qed
  moreover have "next_ref m' = next_ref m"
    using out by (auto simp: finish_exec_def Let_def split: if_splits)
  ultimately show ?thesis using out r(1)
    by (auto simp: finish_exec_def Let_def inv_quiet split: if_splits)
qed

section \<open>Terminal controls\<close>

lemma control_core:
  "same_core m (fst (claim_terminal j jr o1 so m))"
  "same_core m (fst (terminal_input j jr jv jd o1 so now m))"
  "same_core m (fst (terminal_resize j jr jv jc jw o1 so m))"
  "same_core m (terminal_ack j jr jq o1 now m)"
  "same_core m (fst (request_terminal_redraw did run o1 m))"
  "same_core m (writer_stuck did r rn ch m)"
  "same_core m (force_stop did r rn ch m)"
  by (auto simp: claim_terminal_def terminal_input_def terminal_resize_def terminal_ack_def
      request_terminal_redraw_def writer_stuck_def force_stop_def record_ack_def Let_def same_id_def
      split: option.splits json.splits bool.splits prod.splits intro!: same_core_edit)

lemma cancel_core:
  assumes "cancel did run own m = (m', reply, new, timer)"
  shows "same_core m m'" and "\<forall>a \<in> set (new @ timer). quiet a \<and> act_ok k a"
  using assms
  by (auto simp: cancel_def Let_def same_core_def same_id_def split: option.splits if_splits)

lemma stay_core: "same_core m (stay_connected own now now' m)"
proof -
  let ?f = "\<lambda>m (did :: string, r). if s_owner (store m r) = own \<and> s_busy (store m r)
         then edit r (\<lambda>s. s\<lparr>s_last_io := now'\<rparr>) m else m"
  have f: "same_core m (?f m x)" for m x
    by (cases x) (auto intro!: same_core_edit simp: same_id_def)
  have "same_core m0 (foldl ?f m0 xs)" for xs m0
  proof (induction xs arbitrary: m0)
    case (Cons x xs)
    show ?case using same_core_trans [OF f [of m0 x] Cons [of "?f m0 x"]] by (simp only: foldl_Cons)
  qed simp
  then show ?thesis unfolding stay_connected_def by (rule same_core_trans [rotated]) simp
qed

lemma snapshot_core: "same_core m (fst (owner_terminal_snapshot own now m))"
proof -
  have f: "same_core (fst acc) (fst (snapshot_device own now x acc))" for x acc
    by (cases x; cases acc)
      (auto simp: snapshot_device_def Let_def ack_all_def same_id_def split: option.splits intro!: same_core_edit)
  have "same_core (fst acc) (fst (fold (snapshot_device own now) xs acc))" for xs acc
  proof (induction xs arbitrary: acc)
    case (Cons x xs)
    show ?case using same_core_trans [OF f Cons] by simp
  qed simp
  from this [of "(m, [])" "sessions m"] show ?thesis
    by (simp add: owner_terminal_snapshot_def split_beta)
qed

section \<open>Every step\<close>

lemma inv_call:
  assumes inv: "ssh_inv m A" and out: "start_call c m = (m', ts)"
  shows "ssh_inv m' (A + mset (concat ts))"
proof (cases c)
  case (CallConnect did pw dev own now)
  then show ?thesis using out inv_connect [OF inv] by (auto split: prod.splits)
next
  case (CallDisconnect did own reason)
  then show ?thesis using out inv_disconnect [OF inv] by (auto split: prod.splits)
next
  case (CallDisconnectAll reason)
  then show ?thesis using out inv inv_quiets [of "disconnect_all reason m" m A]
    by (auto simp: disconnect_all_def)
next
  case (CallRelease own reason)
  then show ?thesis using out inv inv_quiets [of "release_owner own reason m" m A]
    by (auto simp: release_owner_def)
next
  case (CallTrust did code own now)
  then show ?thesis using out inv_trust [OF inv] by (auto split: prod.splits)
next
  case (CallReject did code own now)
  then show ?thesis using out inv_reject [OF inv] by (auto split: prod.splits)
next
  case (CallTick now)
  then show ?thesis using out inv inv_quiets [of "tick_idle now m" m A]
    by (auto simp: tick_idle_def sweep_expired_host_key_prompts_def)
next
  case (CallRun run now now' did raw sud lab own cmd cols rows)
  then show ?thesis using out inv_run_command [OF inv] by (auto split: prod.splits)
next
  case (CallCancel did run own)
  obtain m1 reply new timer where c: "cancel did run own m = (m1, reply, new, timer)"
    by (metis prod_cases4)
  note core = cancel_core [OF c]
  have "ssh_inv m1 (A + mset (new @ timer))"
    using inv_quiets [OF core(2)] inv_same_core [OF core(1) inv] by blast
  then show ?thesis using CallCancel c out by (auto simp: union_assoc)
next
  case (CallStay own now now')
  then show ?thesis using out inv_same_core [OF stay_core inv] by auto
next
  case (CallSnapshot own now)
  then show ?thesis using out inv_same_core [OF snapshot_core inv] by auto
qed (use out inv_same_core [OF control_core(1) inv] inv_same_core [OF control_core(2) inv]
      inv_same_core [OF control_core(3) inv] inv_same_core [OF control_core(4) inv]
      inv_same_core [OF control_core(5) inv] inv_same_core [OF control_core(6) inv] in auto)

lemma inv_act:
  assumes inv: "ssh_inv m (add_mset a A)" and out: "perform e a m = (m', new)"
  shows "ssh_inv m' (A + mset new)"
proof (cases "quiet a")
  case True
  then have A: "ssh_inv m A" and ok: "act_ok m a" using inv by (simp_all add: inv_quiet)
  have same: "same_core m m' \<Longrightarrow> \<forall>b \<in> set new. quiet b \<and> act_ok m' b \<Longrightarrow> ssh_inv m' (A + mset new)"
    using A inv_same_core inv_quiets by blast
  show ?thesis
  proof (cases a)
    case (ClearPending did)
    then show ?thesis using out inv_clear_pending [OF A] by auto
  next
    case (CloseSlot did sess reason)
    then show ?thesis using out inv_close_slot [OF A] by simp
  next
    case (SweepDevice now did)
    then show ?thesis using out inv_sweep_device [OF A] by simp
  next
    case (TickOwner now own)
    then show ?thesis using out tick_owner_core same by auto
  next
    case (SaveKey did r p)
    then show ?thesis using out same by (auto simp: trust_finish_def split: save_outcome.splits)
  next
    case (ReleasePrompts own)
    then show ?thesis using out same by (auto simp: release_prompts_def)
  next
    case (ForceStop did r run ch)
    then show ?thesis using out same control_core(7) by auto
  next
    case (StatusConnected r)
    then show ?thesis using out same by (auto simp: status_connected_def)
  qed (use out same True in \<open>auto simp: quiet_def\<close>)
next
  case False
  then consider r x where "worker_ref a = Some r" "worker_args a = Some x" | r where "a = FinishExec r"
    | did r own rep where "a = NetConnect did r own rep" | r where "a = CloseSession r"
    unfolding quiet_def by (cases a) auto
  then show ?thesis
  proof cases
    case (1 r x)
    then show ?thesis using inv_worker [OF inv] out by blast
  next
    case (2 r)
    then show ?thesis using inv_finish_exec inv out by simp
  next
    case (3 did r own rep)
    then show ?thesis using inv_connect_finish inv out by (auto split: prod.splits)
  next
    case (4 r)
    then show ?thesis using inv_close_session inv out by auto
  qed
qed

lemma inv_init: "ssh_inv new_manager {#}"
  by (simp add: ssh_inv_def new_manager_def)

interpretation ssh: invariant_system ssh_init ssh_step "\<lambda>s. ssh_inv (mgr s) (acts s)"
proof
  fix s assume "ssh_init s"
  then show "ssh_inv (mgr s) (acts s)" by (simp add: ssh_init_def acts_def inv_init)
next
  fix s t assume inv: "ssh_inv (mgr s) (acts s)" and "ssh_step s t"
  from this(2) show "ssh_inv (mgr t) (acts t)"
  proof (rule ssh_stepE)
    fix c m' ts
    assume "t = \<lparr>mgr = m', threads = threads s @ ts\<rparr>" "start_call c (mgr s) = (m', ts)"
    then show ?thesis using inv_call [OF inv] by (simp add: acts_def)
  next
    fix i a rest e m' new
    assume t: "t = \<lparr>mgr = m', threads = (threads s)[i := new @ rest]\<rparr>" "i < length (threads s)"
      "threads s ! i = a # rest" and p: "perform e a (mgr s) = (m', new)"
    have split: "add_mset a (acts t) = acts s + mset new"
      using acts_split [OF t(2,3), of new] t(1) by (simp add: acts_def)
    have "a \<in># acts s"
      using t(2,3) unfolding acts_def by (metis in_set_conv_nth list.set_intros(1) set_concat set_mset_mset UN_I)
    then obtain A where A: "acts s = add_mset a A" by (metis insert_DiffM)
    then have "acts t = A + mset new" using split by simp
    then show ?thesis using inv_act [OF _ p] inv A t(1) by simp
  qed
qed

end
