(* ===== verification/Ssh_Properties.thy ===== *)
theory Ssh_Properties
  imports Ssh_Invariant
begin

text \<open>
  What the invariant gives a user of the dashboard: a device belongs to one owner at a time, a
  host-key prompt can only be answered for the connection attempt that raised it, a session
  runs one command at a time, a worker that outlived its session disturbs nobody, and closed
  sessions lose their credentials. Then what the teardown calls achieve when nothing
  interferes, and two interleavings in which they disturb a newer session.
\<close>

section \<open>How slots move\<close>

text \<open>
  A slot keeps its session, becomes empty, or gets the newest session; a session that is
  replaced directly is closed and its successor has the same owner. The identity of a session
  never changes, and a closed session stays closed.
\<close>

definition slots_move :: "manager \<Rightarrow> manager \<Rightarrow> bool" where
  "slots_move m m' \<longleftrightarrow> next_ref m \<le> next_ref m'
     \<and> (\<forall>r < next_ref m. s_device_id (store m' r) = s_device_id (store m r)
          \<and> s_owner (store m' r) = s_owner (store m r) \<and> s_generation (store m' r) = s_generation (store m r)
          \<and> (s_state (store m r) = Closed \<longrightarrow> s_state (store m' r) = Closed))
     \<and> (\<forall>d r'. current m' d = Some r' \<longrightarrow> current m d = Some r'
          \<or> (r' = next_ref m \<and> r' < next_ref m' \<and> (\<forall>r. current m d = Some r \<longrightarrow>
               s_owner (store m' r') = s_owner (store m r) \<and> s_state (store m' r) = Closed)))"

lemma slots_move_core: "same_core m m' \<Longrightarrow> slots_move m m'"
  by (simp add: slots_move_def same_core_def same_id_def)

lemma slots_move_frame:
  assumes "changed r m m'" "\<And>d q. current m' d = Some q \<Longrightarrow> current m d = Some q"
    and "s_state (store m r) = Closed \<Longrightarrow> s_state (store m' r) = Closed"
  shows "slots_move m m'"
proof -
  have "s_device_id (store m' q) = s_device_id (store m q) \<and> s_owner (store m' q) = s_owner (store m q)
      \<and> s_generation (store m' q) = s_generation (store m q)
      \<and> (s_state (store m q) = Closed \<longrightarrow> s_state (store m' q) = Closed)" for q
    using assms(1,3) by (cases "q = r") (auto simp: changed_def)
  then show ?thesis using assms(1,2) by (auto simp: slots_move_def changed_def)
qed

lemma changed_edit:
  "ssh_inv m A \<Longrightarrow> s_device_id (f (store m r)) = s_device_id (store m r) \<Longrightarrow>
   s_owner (f (store m r)) = s_owner (store m r) \<Longrightarrow> s_generation (f (store m r)) = s_generation (store m r) \<Longrightarrow>
   changed r m (edit r f m)"
  by (simp add: changed_def ssh_inv_def)

lemma move_close_slot:
  assumes inv: "ssh_inv m A" and out: "close_slot did sess reason m = (m', new)"
  shows "slots_move m m'"
proof (cases "m' = m")
  case False
  then obtain r where "m' = edit r retire (drop_slot did m)"
    using out by (auto simp: close_slot_def split: option.splits if_splits)
  then show ?thesis
    using inv by (intro slots_move_frame [of r]) (auto simp: changed_def ssh_inv_def split: if_splits)
qed (simp add: slots_move_core)

lemma move_disconnect:
  assumes inv: "ssh_inv m A" and out: "disconnect did own reason m = (m', reply, new)"
  shows "slots_move m m'"
proof (cases "m' = m")
  case False
  then obtain r where "m' = edit r retire (drop_slot did m)"
    using out by (auto simp: disconnect_def split: option.splits if_splits)
  then show ?thesis
    using inv by (intro slots_move_frame [of r]) (auto simp: changed_def ssh_inv_def split: if_splits)
qed (simp add: slots_move_core)

lemma move_clear: "ssh_inv m A \<Longrightarrow> slots_move m (clear_pending did m)"
  by (rule slots_move_frame [of 0]) (auto simp: clear_pending_def changed_def ssh_inv_def)

lemma move_connect:
  assumes inv: "ssh_inv m A" and out: "connect did pw dev own now m = (m', reply, new)"
  shows "slots_move m m'"
proof (cases "current m did")
  case None
  then have "m' = reserve did pw dev own now m" using out by (simp add: connect_def)
  then show ?thesis using None by (auto simp: slots_move_def)
next
  case (Some r)
  note d = inv_currentD [OF inv Some]
  have live: "live (store m r)" using d(3) by (cases "s_state (store m r)") (auto simp: live_def)
  show ?thesis
  proof (cases "s_owner (store m r) = own")
    case False
    then show ?thesis using out Some live by (auto simp: connect_def slots_move_core)
  next
    case True
    then have m': "m' = reserve did pw dev own now (edit r retire m)"
      using out Some live by (simp add: connect_def)
    have old: "store m' q = (if q = r then retire (store m r) else store m q)" if "q < next_ref m" for q
      using that by (simp add: m' reserve_def)
    have "s_owner (store m' (next_ref m)) = own"
      using reserve_new(3) [of did pw dev own now "edit r retire m"] by (simp add: m')
    then show ?thesis
      using Some True d(1) old by (auto simp: slots_move_def m')
  qed
qed

lemma move_connect_finish:
  assumes inv: "ssh_inv m (add_mset (NetConnect did r own rep) A)"
    and out: "connect_finish oc code now did r own rep m = (m', reply, new)"
  shows "slots_move m m'"
proof (rule slots_move_frame [of r])
  note d = inv_attemptD [OF inv]
  show "changed r m m'"
    using out inv
    by (auto simp: connect_finish_def raise_prompt_def connect_failed_def changed_def ssh_inv_def Let_def
        split: net_outcome.splits if_splits)
  show "current m d = Some q" if "current m' d = Some q" for d q
    using out that
    by (auto simp: connect_finish_def raise_prompt_def connect_failed_def Let_def
        split: net_outcome.splits if_splits)
  show "s_state (store m' r) = Closed" if "s_state (store m r) = Closed"
  proof -
    have "\<not> is_current m did r" using inv_currentD(3) [OF inv, of did r] that by (auto simp: is_current_def)
    then show ?thesis using out that
      by (auto simp: connect_finish_def raise_prompt_def connect_failed_def is_current_def Let_def
          split: net_outcome.splits if_splits)
  qed
qed

lemma move_call:
  assumes inv: "ssh_inv m A" and out: "start_call c m = (m', ts)"
  shows "slots_move m m'"
proof (cases c)
  case (CallConnect did pw dev own now)
  then show ?thesis using out move_connect [OF inv] by (auto split: prod.splits)
next
  case (CallDisconnect did own reason)
  then show ?thesis using out move_disconnect [OF inv] by (auto split: prod.splits)
next
  case (CallTrust did code own now)
  then show ?thesis using out move_clear [OF inv] slots_move_core [of m m]
    by (auto simp: trust_host_key_def split: option.splits)
next
  case (CallReject did code own now)
  then show ?thesis using out move_clear [OF inv] slots_move_core [of m m]
    by (auto simp: reject_host_key_def split: option.splits)
next
  case (CallRun run now now' did raw sud lab own cmd cols rows)
  obtain reply new where o: "run_command run now now' did raw sud lab own cmd cols rows m = (m', reply, new)"
    using out CallRun by (auto split: prod.splits)
  show ?thesis
  proof (cases "m' = m")
    case False
    then obtain r l c w where "m' = edit r (reserve_run run l c w now now') m"
      using o by (auto simp: run_command_def Let_def split: option.splits if_splits prod.splits)
    then show ?thesis
      using inv by (intro slots_move_frame [of r]) (auto simp: changed_def ssh_inv_def reserve_run_def)
  qed (simp add: slots_move_core)
next
  case (CallCancel did run own)
  obtain m1 reply new timer where c: "cancel did run own m = (m1, reply, new, timer)"
    by (metis prod_cases4)
  then show ?thesis using CallCancel out cancel_core(1) [OF c] by (auto intro: slots_move_core)
next
  case (CallStay own now now')
  then show ?thesis using out slots_move_core [OF stay_core] by auto
next
  case (CallSnapshot own now)
  then show ?thesis using out slots_move_core [OF snapshot_core] by auto
qed (use out slots_move_core [OF control_core(1)] slots_move_core [OF control_core(2)]
      slots_move_core [OF control_core(3)] slots_move_core [OF control_core(4)]
      slots_move_core [OF control_core(5)] slots_move_core [OF control_core(6)] slots_move_core [of m m] in auto)

lemma move_act:
  assumes inv: "ssh_inv m (add_mset a A)" and out: "perform e a m = (m', new)"
  shows "slots_move m m'"
proof -
  consider r x where "worker_ref a = Some r" "worker_args a = Some x"
    | "same_core m m'" | r where "a = FinishExec r"
    | did r own rep where "a = NetConnect did r own rep" | r where "a = CloseSession r"
    | did where "a = ClearPending did" | did sess reason where "a = CloseSlot did sess reason"
    | now did where "a = SweepDevice now did" | now own where "a = TickOwner now own"
    | did r run ch where "a = ForceStop did r run ch"
    using out by (cases a) (auto simp: status_connected_def)
  then show ?thesis
  proof cases
    case (1 r x)
    then show ?thesis
      using worker_continues [OF 1, of m e] out
      by (auto simp: continues_def intro!: slots_move_core local_same_core)
  next
    case (3 r)
    have ch: "changed r m m'" "\<And>d. current m' d = current m d" "s_state (store m' r) = s_state (store m r)"
      using out 3 inv by (auto simp: finish_exec_def Let_def changed_def ssh_inv_def split: if_splits)
    then show ?thesis by (intro slots_move_frame [of r]) auto
  next
    case (4 did r own rep)
    then show ?thesis using move_connect_finish inv out by (auto split: prod.splits)
  next
    case (5 r)
    then show ?thesis using out inv
      by (intro slots_move_frame [of r]) (auto simp: changed_def ssh_inv_def)
  next
    case (6 did)
    then show ?thesis using move_clear [OF inv] out by auto
  next
    case (7 did sess reason)
    then show ?thesis using move_close_slot [OF inv] out by simp
  next
    case (8 now did)
    then have "m' = m \<or> m' = clear_pending did m"
      using out by (auto simp: sweep_device_def split: option.splits if_splits)
    then show ?thesis using move_clear [OF inv] slots_move_core [of m m] by auto
  next
    case (9 now own)
    then show ?thesis using out tick_owner_core(1) slots_move_core by auto
  next
    case (10 did r run ch)
    then show ?thesis using out slots_move_core [OF control_core(7)] by auto
  qed (rule slots_move_core)
qed

lemma move_step:
  assumes inv: "ssh_inv (mgr s) (acts s)" and "ssh_step s t"
  shows "slots_move (mgr s) (mgr t)"
  using assms(2)
proof (rule ssh_stepE)
  fix c m' ts
  assume "t = \<lparr>mgr = m', threads = threads s @ ts\<rparr>" "start_call c (mgr s) = (m', ts)"
  then show ?thesis using move_call [OF inv] by simp
next
  fix i a rest e m' new
  assume t: "t = \<lparr>mgr = m', threads = (threads s)[i := new @ rest]\<rparr>" "i < length (threads s)"
    "threads s ! i = a # rest" and p: "perform e a (mgr s) = (m', new)"
  have "a \<in># acts s"
    using t(2,3) unfolding acts_def by (metis in_set_conv_nth list.set_intros(1) set_concat set_mset_mset UN_I)
  then obtain A where "acts s = add_mset a A" by (metis insert_DiffM)
  then show ?thesis using move_act [OF _ p] inv t(1) by simp
qed

abbreviation ssh_reachable :: "ssh_sys \<Rightarrow> bool" where
  "ssh_reachable \<equiv> reachable ssh_init ssh_step"

text \<open>A session that is out of its slot never comes back.\<close>

lemma never_back:
  assumes "ssh_reachable s" "ssh_step\<^sup>*\<^sup>* s t" "r < next_ref (mgr s)" "\<forall>d. current (mgr s) d \<noteq> Some r"
  shows "r < next_ref (mgr t) \<and> (\<forall>d. current (mgr t) d \<noteq> Some r)
    \<and> s_generation (store (mgr t) r) = s_generation (store (mgr s) r)"
  using assms(2)
proof (induction rule: rtranclp_induct)
  case base
  then show ?case using assms by simp
next
  case (step t u)
  have "ssh_reachable t" using ssh.reachable_steps [OF assms(1) step(1)] .
  then have "slots_move (mgr t) (mgr u)" using move_step [OF ssh.reachable_inv step(2)] by simp
  then show ?case using step(3) unfolding slots_move_def by (metis less_irrefl order_less_le_trans)
qed

section \<open>A reachable run, for the witnesses\<close>

text \<open>Alice connects to d1 and starts a command; nothing else happens.\<close>

definition any_env :: env where
  "any_env = \<lparr>e_now = 1, e_net = NetOk, e_code = ''c'', e_saved = Saved, e_chan = Some 0,
     e_read = ReadException, e_watching = True, e_room = True, e_shut = False\<rparr>"

definition dev1 :: device where
  "dev1 = \<lparr>d_host = lit ''h'', d_username = lit ''u''\<rparr>"

definition begin_call :: "call \<Rightarrow> ssh_sys \<Rightarrow> ssh_sys" where
  "begin_call c s = (let (m', ts) = start_call c (mgr s) in \<lparr>mgr = m', threads = threads s @ ts\<rparr>)"

definition run_first :: "env \<Rightarrow> nat \<Rightarrow> ssh_sys \<Rightarrow> ssh_sys" where
  "run_first e i s = (case threads s ! i of [] \<Rightarrow> s
     | a # rest \<Rightarrow> if i < length (threads s)
         then (let (m', new) = perform e a (mgr s) in \<lparr>mgr = m', threads = (threads s)[i := new @ rest]\<rparr>)
         else s)"

lemma begin_reachable: "ssh_reachable s \<Longrightarrow> ssh_reachable (begin_call c s)"
  by (rule reach_step) (auto simp: begin_call_def split_beta intro: step_call)

lemma run_first_reachable:
  assumes "ssh_reachable s" shows "ssh_reachable (run_first e i s)"
proof (cases "threads s ! i")
  case (Cons a rest)
  then show ?thesis
    using assms reach_step [OF assms step_act, of i a rest e]
    by (simp add: run_first_def split_beta)
qed (use assms in \<open>simp add: run_first_def\<close>)

definition empty_sys :: ssh_sys where
  "empty_sys = \<lparr>mgr = new_manager, threads = []\<rparr>"

lemma empty_reachable: "ssh_reachable empty_sys"
  by (rule reach_init) (simp add: ssh_init_def empty_sys_def)

definition alice_connects :: ssh_sys where
  "alice_connects = begin_call (CallConnect ''d1'' [112] dev1 ''alice'' 0) empty_sys"

definition alice_prompted :: ssh_sys where
  "alice_prompted = run_first (any_env\<lparr>e_net := NetUnknownKey (lit ''h'') ([1], [2])\<rparr>) 0 alice_connects"

definition alice_connected :: ssh_sys where
  "alice_connected = run_first any_env 0 alice_connects"

definition alice_runs :: ssh_sys where
  "alice_runs = begin_call (CallRun ''r1'' 2 2 ''d1'' (Some [108, 115]) False None (Some ''alice'') None None None)
     alice_connected"

lemmas trace_defs = begin_call_def run_first_def empty_sys_def new_manager_def any_env_def dev1_def
  connect_def reserve_def new_session_def connect_finish_def raise_prompt_def is_current_def edit_def
  live_def push_msg_def run_command_def reserve_run_def clamp_size_def strip_def py_space_def Let_def

lemma alice_reachable:
  "ssh_reachable alice_connects" "ssh_reachable alice_prompted" "ssh_reachable alice_connected"
  "ssh_reachable alice_runs"
  unfolding alice_runs_def alice_connected_def alice_prompted_def alice_connects_def
  by (intro begin_reachable run_first_reachable empty_reachable)+

lemma alice_connects_simp:
  "current (mgr alice_connects) ''d1'' = Some 0" "s_owner (store (mgr alice_connects) 0) = ''alice''"
  "threads alice_connects = [[NetConnect ''d1'' 0 ''alice'' False]]"
  "s_state (store (mgr alice_connects) 0) = Connecting"
  "s_generation (store (mgr alice_connects) 0) = 1"
  by (simp_all add: alice_connects_def trace_defs)

section \<open>Properties\<close>

text \<open>
  C4. A device belongs to one signed-in owner at a time. Whatever has happened before, while
  any session (connecting, connected or waiting for a host-key answer) holds the slot, a
  connect by another owner is refused and changes nothing; and no single step of any thread
  hands the slot to a different owner: a session replaced directly is closed and its successor
  has the same owner.
\<close>
theorem device_exclusive:
  assumes "ssh_reachable s" and "current (mgr s) did = Some r"
  shows "(s_owner (store (mgr s) r) \<noteq> own \<longrightarrow>
            connect did pw dev own now (mgr s) = (mgr s, Some InUse, [])
          \<and> disconnect did (Some own) reason (mgr s) = (mgr s, NotOwner, []))
    \<and> (\<forall>t r'. ssh_step s t \<and> current (mgr t) did = Some r' \<longrightarrow>
          s_owner (store (mgr t) r') = s_owner (store (mgr s) r)
        \<and> (r' \<noteq> r \<longrightarrow> s_state (store (mgr t) r) = Closed \<and> s_state (store (mgr t) r') \<noteq> Closed))"
proof -
  note inv = ssh.reachable_inv [OF assms(1)]
  note d = inv_currentD [OF inv assms(2)]
  have "live (store (mgr s) r)" using d(3) by (cases "s_state (store (mgr s) r)") (auto simp: live_def)
  moreover have "s_owner (store (mgr t) r') = s_owner (store (mgr s) r)
        \<and> (r' \<noteq> r \<longrightarrow> s_state (store (mgr t) r) = Closed \<and> s_state (store (mgr t) r') \<noteq> Closed)"
    if t: "ssh_step s t" "current (mgr t) did = Some r'" for t r'
  proof -
    have "slots_move (mgr s) (mgr t)" by (rule move_step [OF inv t(1)])
    moreover have "s_state (store (mgr t) r') \<noteq> Closed"
      by (rule inv_currentD(3) [OF ssh.step_inv [OF inv t(1)] t(2)])
    ultimately show ?thesis using assms(2) t(2) d(1) unfolding slots_move_def by fastforce
  qed
  ultimately show ?thesis using assms(2) by (auto simp: connect_def disconnect_def)
qed

theorem device_exclusive_witness:
  "connect ''d1'' [] dev1 ''bob'' 5 (mgr alice_connects) = (mgr alice_connects, Some InUse, [])"
  using device_exclusive [OF alice_reachable(1) alice_connects_simp(1), of "''bob''"]
  by (simp add: alice_connects_simp)

text \<open>
  C5. An answer to a host-key prompt counts only for the connection attempt that raised it. If
  \<open>trust_host_key\<close> accepts, the slot holds a session of this owner that waits for the
  answer, the prompt carries its generation, the code is the prompt's and at most 300 seconds
  old, exactly its key is saved, and a second answer is refused; and once that session has
  left the slot, no later state lets anybody answer the prompt.
\<close>
theorem prompt_bound_to_attempt:
  assumes "ssh_reachable s" and "trust_host_key did code own now (mgr s) = (m', None, new)"
  shows "\<exists>r p. current (mgr s) did = Some r \<and> dict_get (pending (mgr s)) did = Some p
     \<and> s_state (store (mgr s) r) = HostKeyPending \<and> s_owner (store (mgr s) r) = own
     \<and> p_generation p = s_generation (store (mgr s) r) \<and> p_owner p = own
     \<and> p_code p = (case code of None \<Rightarrow> [] | Some c \<Rightarrow> c) \<and> now - p_created_at p \<le> 300
     \<and> new = [SaveKey did r p]
     \<and> (\<forall>code' own' now'. trust_host_key did code' own' now' m' = (m', Some Expired, []))
     \<and> (\<forall>t code' own' now'. ssh_step\<^sup>*\<^sup>* s t \<and> current (mgr t) did \<noteq> Some r \<longrightarrow>
           valid_prompt did code' own' now' (mgr t) \<noteq> Some p)"
proof -
  note inv = ssh.reachable_inv [OF assms(1)]
  obtain p r where p: "valid_prompt did code own now (mgr s) = Some p" and r: "current (mgr s) did = Some r"
    and m': "m' = clear_pending did (mgr s)" and new: "new = [SaveKey did r p]"
    using assms(2) by (auto simp: trust_host_key_def split: option.splits)
  have v: "dict_get (pending (mgr s)) did = Some p" "s_state (store (mgr s) r) = HostKeyPending"
    "p_generation p = s_generation (store (mgr s) r)" "p_owner p = own"
    "p_code p = (case code of None \<Rightarrow> [] | Some c \<Rightarrow> c)" "now - p_created_at p \<le> 300"
    using p r by (auto simp: valid_prompt_def HOST_KEY_PENDING_SECONDS_def not_less split: option.splits if_splits)
  note d = inv_currentD [OF inv r]
  have g: "s_generation (store (mgr s) r) = Suc r" using d(4) by (simp add: session_ok_def)
  have "prompt_ok (mgr s) did p" using inv v(1) by (simp add: ssh_inv_def)
  then have own: "s_owner (store (mgr s) r) = own" using v(3,4) g by (auto simp: prompt_ok_def)
  have "valid_prompt did code' own' now' (mgr t) \<noteq> Some p"
    if t: "ssh_step\<^sup>*\<^sup>* s t" "current (mgr t) did \<noteq> Some r" for t code' own' now'
  proof
    assume "valid_prompt did code' own' now' (mgr t) = Some p"
    then obtain r' where r': "current (mgr t) did = Some r'" "s_generation (store (mgr t) r') = p_generation p"
      by (auto simp: valid_prompt_def split: option.splits if_splits)
    have "session_ok r' (store (mgr t) r') (acts t)"
      by (rule inv_currentD(4) [OF ssh.reachable_inv [OF ssh.reachable_steps [OF assms(1) t(1)]] r'(1)])
    then show False using r' v(3) g t(2) by (simp add: session_ok_def)
  qed
  moreover have "trust_host_key did code' own' now' m' = (m', Some Expired, [])" for code' own' now'
    by (simp add: trust_host_key_def valid_prompt_def m' clear_pending_def dict_simps)
  ultimately show ?thesis using r v own new by blast
qed

theorem prompt_bound_to_attempt_witness:
  "\<exists>r p. trust_host_key ''d1'' (Some ''c'') ''alice'' 9 (mgr alice_prompted)
      = (clear_pending ''d1'' (mgr alice_prompted), None, [SaveKey ''d1'' r p])
    \<and> s_owner (store (mgr alice_prompted) r) = ''alice''"
proof -
  have "\<exists>r p. trust_host_key ''d1'' (Some ''c'') ''alice'' 9 (mgr alice_prompted)
      = (clear_pending ''d1'' (mgr alice_prompted), None, [SaveKey ''d1'' r p])"
    by (simp add: alice_prompted_def alice_connects_def trace_defs trust_host_key_def valid_prompt_def
        HOST_KEY_PENDING_SECONDS_def)
  then show ?thesis using prompt_bound_to_attempt [OF alice_reachable(2)] by blast
qed

text \<open>When a run is accepted, and what it makes of the session.\<close>

lemma run_command_Ok:
  assumes "run_command run now now' did raw sud lab (Some own) cmd cols rows m = (m', RunOk x, new)"
    and "current m did = Some r"
  shows "s_state (store m r) = Connected" "s_owner (store m r) = own" "\<not> s_busy (store m r)"
    "strip (case raw of None \<Rightarrow> [] | Some t \<Rightarrow> t) \<noteq> []"
    "current m' did = Some r" "s_state (store m' r) = Connected" "s_owner (store m' r) = own" "s_busy (store m' r)"
proof -
  obtain c w where cw: "clamp_size cols rows = (c, w)" by force
  show "s_state (store m r) = Connected" "s_owner (store m r) = own" "\<not> s_busy (store m r)"
    "strip (case raw of None \<Rightarrow> [] | Some t \<Rightarrow> t) \<noteq> []"
    "current m' did = Some r" "s_state (store m' r) = Connected" "s_owner (store m' r) = own" "s_busy (store m' r)"
    using assms by (auto simp: run_command_def Let_def cw reserve_run_def split: if_splits)
qed

lemma run_command_busy:
  assumes "current m did = Some r" "s_state (store m r) = Connected" "s_owner (store m r) = own"
    "s_busy (store m r)" "strip (case raw of None \<Rightarrow> [] | Some t \<Rightarrow> t) \<noteq> []"
  shows "run_command run now now' did raw sud lab (Some own) cmd cols rows m = (m, RunBusy, [])"
  using assms by (simp add: run_command_def Let_def split_beta)

text \<open>
  C6. A session runs one command at a time. In every reachable state a session has at most one
  worker, and the session in a slot has one exactly while it is busy; and a run is accepted
  only where no worker of the session is left, not even a finishing one, by the session's
  owner, and a second request right after it is refused.
\<close>
theorem one_worker_per_session:
  assumes "ssh_reachable s" and "r < next_ref (mgr s)"
  shows "workers r (acts s) \<le> 1
    \<and> (current (mgr s) did = Some r \<longrightarrow> workers r (acts s) = (if s_busy (store (mgr s) r) then 1 else 0))
    \<and> (\<forall>m' new x. current (mgr s) did = Some r
          \<and> run_command run now now' did raw sud lab (Some own) cmd cols rows (mgr s) = (m', RunOk x, new) \<longrightarrow>
            workers r (acts s) = 0 \<and> s_owner (store (mgr s) r) = own \<and> s_state (store (mgr s) r) = Connected
          \<and> snd (run_command run now now' did raw sud lab (Some own) cmd cols rows m') = (RunBusy, []))"
proof -
  note inv = ssh.reachable_inv [OF assms(1)]
  have ok: "session_ok r (store (mgr s) r) (acts s)" using inv assms(2) by (simp add: ssh_inv_def)
  have busy: "workers r (acts s) = (if s_busy (store (mgr s) r) then 1 else 0)"
    if "current (mgr s) did = Some r"
    using ok inv_currentD(5) [OF inv that]
    by (cases "s_busy (store (mgr s) r)") (simp_all add: session_ok_def slot_ok_def)
  have "workers r (acts s) = 0 \<and> s_owner (store (mgr s) r) = own \<and> s_state (store (mgr s) r) = Connected
          \<and> snd (run_command run now now' did raw sud lab (Some own) cmd cols rows m') = (RunBusy, [])"
    if c: "current (mgr s) did = Some r"
      and out: "run_command run now now' did raw sud lab (Some own) cmd cols rows (mgr s) = (m', RunOk x, new)"
    for m' new x
  proof -
    note g = run_command_Ok [OF out c]
    show ?thesis using g(1-3) busy [OF c] run_command_busy [OF g(5-8,4)] by simp
  qed
  moreover have "workers r (acts s) \<le> 1" using ok by (simp add: session_ok_def)
  ultimately show ?thesis using busy by blast
qed

theorem one_worker_per_session_witness:
  "workers 0 (acts alice_runs) = 1 \<and> current (mgr alice_runs) ''d1'' = Some 0"
proof -
  have 1: "0 < next_ref (mgr alice_runs)" "current (mgr alice_runs) ''d1'' = Some 0"
    "s_busy (store (mgr alice_runs) 0)"
    by (simp_all add: alice_runs_def alice_connected_def alice_connects_def trace_defs)
  show ?thesis using one_worker_per_session [OF alice_reachable(4) 1(1), of "''d1''"] 1 by simp
qed

text \<open>
  C7. A worker that outlived its session disturbs nobody. Once its session is out of the slot,
  whatever the worker does next, the slots, the prompts, the owners' idle clocks and every
  other session stay as they are; and each message it still pushes carries its session's
  generation and is dropped by \<open>_deliver\<close> in every later state.
\<close>
theorem stale_worker_harmless:
  assumes "ssh_reachable s" and "a \<in># acts s" and "worker_ref a = Some r"
    and "current (mgr s) (s_device_id (store (mgr s) r)) \<noteq> Some r"
    and "perform e a (mgr s) = (m', new)"
  shows "sessions m' = sessions (mgr s) \<and> pending m' = pending (mgr s) \<and> activity m' = activity (mgr s)
    \<and> (\<forall>q. q \<noteq> r \<longrightarrow> store m' q = store (mgr s) q)
    \<and> (\<forall>b \<in> set new. worker_ref b = Some r)
    \<and> (\<exists>ps. pushes m' = pushes (mgr s) @ ps
          \<and> (\<forall>p \<in> set ps. \<forall>t. ssh_step\<^sup>*\<^sup>* s t \<longrightarrow> deliver (mgr t) p = None))"
proof -
  note inv = ssh.reachable_inv [OF assms(1)]
  have ok: "act_ok (mgr s) a" using inv assms(2) by (simp add: ssh_inv_def)
  have r: "r < next_ref (mgr s)" by (rule act_ok_workerD(1) [OF ok assms(3)])
  have g: "s_generation (store (mgr s) r) = Suc r" using inv r by (simp add: ssh_inv_def session_ok_def)
  have out: "\<forall>d. current (mgr s) d \<noteq> Some r" using assms(4) inv_currentD(2) [OF inv] by metis
  have drop: "deliver (mgr t) p = None" if t: "ssh_step\<^sup>*\<^sup>* s t" and p: "stamped (Suc r) d p" for t p d
  proof -
    have gone: "\<forall>d. current (mgr t) d \<noteq> Some r" using never_back [OF assms(1) t r out] by blast
    have "s_generation (store (mgr t) q) \<noteq> Suc r" if "current (mgr t) d = Some q" for q
    proof -
      have "s_generation (store (mgr t) q) = Suc q"
        using inv_currentD(4) [OF ssh.reachable_inv [OF ssh.reachable_steps [OF assms(1) t]] that]
        by (simp add: session_ok_def)
      then show ?thesis using gone that by auto
    qed
    then show ?thesis using p by (simp add: deliver_def stamped_def split: option.splits)
  qed
  show ?thesis
  proof (cases "worker_args a")
    case (Some x)
    have "continues r x (mgr s) (m', new)" using worker_continues [OF assms(3) Some, of "mgr s" e] assms(5) by simp
    then obtain ps where l: "pushes m' = pushes (mgr s) @ ps" "\<forall>p \<in> set ps. stamped (Suc r) (r_device x) p"
      "sessions m' = sessions (mgr s)" "pending m' = pending (mgr s)" "activity m' = activity (mgr s)"
      "\<forall>q. q \<noteq> r \<longrightarrow> store m' q = store (mgr s) q" "\<forall>b \<in> set new. worker_ref b = Some r"
      using g by (auto simp: continues_def local_change_def)
    then show ?thesis using drop by blast
  next
    case None
    then have "a = FinishExec r" using assms(3) by (cases a) auto
    then show ?thesis using assms(4,5) by (auto simp: finish_exec_def Let_def is_current_def)
  qed
qed

definition alice_left :: ssh_sys where
  "alice_left = begin_call (CallDisconnect ''d1'' (Some ''alice'') ''user'') alice_runs"

theorem stale_worker_harmless_witness:
  "\<exists>a r m' new. worker_ref a = Some r \<and> a \<in># acts alice_left \<and> perform any_env a (mgr alice_left) = (m', new)
     \<and> sessions m' = sessions (mgr alice_left) \<and> pending m' = pending (mgr alice_left)"
proof -
  let ?x = "\<lparr>r_device = ''d1'', r_run = ''r1'', r_label = lit ''Custom command'', r_sudo = False,
    r_cmd_id = None, r_cols = 120, r_rows = 30, r_started = False\<rparr>"
  have reach: "ssh_reachable alice_left"
    unfolding alice_left_def by (intro begin_reachable alice_reachable)
  have a: "ExecStart 0 ?x \<in># acts alice_left"
    by (simp add: acts_def alice_left_def alice_runs_def alice_connected_def alice_connects_def trace_defs
        disconnect_def TERM_DEFAULT_COLS_def TERM_DEFAULT_ROWS_def TERM_MIN_COLS_def TERM_MAX_COLS_def
        TERM_MIN_ROWS_def TERM_MAX_ROWS_def)
  have out: "current (mgr alice_left) (s_device_id (store (mgr alice_left) 0)) \<noteq> Some 0"
    by (simp add: alice_left_def alice_runs_def alice_connected_def alice_connects_def trace_defs
        disconnect_def drop_slot_def)
  obtain m' new where p: "perform any_env (ExecStart 0 ?x) (mgr alice_left) = (m', new)" by force
  have w: "worker_ref (ExecStart 0 ?x) = Some 0" by simp
  note h = stale_worker_harmless [OF reach a w out p]
  show ?thesis
    by (rule exI [of _ "ExecStart 0 ?x"], rule exI [of _ 0], rule exI [of _ m'], rule exI [of _ new])
      (use h a p w in blast)
qed

text \<open>
  C8. Closing a session clears its password and closes its client. In every reachable state
  each closed session has no password and no client, or the thread that closed it has the
  clearing among its next actions; so whenever all threads are done, no closed session keeps a
  credential, whatever connects, disconnects and timeouts were interleaved.
\<close>
theorem closed_sessions_wiped:
  assumes "ssh_reachable s" and "r < next_ref (mgr s)" and "s_state (store (mgr s) r) = Closed"
  shows "(s_password (store (mgr s) r) = None \<and> \<not> s_client (store (mgr s) r))
         \<or> CloseSession r \<in># acts s"
  using ssh.reachable_inv [OF assms(1)] assms(2,3) by (simp add: ssh_inv_def session_ok_def)

theorem closed_sessions_wiped_witness:
  "CloseSession 0 \<in># acts alice_left
   \<or> (s_password (store (mgr alice_left) 0) = None \<and> \<not> s_client (store (mgr alice_left) 0))"
proof -
  have "ssh_reachable alice_left"
    unfolding alice_left_def by (intro begin_reachable alice_reachable)
  moreover have "0 < next_ref (mgr alice_left)" "s_state (store (mgr alice_left) 0) = Closed"
    by (simp_all add: alice_left_def alice_runs_def alice_connected_def alice_connects_def trace_defs
        disconnect_def drop_slot_def retire_def)
  ultimately show ?thesis using closed_sessions_wiped by blast
qed

end
