(* ===== verification/Ws_Manager.thy ===== *)
theory Ws_Manager
  imports Prelude Config Py_Text
begin

text \<open>
  The WebSocket manager (\<open>ws_manager.py\<close>): for every connected socket its owner, its id, its
  selected device, and an outbound queue drained by a sender coroutine. All of it runs on the
  event loop, so a step is the code between two awaits: a call, or a piece of a sender.

  A frame is its text (opaque, with the length the accounting uses) and the check
  \<open>still_current\<close> made when it is about to be sent; what the check answers, and whether a send
  succeeds, is the environment's.
\<close>

record 'd frame =
  f_data :: 'd
  f_size :: nat
  f_check :: bool

datatype 'd sender = Waiting | Draining | Sending "'d frame"

record 'd sock =
  s_queue :: "'d frame list"
  s_bytes :: int
  s_ready :: bool
  s_event :: bool
  s_sender :: "'d sender"
  s_done :: "('d frame \<times> bool) list"

text \<open>
  \<open>s_done\<close> is what the browser's side can observe, and no code reads it: every frame the sender
  has finished with, and whether it was sent (or dropped as no longer current).
\<close>

record 'd ws_mgr =
  connections :: "nat list"
  owners :: "(nat, string) dict"
  socket_ids :: "(nat, string) dict"
  selections :: "(nat, json) dict"
  states :: "(nat, 'd sock) dict"
  closing :: "nat list"

definition new_ws_mgr :: "'d ws_mgr" where
  "new_ws_mgr = \<lparr>connections = [], owners = [], socket_ids = [], selections = [], states = [], closing = []\<rparr>"

definition new_sock :: "'d sock" where
  "new_sock = \<lparr>s_queue = [], s_bytes = 0, s_ready = False, s_event = False, s_sender = Waiting,
     s_done = []\<rparr>"

section \<open>Queues\<close>

definition put_frame :: "'d frame \<Rightarrow> 'd sock \<Rightarrow> 'd sock" where
  "put_frame f s = s\<lparr>s_queue := s_queue s @ [f], s_bytes := s_bytes s + int (f_size f)\<rparr>"

definition put_first :: "'d frame \<Rightarrow> 'd sock \<Rightarrow> 'd sock" where
  "put_first f s = s\<lparr>s_queue := f # s_queue s, s_bytes := s_bytes s + int (f_size f), s_ready := True,
     s_event := True\<rparr>"

definition take_frame :: "'d sock \<Rightarrow> 'd sock" where
  "take_frame s = (case s_queue s of [] \<Rightarrow> s
     | f # fs \<Rightarrow> s\<lparr>s_queue := fs, s_bytes := s_bytes s - int (f_size f)\<rparr>)"

interpretation sq: accounted_queue s_queue s_bytes f_size put_frame take_frame
  by unfold_locales (auto simp: put_frame_def take_frame_def)

section \<open>The manager's operations\<close>

definition set_state :: "nat \<Rightarrow> 'd sock \<Rightarrow> 'd ws_mgr \<Rightarrow> 'd ws_mgr" where
  "set_state ws s m = m\<lparr>states := dict_set ws s (states m)\<rparr>"

text \<open>\<open>connect\<close>, after \<open>ws.accept()\<close>; \<open>sid\<close> is the fresh \<open>secrets.token_urlsafe(16)\<close>.\<close>

definition ws_connect :: "nat \<Rightarrow> string option \<Rightarrow> string \<Rightarrow> 'd ws_mgr \<Rightarrow> 'd ws_mgr" where
  "ws_connect ws own sid m =
     m\<lparr>connections := connections m @ [ws], states := dict_set ws new_sock (states m),
       owners := (case own of Some (c # cs) \<Rightarrow> dict_set ws (c # cs) (owners m) | _ \<Rightarrow> owners m),
       socket_ids := dict_set ws sid (socket_ids m)\<rparr>"

definition ws_drop :: "nat \<Rightarrow> 'd ws_mgr \<Rightarrow> 'd ws_mgr" where
  "ws_drop ws m =
     m\<lparr>connections := filter (\<lambda>c. c \<noteq> ws) (connections m), owners := dict_pop ws (owners m),
       socket_ids := dict_pop ws (socket_ids m), selections := dict_pop ws (selections m),
       states := dict_pop ws (states m)\<rparr>"

definition close_socket :: "nat \<Rightarrow> 'd ws_mgr \<Rightarrow> 'd ws_mgr" where
  "close_socket ws m = (ws_drop ws m)\<lparr>closing := closing m @ [ws]\<rparr>"

definition ws_enqueue :: "'d frame \<Rightarrow> nat \<Rightarrow> 'd ws_mgr \<Rightarrow> 'd ws_mgr" where
  "ws_enqueue f ws m =
     (case dict_get (states m) ws of
        None \<Rightarrow> m
      | Some s \<Rightarrow>
          if s_bytes s + int (f_size f) > int SOCKET_QUEUE_MAX_BYTES then close_socket ws m
          else set_state ws (let s = put_frame f s in if s_ready s then s\<lparr>s_event := True\<rparr> else s) m)"

definition send_init :: "'d frame \<Rightarrow> nat \<Rightarrow> 'd ws_mgr \<Rightarrow> 'd ws_mgr" where
  "send_init f ws m =
     (case dict_get (states m) ws of
        None \<Rightarrow> m
      | Some s \<Rightarrow>
          if s_bytes s + int (f_size f) > int SOCKET_QUEUE_MAX_BYTES then close_socket ws m
          else set_state ws (put_first f s) m)"

definition send_to :: "nat \<Rightarrow> 'd frame \<Rightarrow> 'd ws_mgr \<Rightarrow> 'd ws_mgr" where
  "send_to ws f m = ws_enqueue f ws m"

definition broadcast :: "'d frame \<Rightarrow> 'd ws_mgr \<Rightarrow> 'd ws_mgr" where
  "broadcast f m = fold (ws_enqueue f) (connections m) m"

text \<open>The loop reads the owners as they are at each round.\<close>

definition send_to_owner :: "string \<Rightarrow> 'd frame \<Rightarrow> 'd ws_mgr \<Rightarrow> 'd ws_mgr" where
  "send_to_owner own f m =
     (if own = [] then m
      else fold (\<lambda>ws m. if dict_get (owners m) ws = Some own then ws_enqueue f ws m else m) (connections m) m)"

text \<open>
  A selection is whatever JSON value the browser sent as the id: \<open>if device_id\<close> tests its truth
  only. The set of the selections raises for a list or an object; a missing id is \<open>JNull\<close>.
\<close>

definition set_selected_device :: "nat \<Rightarrow> json \<Rightarrow> 'd ws_mgr \<Rightarrow> 'd ws_mgr" where
  "set_selected_device ws v m =
     (if truthy v then m\<lparr>selections := dict_set ws v (selections m)\<rparr>
      else m\<lparr>selections := dict_pop ws (selections m)\<rparr>)"

fun hashable :: "json \<Rightarrow> bool" where
  "hashable (JArr xs) = False"
| "hashable (JObj d) = False"
| "hashable v = True"

definition selected_device_ids :: "'d ws_mgr \<Rightarrow> json set option" where
  "selected_device_ids m =
     (if list_all hashable (map snd (selections m)) then Some (set (map snd (selections m))) else None)"

definition unselect_device_everywhere :: "pystr \<Rightarrow> 'd ws_mgr \<Rightarrow> 'd ws_mgr" where
  "unselect_device_everywhere did m =
     fold (\<lambda>(ws, v) m. if v = JStr did then m\<lparr>selections := dict_pop ws (selections m)\<rparr> else m) (selections m) m"

definition owner_sockets :: "string \<Rightarrow> 'd ws_mgr \<Rightarrow> (nat \<times> string) list" where
  "owner_sockets own m =
     concat (map (\<lambda>ws. case (dict_get (owners m) ws, dict_get (socket_ids m) ws) of
         (Some o1, Some sid) \<Rightarrow> if o1 = own then [(ws, sid)] else []
       | _ \<Rightarrow> []) (connections m))"

definition owner_count :: "string \<Rightarrow> 'd ws_mgr \<Rightarrow> nat" where
  "owner_count own m = length (filter (\<lambda>o1. o1 = own) (map snd (owners m)))"

section \<open>The sender\<close>

text \<open>
  \<open>_send_queued\<close> between its awaits. \<open>current\<close> is what the frame's check answers (an exception
  counts as False). A send that fails, times out or is refused closes the socket.
\<close>

datatype send_event = SendDone | SendFails

definition sender_wake :: "nat \<Rightarrow> 'd ws_mgr \<Rightarrow> 'd ws_mgr" where
  "sender_wake ws m =
     (case dict_get (states m) ws of
        None \<Rightarrow> m
      | Some s \<Rightarrow>
          if s_sender s = Waiting \<and> s_event s
          then set_state ws (if s_ready s then s\<lparr>s_sender := Draining\<rparr> else s\<lparr>s_event := False\<rparr>) m
          else m)"

definition sender_next :: "bool \<Rightarrow> nat \<Rightarrow> 'd ws_mgr \<Rightarrow> 'd ws_mgr" where
  "sender_next current ws m =
     (case dict_get (states m) ws of
        None \<Rightarrow> m
      | Some s \<Rightarrow>
          if s_sender s \<noteq> Draining then m
          else (case s_queue s of
              [] \<Rightarrow> set_state ws (s\<lparr>s_event := False, s_sender := Waiting\<rparr>) m
            | f # fs \<Rightarrow>
                if \<not> f_check f \<or> current
                then set_state ws ((take_frame s)\<lparr>s_sender := Sending f\<rparr>) m
                else set_state ws ((take_frame s)\<lparr>s_done := s_done s @ [(f, False)]\<rparr>) m))"

definition sender_sent :: "send_event \<Rightarrow> nat \<Rightarrow> 'd ws_mgr \<Rightarrow> 'd ws_mgr" where
  "sender_sent ev ws m =
     (case dict_get (states m) ws of
        None \<Rightarrow> m
      | Some s \<Rightarrow>
          (case s_sender s of
             Sending f \<Rightarrow>
               (case ev of
                  SendDone \<Rightarrow> set_state ws (s\<lparr>s_sender := Draining, s_done := s_done s @ [(f, True)]\<rparr>) m
                | SendFails \<Rightarrow> close_socket ws m)
           | _ \<Rightarrow> m))"

section \<open>Runs\<close>

datatype 'd ws_op =
    Connect nat "string option" string
  | Init nat "'d frame"
  | SendTo nat "'d frame"
  | Broadcast "'d frame"
  | SendOwner string "'d frame"
  | Drop nat
  | Select nat json
  | Unselect pystr
  | Wake nat
  | Next nat bool
  | Sent nat send_event

fun ws_apply :: "'d ws_op \<Rightarrow> 'd ws_mgr \<Rightarrow> 'd ws_mgr" where
  "ws_apply (Connect ws own sid) m = ws_connect ws own sid m"
| "ws_apply (Init ws f) m = send_init f ws m"
| "ws_apply (SendTo ws f) m = send_to ws f m"
| "ws_apply (Broadcast f) m = broadcast f m"
| "ws_apply (SendOwner own f) m = send_to_owner own f m"
| "ws_apply (Drop ws) m = ws_drop ws m"
| "ws_apply (Select ws v) m = set_selected_device ws v m"
| "ws_apply (Unselect did) m = unselect_device_everywhere did m"
| "ws_apply (Wake ws) m = sender_wake ws m"
| "ws_apply (Next ws current) m = sender_next current ws m"
| "ws_apply (Sent ws ev) m = sender_sent ev ws m"

end
