(* ===== verification/Ws_Properties.thy ===== *)
theory Ws_Properties
  imports Ws_Manager
begin

text \<open>
  What the WebSocket manager promises its callers: for every connected socket the frames sent
  so far, the one being sent and the queued ones are, in this order, exactly the frames the
  calls addressed to it, its first frame ahead of them all; the queue's byte count is exact
  and bounded; and a queued frame always has a sender that will take it.
\<close>

section \<open>The frame of every operation\<close>

text \<open>
  A socket's state changes in six ways; every operation of the manager does to each socket
  one of them, or drops the socket.
\<close>

definition sending_now :: "'d sock \<Rightarrow> 'd frame list" where
  "sending_now s = (case s_sender s of Sending f \<Rightarrow> [f] | _ \<Rightarrow> [])"

definition stream :: "'d sock \<Rightarrow> 'd frame list" where
  "stream s = map fst (s_done s) @ sending_now s @ s_queue s"

text \<open>The manager as one socket sees it: its state and its owner, while it is connected.\<close>

definition view :: "nat \<Rightarrow> 'd ws_mgr \<Rightarrow> ('d sock \<times> string option) option" where
  "view w m = map_option (\<lambda>s. (s, dict_get (owners m) w)) (dict_get (states m) w)"

definition recv :: "'d frame \<Rightarrow> 'd sock \<Rightarrow> 'd sock option" where
  "recv f s =
     (if s_bytes s + int (f_size f) > int SOCKET_QUEUE_MAX_BYTES then None
      else Some (let s = put_frame f s in if s_ready s then s\<lparr>s_event := True\<rparr> else s))"

definition recv_first :: "'d frame \<Rightarrow> 'd sock \<Rightarrow> 'd sock option" where
  "recv_first f s =
     (if s_bytes s + int (f_size f) > int SOCKET_QUEUE_MAX_BYTES then None else Some (put_first f s))"

definition wake_sock :: "'d sock \<Rightarrow> 'd sock" where
  "wake_sock s =
     (if s_sender s = Waiting \<and> s_event s
      then (if s_ready s then s\<lparr>s_sender := Draining\<rparr> else s\<lparr>s_event := False\<rparr>) else s)"

definition next_frame :: "bool \<Rightarrow> 'd sock \<Rightarrow> 'd sock" where
  "next_frame current s =
     (if s_sender s \<noteq> Draining then s
      else case s_queue s of
          [] \<Rightarrow> s\<lparr>s_event := False, s_sender := Waiting\<rparr>
        | f # fs \<Rightarrow>
            if \<not> f_check f \<or> current then (take_frame s)\<lparr>s_sender := Sending f\<rparr>
            else (take_frame s)\<lparr>s_done := s_done s @ [(f, False)]\<rparr>)"

definition sent :: "send_event \<Rightarrow> 'd sock \<Rightarrow> 'd sock option" where
  "sent ev s =
     (case s_sender s of
        Sending f \<Rightarrow>
          (case ev of SendDone \<Rightarrow> Some (s\<lparr>s_sender := Draining, s_done := s_done s @ [(f, True)]\<rparr>)
           | SendFails \<Rightarrow> None)
      | _ \<Rightarrow> Some s)"

fun sock_op :: "nat \<Rightarrow> string option \<Rightarrow> 'd ws_op \<Rightarrow> 'd sock \<Rightarrow> 'd sock option" where
  "sock_op w own (Init ws f) s = (if ws = w then recv_first f s else Some s)"
| "sock_op w own (SendTo ws f) s = (if ws = w then recv f s else Some s)"
| "sock_op w own (Broadcast f) s = recv f s"
| "sock_op w own (SendOwner o1 f) s = (if o1 \<noteq> [] \<and> own = Some o1 then recv f s else Some s)"
| "sock_op w own (Drop ws) s = (if ws = w then None else Some s)"
| "sock_op w own (Wake ws) s = (if ws = w then Some (wake_sock s) else Some s)"
| "sock_op w own (Next ws current) s = (if ws = w then Some (next_frame current s) else Some s)"
| "sock_op w own (Sent ws ev) s = (if ws = w then sent ev s else Some s)"
| "sock_op w own op s = Some s"

fun connects :: "'d ws_op \<Rightarrow> nat option" where
  "connects (Connect ws own sid) = Some ws"
| "connects op = None"

definition apply_sock :: "nat \<Rightarrow> 'd ws_op \<Rightarrow> ('d sock \<times> string option) option \<Rightarrow> ('d sock \<times> string option) option" where
  "apply_sock w op v = Option.bind v (\<lambda>(s, own). map_option (\<lambda>s. (s, own)) (sock_op w own op s))"

lemmas ws_defs = ws_enqueue_def set_state_def close_socket_def ws_drop_def send_init_def send_to_def
  sender_wake_def sender_next_def sender_sent_def

lemma enqueue_view:
  "view w (ws_enqueue f ws m) = (if w = ws then Option.bind (view w m)
     (\<lambda>(s, own). map_option (\<lambda>s. (s, own)) (recv f s)) else view w m)"
  by (auto simp: view_def ws_defs dict_simps recv_def Let_def split: option.splits)

lemma broadcast_view:
  "distinct xs \<Longrightarrow> view w (fold (ws_enqueue f) xs m) = (if w \<in> set xs then Option.bind (view w m)
     (\<lambda>(s, own). map_option (\<lambda>s. (s, own)) (recv f s)) else view w m)"
  by (induction xs arbitrary: m) (auto simp: enqueue_view)

definition enqueue_if :: "string \<Rightarrow> 'd frame \<Rightarrow> nat \<Rightarrow> 'd ws_mgr \<Rightarrow> 'd ws_mgr" where
  "enqueue_if own f = (\<lambda>ws m. if dict_get (owners m) ws = Some own then ws_enqueue f ws m else m)"

lemma view_owner: "view w m = Some (s, own) \<Longrightarrow> own = dict_get (owners m) w"
  by (auto simp: view_def)

lemma enqueue_if_view:
  "view w (enqueue_if o1 f ws m) = (if w = ws then Option.bind (view w m)
     (\<lambda>(s, own). if own = Some o1 then map_option (\<lambda>s. (s, own)) (recv f s) else Some (s, own)) else view w m)"
  using view_owner [of ws m] by (cases "view w m") (auto simp: enqueue_if_def enqueue_view)

lemma owner_view:
  "distinct xs \<Longrightarrow> view w (fold (enqueue_if o1 f) xs m) = (if w \<in> set xs then Option.bind (view w m)
     (\<lambda>(s, own). if own = Some o1 then map_option (\<lambda>s. (s, own)) (recv f s) else Some (s, own)) else view w m)"
  by (induction xs arbitrary: m) (auto simp: enqueue_if_view)

section \<open>The dictionaries agree\<close>

definition consistent :: "'d ws_mgr \<Rightarrow> bool" where
  "consistent m \<longleftrightarrow> distinct (connections m)
     \<and> (\<forall>ws. dict_get (states m) ws \<noteq> None \<longleftrightarrow> ws \<in> set (connections m))
     \<and> (\<forall>ws. dict_get (socket_ids m) ws \<noteq> None \<longleftrightarrow> ws \<in> set (connections m))
     \<and> (\<forall>ws. dict_get (owners m) ws \<noteq> None \<longrightarrow> ws \<in> set (connections m))
     \<and> wf_dict (owners m)"

lemma set_state_consistent:
  "consistent m \<Longrightarrow> dict_get (states m) ws \<noteq> None \<Longrightarrow> consistent (set_state ws s m)"
  by (auto simp: consistent_def set_state_def dict_simps)

lemma drop_consistent: "consistent m \<Longrightarrow> consistent (ws_drop ws m)"
  by (auto simp: consistent_def ws_drop_def dict_simps)

lemma close_consistent: "consistent m \<Longrightarrow> consistent (close_socket ws m)"
  using drop_consistent [of m ws] by (simp add: consistent_def close_socket_def)

lemmas keep = set_state_consistent close_consistent

lemma enqueue_consistent: "consistent m \<Longrightarrow> consistent (ws_enqueue f ws m)"
  by (auto simp: ws_enqueue_def intro: keep split: option.splits)

lemma fold_consistent:
  "(\<And>x m. consistent m \<Longrightarrow> consistent (g x m)) \<Longrightarrow> consistent m \<Longrightarrow> consistent (fold g xs m)"
  by (induction xs arbitrary: m) auto

lemma unselect_states:
  "connections (fold (\<lambda>(ws, v) m. if v = JStr did then m\<lparr>selections := dict_pop ws (selections m)\<rparr> else m) ss m) = connections m"
  "states (fold (\<lambda>(ws, v) m. if v = JStr did then m\<lparr>selections := dict_pop ws (selections m)\<rparr> else m) ss m) = states m"
  "owners (fold (\<lambda>(ws, v) m. if v = JStr did then m\<lparr>selections := dict_pop ws (selections m)\<rparr> else m) ss m) = owners m"
  "socket_ids (fold (\<lambda>(ws, v) m. if v = JStr did then m\<lparr>selections := dict_pop ws (selections m)\<rparr> else m) ss m) = socket_ids m"
  by (induction ss arbitrary: m) (auto split: prod.splits)

lemma apply_consistent:
  assumes "consistent m" "\<And>ws. connects op = Some ws \<Longrightarrow> ws \<notin> set (connections m)"
  shows "consistent (ws_apply op m)"
proof (cases op)
  case (Connect ws own sid)
  then show ?thesis using assms
    by (auto simp: ws_connect_def consistent_def dict_simps split: option.splits list.splits)
next
  case (SendOwner own f)
  then show ?thesis using assms(1)
    by (auto simp: send_to_owner_def intro!: fold_consistent intro: enqueue_consistent)
next
  case (Unselect did)
  then show ?thesis using assms(1)
    by (simp add: unselect_device_everywhere_def consistent_def unselect_states)
next
  case (Select ws did)
  then show ?thesis using assms(1)
    by (simp add: set_selected_device_def consistent_def)
qed (use assms(1) in \<open>auto simp: send_init_def send_to_def broadcast_def sender_wake_def sender_next_def sender_sent_def
       intro!: fold_consistent intro: keep enqueue_consistent drop_consistent
       split: option.splits list.splits sender.splits send_event.splits\<close>)

lemma apply_view:
  assumes "consistent m" "connects op \<noteq> Some w"
  shows "view w (ws_apply op m) = apply_sock w op (view w m)"
proof -
  have live: "w \<in> set (connections m)" if "view w m \<noteq> None"
    using assms(1) that by (auto simp: view_def consistent_def)
  have d: "distinct (connections m)" using assms(1) by (simp add: consistent_def)
  show ?thesis
  proof (cases op)
    case (Connect ws own sid)
    then show ?thesis using assms(2)
      by (auto simp: ws_connect_def view_def apply_sock_def dict_simps split: option.splits list.splits)
  next
    case (SendOwner own f)
    have "view w (send_to_owner own f m) = (if own = [] then view w m else view w (fold (enqueue_if own f) (connections m) m))"
      by (simp add: send_to_owner_def enqueue_if_def)
    then show ?thesis using live SendOwner
      by (cases "view w m") (auto simp: owner_view [OF d] apply_sock_def)
  next
    case (Broadcast f)
    then show ?thesis using live
      by (cases "view w m") (auto simp: broadcast_def broadcast_view [OF d] apply_sock_def)
  next
    case (Unselect did)
    then show ?thesis
      by (cases "view w m") (auto simp: unselect_device_everywhere_def view_def unselect_states apply_sock_def)
  next
    case (Select ws did)
    then show ?thesis
      by (cases "view w m") (auto simp: set_selected_device_def view_def apply_sock_def)
  next
    case (SendTo ws f)
    then show ?thesis by (cases "view w m") (auto simp: send_to_def enqueue_view apply_sock_def)
  qed (cases "dict_get (states m) w"; auto simp: view_def apply_sock_def ws_defs dict_simps recv_first_def wake_sock_def
      next_frame_def sent_def split: option.splits list.splits sender.splits send_event.splits)+
qed

section \<open>Runs\<close>

text \<open>Socket objects are not reused: a run connects each at most once.\<close>

definition run_ws :: "'d ws_op list \<Rightarrow> 'd ws_mgr" where
  "run_ws ops = fold ws_apply ops new_ws_mgr"

definition connected :: "'d ws_op list \<Rightarrow> nat list" where
  "connected ops = List.map_filter connects ops"

lemma connected_simps [simp]:
  "connected [] = []" "connected (op # ops) = (case connects op of None \<Rightarrow> connected ops | Some ws \<Rightarrow> ws # connected ops)"
  "connected (xs @ ys) = connected xs @ connected ys"
  by (auto simp: connected_def map_filter_def split: option.splits)

lemma run_ws_snoc [simp]: "run_ws [] = new_ws_mgr" "run_ws (ops @ [op]) = ws_apply op (run_ws ops)"
  by (simp_all add: run_ws_def)

lemma fold_connections:
  "(\<And>x m. set (connections (g x m)) \<subseteq> set (connections m)) \<Longrightarrow> set (connections (fold g xs m)) \<subseteq> set (connections m)"
proof (induction xs arbitrary: m)
  case (Cons x xs)
  then show ?case by (auto dest!: Cons.prems [THEN subsetD] Cons.IH [OF Cons.prems, THEN subsetD])
qed simp

lemma enqueue_sub: "set (connections (ws_enqueue f ws m)) \<subseteq> set (connections m)"
  by (auto simp: ws_defs split: option.splits)

lemma connections_sub: "set (connections (fold (ws_enqueue f) xs m)) \<subseteq> set (connections m)"
  by (intro fold_connections enqueue_sub)

lemma owner_connections_sub: "set (connections (fold (enqueue_if own f) xs m)) \<subseteq> set (connections m)"
  by (rule fold_connections) (simp add: enqueue_if_def enqueue_sub)

lemma apply_connections:
  "set (connections (ws_apply op m)) \<subseteq> set (connections m) \<union> set_option (connects op)"
  using connections_sub [of _ "connections m" m] owner_connections_sub [of _ _ "connections m" m]
  by (cases op) (auto simp: ws_connect_def ws_defs broadcast_def send_to_owner_def set_selected_device_def
      unselect_device_everywhere_def unselect_states enqueue_if_def
      split: option.splits list.splits sender.splits send_event.splits if_splits)

lemma run_inv:
  "distinct (connected ops) \<Longrightarrow> consistent (run_ws ops) \<and> set (connections (run_ws ops)) \<subseteq> set (connected ops)"
proof (induction ops rule: rev_induct)
  case Nil
  then show ?case by (simp add: consistent_def new_ws_mgr_def)
next
  case (snoc op ops)
  then have IH: "consistent (run_ws ops)" "set (connections (run_ws ops)) \<subseteq> set (connected ops)" by simp_all
  have "consistent (ws_apply op (run_ws ops))"
    using IH snoc.prems by (intro apply_consistent) auto
  then show ?case
    using IH(2) apply_connections [of op "run_ws ops"] by (cases "connects op") auto
qed

lemma view_connect:
  "view w (ws_connect w own sid m) =
     Some (new_sock, case own of Some (c # cs) \<Rightarrow> own | _ \<Rightarrow> dict_get (owners m) w)"
  by (auto simp: view_def ws_connect_def dict_simps split: option.splits list.splits)

section \<open>Byte counts and wake-ups\<close>

definition sock_ok :: "'d sock \<Rightarrow> bool" where
  "sock_ok s \<longleftrightarrow> sq.balanced s \<and> s_bytes s \<le> int SOCKET_QUEUE_MAX_BYTES
     \<and> (s_ready s \<and> s_queue s \<noteq> [] \<longrightarrow> s_event s)
     \<and> (s_sender s \<noteq> Waiting \<longrightarrow> s_ready s \<and> s_event s)"

lemma new_sock_ok: "sock_ok new_sock"
  by (simp add: sock_ok_def new_sock_def sq.balanced_def)

lemma recv_ok: "sock_ok s \<Longrightarrow> recv f s = Some s' \<Longrightarrow> sock_ok s'"
  using sq.balanced_add [of s f]
  by (auto simp: sock_ok_def recv_def Let_def put_frame_def sq.balanced_def split: if_splits)

lemma recv_first_ok: "sock_ok s \<Longrightarrow> recv_first f s = Some s' \<Longrightarrow> sock_ok s'"
  by (auto simp: sock_ok_def recv_first_def put_first_def sq.balanced_def split: if_splits)

lemma wake_sock_ok: "sock_ok s \<Longrightarrow> sock_ok (wake_sock s)"
  by (auto simp: sock_ok_def wake_sock_def sq.balanced_def)

lemma next_frame_ok: "sock_ok s \<Longrightarrow> sock_ok (next_frame current s)"
  by (auto simp: sock_ok_def next_frame_def take_frame_def sq.balanced_def split: list.splits)

lemma sent_ok: "sock_ok s \<Longrightarrow> sent ev s = Some s' \<Longrightarrow> sock_ok s'"
  by (auto simp: sock_ok_def sent_def sq.balanced_def split: sender.splits send_event.splits)

lemmas sock_ok_rules = recv_ok recv_first_ok sent_ok

lemma sock_op_ok: "sock_ok s \<Longrightarrow> sock_op w own op s = Some s' \<Longrightarrow> sock_ok s'"
  by (cases op) (auto simp: wake_sock_ok next_frame_ok split: if_splits elim: sock_ok_rules)

lemma run_ok:
  "distinct (connected ops) \<Longrightarrow> dict_get (states (run_ws ops)) w = Some s \<Longrightarrow> sock_ok s"
proof (induction ops arbitrary: s rule: rev_induct)
  case Nil
  then show ?case by (simp add: new_ws_mgr_def)
next
  case (snoc op ops)
  have c: "consistent (run_ws ops)" using run_inv [of ops] snoc.prems(1) by simp
  have v: "view w (ws_apply op (run_ws ops)) = Some (s, dict_get (owners (ws_apply op (run_ws ops))) w)"
    using snoc.prems(2) by (simp add: view_def)
  show ?case
  proof (cases "connects op = Some w")
    case True
    then obtain own sid where "op = Connect w own sid" by (cases op) auto
    then show ?thesis using v by (simp add: view_connect new_sock_ok)
  next
    case False
    from v [unfolded apply_view [OF c False]] obtain s0 own
      where s0: "view w (run_ws ops) = Some (s0, own)" "sock_op w own op s0 = Some s"
      by (auto simp: apply_sock_def bind_eq_Some_conv)
    then have "sock_ok s0" using snoc by (auto simp: view_def)
    then show ?thesis using s0(2) by (rule sock_op_ok)
  qed
qed

section \<open>The stream of one socket\<close>

text \<open>The frames the calls address to a socket: its first frame, and the rest.\<close>

fun firsts :: "nat \<Rightarrow> 'd ws_op \<Rightarrow> 'd frame list" where
  "firsts w (Init ws f) = (if ws = w then [f] else [])"
| "firsts w op = []"

fun addressed :: "nat \<Rightarrow> string option \<Rightarrow> 'd ws_op \<Rightarrow> 'd frame list" where
  "addressed w own (SendTo ws f) = (if ws = w then [f] else [])"
| "addressed w own (Broadcast f) = [f]"
| "addressed w own (SendOwner o1 f) = (if o1 \<noteq> [] \<and> own = Some o1 then [f] else [])"
| "addressed w own op = []"

definition due_frames :: "nat \<Rightarrow> string option \<Rightarrow> 'd ws_op list \<Rightarrow> 'd frame list" where
  "due_frames w own ops = concat (map (firsts w) ops) @ concat (map (addressed w own) ops)"

text \<open>A socket on schedule, after first frames \<open>fs\<close> and other frames \<open>gs\<close>.\<close>

definition on_schedule :: "'d frame list \<Rightarrow> 'd frame list \<Rightarrow> 'd sock \<Rightarrow> bool" where
  "on_schedule fs gs s \<longleftrightarrow> stream s = fs @ gs
     \<and> (fs = [] \<longrightarrow> \<not> s_ready s \<and> s_done s = [] \<and> s_sender s = Waiting)
     \<and> (\<forall>f. (f, False) \<in> set (s_done s) \<longrightarrow> f_check f)"

lemmas stream_defs = on_schedule_def stream_def sending_now_def

lemma schedule_new: "on_schedule [] [] new_sock"
  by (simp add: stream_defs new_sock_def)

lemma schedule_recv: "on_schedule fs gs s \<Longrightarrow> recv f s = Some s' \<Longrightarrow> on_schedule fs (gs @ [f]) s'"
  by (auto simp: stream_defs recv_def put_frame_def Let_def split: if_splits sender.splits)

lemma schedule_first: "on_schedule [] gs s \<Longrightarrow> recv_first f s = Some s' \<Longrightarrow> on_schedule [f] gs s'"
  by (auto simp: stream_defs recv_first_def put_first_def split: if_splits)

lemma schedule_wake: "on_schedule fs gs s \<Longrightarrow> on_schedule fs gs (wake_sock s)"
  by (auto simp: stream_defs wake_sock_def split: sender.splits)

lemma schedule_next: "on_schedule fs gs s \<Longrightarrow> on_schedule fs gs (next_frame current s)"
  by (auto simp: stream_defs next_frame_def take_frame_def split: sender.splits list.splits)

lemma schedule_sent: "on_schedule fs gs s \<Longrightarrow> sent ev s = Some s' \<Longrightarrow> on_schedule fs gs s'"
  by (auto simp: stream_defs sent_def split: sender.splits send_event.splits)

lemmas schedule_rules = schedule_recv schedule_first schedule_sent

lemma schedule_op:
  assumes "on_schedule fs gs s" "sock_op w own op s = Some s'" "length (fs @ firsts w op) \<le> 1"
  shows "on_schedule (fs @ firsts w op) (gs @ addressed w own op) s'"
  using assms
  by (cases op) (auto simp: schedule_wake schedule_next split: if_splits elim: schedule_rules)

definition owner_kept :: "string option \<Rightarrow> string option" where
  "owner_kept own = (case own of Some (c # cs) \<Rightarrow> own | _ \<Rightarrow> None)"

lemma addressed_kept: "addressed w (owner_kept own) op = addressed w own op"
  by (cases op) (auto simp: owner_kept_def split: option.splits list.splits)

lemma run_schedule:
  assumes "distinct (connected (before @ Connect w own sid # after))" "length (concat (map (firsts w) after)) \<le> 1"
    and "view w (run_ws (before @ Connect w own sid # after)) = Some (s, o1)"
  shows "o1 = owner_kept own \<and> on_schedule (concat (map (firsts w) after)) (concat (map (addressed w own) after)) s"
  using assms
proof (induction after arbitrary: s o1 rule: rev_induct)
  case Nil
  have "w \<notin> set (connections (run_ws before))" "consistent (run_ws before)"
    using Nil.prems(1) run_inv [of before] by auto
  then have "dict_get (owners (run_ws before)) w = None" by (auto simp: consistent_def)
  then show ?case using Nil.prems(3)
    by (auto simp: view_connect schedule_new owner_kept_def split: option.splits list.splits)
next
  case (snoc op after)
  let ?ops = "before @ Connect w own sid # after"
  have d: "distinct (connected ?ops)" using snoc.prems(1) by (auto split: option.splits)
  have c: "consistent (run_ws ?ops)" using run_inv [OF d] by simp
  have n: "connects op \<noteq> Some w" using snoc.prems(1) by auto
  have "view w (ws_apply op (run_ws ?ops)) = Some (s, o1)"
    using snoc.prems(3) run_ws_snoc(2) [of ?ops op] by simp
  then obtain s0 where s0: "view w (run_ws ?ops) = Some (s0, o1)" "sock_op w o1 op s0 = Some s"
    by (auto simp: apply_view [OF c n] apply_sock_def bind_eq_Some_conv)
  have l: "length (concat (map (firsts w) after)) \<le> 1" using snoc.prems(2) by simp
  note IH = snoc.IH [OF d l s0(1)]
  then show ?case
    using schedule_op [of _ _ s0 w o1 op s] s0(2) snoc.prems(2) addressed_kept [of w own op] by auto
qed

text \<open>
  C24. Each browser connection gets its own messages, all of them, in order, and nothing else.
  Take any run of the manager in which socket objects are not reused and a socket is given at
  most one first frame. While a socket is connected, the frames its sender has finished with,
  the one it is sending and the queued ones are exactly its first frame followed by the frames
  sent to it, to everyone or to its own session's owner since it connected, in the order of the
  calls. Before the first frame nothing leaves, and only frames that carry a check are ever
  dropped.
\<close>

theorem socket_stream_exact:
  assumes "distinct (connected (before @ Connect w own sid # after))"
    and "length (concat (map (firsts w) after)) \<le> 1"
    and "dict_get (states (run_ws (before @ Connect w own sid # after))) w = Some s"
  shows "map fst (s_done s) @ sending_now s @ s_queue s = due_frames w own after
    \<and> (concat (map (firsts w) after) = [] \<longrightarrow> s_done s = [] \<and> sending_now s = [])
    \<and> (\<forall>f. (f, False) \<in> set (s_done s) \<longrightarrow> f_check f)"
proof -
  have "view w (run_ws (before @ Connect w own sid # after))
      = Some (s, dict_get (owners (run_ws (before @ Connect w own sid # after))) w)"
    using assms(3) by (simp add: view_def)
  from run_schedule [OF assms(1,2) this] show ?thesis
    by (auto simp: on_schedule_def stream_def due_frames_def sending_now_def)
qed

definition hello :: "string frame" where "hello = \<lparr>f_data = ''init'', f_size = 4, f_check = False\<rparr>"
definition news :: "string frame" where "news = \<lparr>f_data = ''status'', f_size = 6, f_check = False\<rparr>"
definition secret :: "string frame" where "secret = \<lparr>f_data = ''secret'', f_size = 6, f_check = False\<rparr>"

definition two_browsers :: "string ws_op list" where
  "two_browsers = [Connect 2 (Some ''bob'') ''s2'', Broadcast news, SendOwner ''bob'' secret, Init 1 hello, Wake 1,
     Next 1 True, Sent 1 SendDone, Next 1 True]"

theorem socket_stream_exact_witness:
  "\<exists>s. dict_get (states (run_ws ([] @ Connect 1 (Some ''ann'') ''s1'' # two_browsers))) 1 = Some s
    \<and> s_done s = [(hello, True)] \<and> sending_now s = [news]
    \<and> map fst (s_done s) @ sending_now s @ s_queue s = [hello, news]"
proof -
  let ?s = "\<lparr>s_queue = [], s_bytes = 0, s_ready = True, s_event = True, s_sender = Sending news,
     s_done = [(hello, True)]\<rparr>"
  have g: "dict_get (states (run_ws ([] @ Connect 1 (Some ''ann'') ''s1'' # two_browsers))) 1 = Some ?s"
    by (simp add: run_ws_def two_browsers_def ws_connect_def new_ws_mgr_def new_sock_def broadcast_def
        send_to_owner_def ws_defs put_frame_def put_first_def take_frame_def hello_def news_def secret_def
        SOCKET_QUEUE_MAX_BYTES_def Let_def)
  have d: "distinct (connected ([] @ Connect 1 (Some ''ann'') ''s1'' # two_browsers))"
    and l: "length (concat (map (firsts 1) two_browsers)) \<le> 1"
    by (simp_all add: two_browsers_def)
  from socket_stream_exact [OF d l g] have "map fst (s_done ?s) @ sending_now ?s @ s_queue ?s = due_frames 1 (Some ''ann'') two_browsers" by simp
  then show ?thesis using g by (intro exI [of _ ?s]) (simp add: sending_now_def)
qed

section \<open>The queue's bound and its sender\<close>

text \<open>One turn of the sender: the pending send succeeds, then the next frame is taken.\<close>

definition turn :: "'d sock \<Rightarrow> 'd sock" where
  "turn s = next_frame True (case sent SendDone s of Some s \<Rightarrow> s | None \<Rightarrow> s)"

definition sender_turns :: "nat \<Rightarrow> nat \<Rightarrow> 'd ws_op list" where
  "sender_turns w n = Wake w # concat (replicate n [Sent w SendDone, Next w True])"

lemma turns_append: "concat (replicate (Suc n) xs) = concat (replicate n xs) @ xs"
  by (induction n) auto

lemma sent_done: "\<exists>s'. sent SendDone s = Some s'"
  by (simp add: sent_def split: sender.split)

lemma view_states: "view v m1 = view v m2 \<Longrightarrow> dict_get (states m1) v = dict_get (states m2) v"
  by (cases "dict_get (states m1) v"; cases "dict_get (states m2) v") (simp_all add: view_def)

lemma turns_view:
  assumes "consistent m" "view w m = Some (s, own)"
  shows "consistent (fold ws_apply (sender_turns w n) m)
    \<and> view w (fold ws_apply (sender_turns w n) m) = Some ((turn ^^ n) (wake_sock s), own)
    \<and> (\<forall>v. v \<noteq> w \<longrightarrow> view v (fold ws_apply (sender_turns w n) m) = view v m)"
proof (induction n)
  case 0
  have "consistent (ws_apply (Wake w) m)" using assms(1) by (intro apply_consistent) auto
  moreover have "view v (ws_apply (Wake w) m) = apply_sock v (Wake w) (view v m)" for v
    using assms(1) by (intro apply_view) auto
  ultimately show ?case using assms(2)
    by (auto simp: sender_turns_def apply_sock_def case_prod_unfold map_option_case split: option.splits)
next
  case (Suc n)
  let ?m = "fold ws_apply (sender_turns w n) m"
  let ?s = "(turn ^^ n) (wake_sock s)"
  have c: "consistent ?m" "view w ?m = Some (?s, own)" using Suc by simp_all
  have e: "fold ws_apply (sender_turns w (Suc n)) m = ws_apply (Next w True) (ws_apply (Sent w SendDone) ?m)"
    unfolding sender_turns_def turns_append by simp
  have c1: "consistent (ws_apply (Sent w SendDone) ?m)" using c(1) by (rule apply_consistent) simp
  have v1: "view v (ws_apply (Sent w SendDone) ?m) = apply_sock v (Sent w SendDone) (view v ?m)" for v
    using c(1) by (intro apply_view) auto
  have v2: "view v (ws_apply (Next w True) (ws_apply (Sent w SendDone) ?m))
      = apply_sock v (Next w True) (view v (ws_apply (Sent w SendDone) ?m))" for v
    using c1 by (intro apply_view) auto
  have c2: "consistent (ws_apply (Next w True) (ws_apply (Sent w SendDone) ?m))"
    using c1 by (rule apply_consistent) simp
  obtain s1 where s1: "sent SendDone ?s = Some s1" using sent_done by blast
  have w: "view w (ws_apply (Next w True) (ws_apply (Sent w SendDone) ?m)) = Some ((turn ^^ Suc n) (wake_sock s), own)"
    unfolding v2 v1 using c(2) s1 by (simp add: apply_sock_def turn_def)
  have o: "view v (ws_apply (Next w True) (ws_apply (Sent w SendDone) ?m)) = view v m" if "v \<noteq> w" for v
    unfolding v2 v1 using Suc that by (cases "view v ?m") (auto simp: apply_sock_def)
  show ?case using c2 w o unfolding e by blast
qed

lemma turn_stream: "stream (turn s) = stream s"
  by (auto simp: turn_def sent_def next_frame_def stream_def sending_now_def take_frame_def
      split: sender.splits list.splits)

lemma turns_stream: "stream ((turn ^^ n) s) = stream s"
  by (induction n) (simp_all add: turn_stream)

lemma turn_idle: "s_sender s = Waiting \<Longrightarrow> turn s = s"
  by (simp add: turn_def sent_def next_frame_def)

lemma turn_working: "s_sender s \<noteq> Waiting \<Longrightarrow>
  if s_queue s = [] then s_queue (turn s) = [] \<and> s_sender (turn s) = Waiting
  else length (s_queue (turn s)) < length (s_queue s) \<and> s_sender (turn s) \<noteq> Waiting"
  by (auto simp: turn_def sent_def next_frame_def take_frame_def split: sender.splits list.splits)

lemma turns_finish:
  "s_sender s \<noteq> Waiting \<or> s_queue s = [] \<Longrightarrow> length (s_queue s) < n \<Longrightarrow>
    s_queue ((turn ^^ n) s) = [] \<and> s_sender ((turn ^^ n) s) = Waiting"
proof (induction n arbitrary: s)
  case (Suc n)
  have f: "(turn ^^ Suc n) s = (turn ^^ n) (turn s)" by (simp add: funpow_swap1)
  show ?case
  proof (cases "s_sender s = Waiting")
    case True
    have "(turn ^^ n) s = s" for n by (induction n) (simp_all add: turn_idle [OF True])
    then show ?thesis using Suc.prems True by (metis f turn_idle)
  next
    case False
    show ?thesis
    proof (cases "s_queue s = []")
      case True
      then have "s_queue (turn s) = []" "s_sender (turn s) = Waiting" using turn_working [OF False] by simp_all
      moreover from this have "(turn ^^ n) (turn s) = turn s" by (induction n) (simp_all add: turn_idle)
      ultimately show ?thesis unfolding f by simp
    next
      case q: False
      then have "length (s_queue (turn s)) < n" "s_sender (turn s) \<noteq> Waiting"
        using turn_working [OF False] Suc.prems(2) by auto
      then show ?thesis unfolding f by (intro Suc.IH) simp_all
    qed
  qed
qed simp

text \<open>
  A browser that reads too slowly costs bounded memory, and one that reads is served. In
  every reachable state a connected socket's byte count is exactly the size of what is queued
  and at most 4 MiB. And once its first frame is queued, the sender needs at most one turn for
  each queued frame and one more to hand over everything, in order, without touching any other
  socket: no queued frame is ever left without a sender that is awake or about to be woken.
\<close>

theorem socket_backlog_served:
  assumes "distinct (connected ops)" and "dict_get (states (run_ws ops)) w = Some s"
  shows "s_bytes s = int (sum_list (map f_size (s_queue s))) \<and> s_bytes s \<le> 4 * 1024 * 1024
    \<and> (s_ready s \<and> length (s_queue s) < n \<longrightarrow>
        (\<exists>s'. dict_get (states (fold ws_apply (sender_turns w n) (run_ws ops))) w = Some s'
           \<and> s_queue s' = [] \<and> s_sender s' = Waiting
           \<and> map fst (s_done s') = map fst (s_done s) @ sending_now s @ s_queue s
           \<and> (\<forall>v. v \<noteq> w \<longrightarrow> dict_get (states (fold ws_apply (sender_turns w n) (run_ws ops))) v
                = dict_get (states (run_ws ops)) v)))"
proof -
  have ok: "sock_ok s" using run_ok [OF assms] .
  have c: "consistent (run_ws ops)" using run_inv [OF assms(1)] by simp
  have v: "view w (run_ws ops) = Some (s, dict_get (owners (run_ws ops)) w)" using assms(2) by (simp add: view_def)
  note t = turns_view [OF c v, of n]
  let ?m = "fold ws_apply (sender_turns w n) (run_ws ops)" and ?s = "(turn ^^ n) (wake_sock s)"
  have get: "dict_get (states ?m) w = Some ?s" using t by (auto simp: view_def)
  have others: "dict_get (states ?m) v = dict_get (states (run_ws ops)) v" if "v \<noteq> w" for v
    using t that by (intro view_states) blast
  have "s_queue ?s = [] \<and> s_sender ?s = Waiting \<and> map fst (s_done ?s) = map fst (s_done s) @ sending_now s @ s_queue s"
    if "s_ready s" "length (s_queue s) < n"
  proof -
    have "s_sender (wake_sock s) \<noteq> Waiting \<or> s_queue (wake_sock s) = []" "length (s_queue (wake_sock s)) < n"
      using ok that by (auto simp: wake_sock_def sock_ok_def)
    from turns_finish [OF this] have q: "s_queue ?s = []" "s_sender ?s = Waiting" by simp_all
    have "stream ?s = stream s" using turns_stream [of n "wake_sock s"] by (simp add: stream_def sending_now_def wake_sock_def)
    then show ?thesis using q by (simp add: stream_def sending_now_def)
  qed
  then show ?thesis using ok get others
    by (auto simp: sock_ok_def sq.balanced_def SOCKET_QUEUE_MAX_BYTES_def)
qed

theorem socket_backlog_served_witness:
  "\<exists>s. dict_get (states (run_ws [Connect 1 (Some ''ann'') ''s1'', Broadcast news, Init 1 hello])) 1 = Some s
    \<and> (\<exists>s'. dict_get (states (fold ws_apply (sender_turns 1 3)
            (run_ws [Connect 1 (Some ''ann'') ''s1'', Broadcast news, Init 1 hello]))) 1 = Some s'
        \<and> map fst (s_done s') = [hello, news])"
proof -
  let ?ops = "[Connect 1 (Some ''ann'') ''s1'', Broadcast news, Init 1 hello]"
  let ?s = "\<lparr>s_queue = [hello, news], s_bytes = 10, s_ready = True, s_event = True, s_sender = Waiting, s_done = []\<rparr>"
  have g: "dict_get (states (run_ws ?ops)) 1 = Some ?s"
    by (simp add: run_ws_def ws_connect_def new_ws_mgr_def new_sock_def broadcast_def ws_defs put_frame_def
        put_first_def hello_def news_def SOCKET_QUEUE_MAX_BYTES_def Let_def)
  have d: "distinct (connected ?ops)" by simp
  from socket_backlog_served [OF d g, of 3] show ?thesis using g
    by (auto simp: sending_now_def)
qed

end
