(* ===== verification/Message_Routing.thy ===== *)
theory Message_Routing
  imports Ssh_Properties Ws_Properties
begin

text \<open>
  From the session manager to the browsers: a message that a worker pushed is delivered by the event
  loop (\<open>_deliver\<close> of \<open>ssh_manager.py\<close>), routed by \<open>_broadcast\<close> of \<open>main.py\<close> and queued by the
  WebSocket manager. The property is whose browsers can see what a command prints.

  The line \<open>_broadcast\<close> adds to the debug log is left out.
\<close>

section \<open>Routing\<close>

text \<open>
  \<open>_broadcast\<close>: to the sockets of the message's owner, to all when it has none. \<open>guarded\<close> says that
  the message carries the check \<open>_still_current\<close>; \<open>size_of\<close> is the length of the dumped message.
\<close>

definition frame_of :: "('m \<Rightarrow> nat) \<Rightarrow> bool \<Rightarrow> 'm \<Rightarrow> 'm frame" where
  "frame_of size_of guarded b = \<lparr>f_data = b, f_size = size_of b, f_check = guarded\<rparr>"

definition route_message :: "('m \<Rightarrow> nat) \<Rightarrow> bool \<Rightarrow> 'm \<Rightarrow> string option \<Rightarrow> 'm ws_mgr \<Rightarrow> 'm ws_mgr" where
  "route_message size_of guarded b own w =
     (case own of
        Some (c # cs) \<Rightarrow> send_to_owner (c # cs) (frame_of size_of guarded b) w
      | _ \<Rightarrow> broadcast (frame_of size_of guarded b) w)"

text \<open>\<open>_deliver\<close> and \<open>_broadcast\<close>, on the event loop.\<close>

definition hand_over :: "(message \<Rightarrow> nat) \<Rightarrow> manager \<Rightarrow> pushed \<Rightarrow> message ws_mgr \<Rightarrow> message ws_mgr" where
  "hand_over size_of m p w =
     (case deliver m p of
        None \<Rightarrow> w
      | Some (b, own) \<Rightarrow> route_message size_of (m_gen p \<noteq> None) b own w)"

section \<open>Whom a pushed message is for\<close>

fun is_lock :: "message \<Rightarrow> bool" where
  "is_lock (SshLock did b) = True"
| "is_lock _ = False"

fun is_terminal :: "message \<Rightarrow> bool" where
  "is_terminal (TermStart did run c x y) = True"
| "is_terminal (TermData did run n t) = True"
| "is_terminal (TermEnd did run) = True"
| "is_terminal _ = False"

definition owner_is :: "string \<Rightarrow> pushed \<Rightarrow> bool" where
  "owner_is own p \<longleftrightarrow> m_owner p = Some own \<or> own = [] \<and> m_owner p = None"

text \<open>
  A message stamped with the generation of the session that now holds its device is addressed to
  that session's owner, locks apart; terminal messages are always stamped.
\<close>

definition push_ok :: "manager \<Rightarrow> pushed \<Rightarrow> bool" where
  "push_ok m p \<longleftrightarrow>
     (\<forall>g. m_gen p = Some g \<longrightarrow> g \<le> next_ref m
        \<and> (\<not> is_lock (m_body p) \<longrightarrow> (\<forall>did r. msg_device (m_body p) = Some did \<and> current m did = Some r \<and> Suc r = g \<longrightarrow>
              owner_is (s_owner (store m r)) p)))
   \<and> (is_terminal (m_body p) \<longrightarrow> m_gen p \<noteq> None)"

definition stamp_for :: "manager \<Rightarrow> string option \<Rightarrow> nat option \<Rightarrow> bool" where
  "stamp_for m own gen \<longleftrightarrow> (\<forall>g. gen = Some g \<longrightarrow> (\<exists>r < next_ref m. g = Suc r \<and> own = Some (s_owner (store m r))))"

fun stamp_act :: "manager \<Rightarrow> act \<Rightarrow> bool" where
  "stamp_act m (Log did txt level own cmd gen) \<longleftrightarrow> stamp_for m own gen"
| "stamp_act m (Status did st own gen reason) \<longleftrightarrow> stamp_for m own gen"
| "stamp_act m (Lock did b gen) \<longleftrightarrow> (\<forall>g. gen = Some g \<longrightarrow> g \<le> next_ref m)"
| "stamp_act m (PushTo b own) \<longleftrightarrow> \<not> is_terminal b"
| "stamp_act m a \<longleftrightarrow> True"

definition route_inv :: "manager \<Rightarrow> act multiset \<Rightarrow> bool" where
  "route_inv m A \<longleftrightarrow> ssh_inv m A \<and> (\<forall>p \<in> set (pushes m). push_ok m p) \<and> (\<forall>a \<in># A. stamp_act m a)"

lemma push_ok_move:
  assumes "slots_move m m'" "push_ok m p"
  shows "push_ok m' p"
proof -
  have "current m d = Some r \<and> s_owner (store m' r) = s_owner (store m r)"
    if "current m' d = Some r" "Suc r \<le> next_ref m" for d r
  proof -
    have "r < next_ref m" using that(2) by simp
    moreover have "current m d = Some r \<or> r = next_ref m"
      using assms(1) that(1) unfolding slots_move_def by blast
    ultimately show ?thesis using assms(1) by (auto simp: slots_move_def)
  qed
  moreover have "next_ref m \<le> next_ref m'" using assms(1) by (simp add: slots_move_def)
  ultimately show ?thesis using assms(2) unfolding push_ok_def by fastforce
qed

lemma stamp_for_move: "slots_move m m' \<Longrightarrow> stamp_for m own gen \<Longrightarrow> stamp_for m' own gen"
  unfolding slots_move_def stamp_for_def by (metis order_less_le_trans)

lemma stamp_act_move: "slots_move m m' \<Longrightarrow> stamp_act m a \<Longrightarrow> stamp_act m' a"
  by (cases a) (auto intro: stamp_for_move simp: slots_move_def)

section \<open>What workers push\<close>

text \<open>
  \<open>speaks_for r m m'\<close>: the slots and the owner of session \<open>r\<close> are as before, and every message
  pushed is addressed to that owner.
\<close>

definition speaks_for :: "nat \<Rightarrow> manager \<Rightarrow> manager \<Rightarrow> bool" where
  "speaks_for r m m' \<longleftrightarrow> sessions m' = sessions m \<and> s_owner (store m' r) = s_owner (store m r)
     \<and> (\<exists>ps. pushes m' = pushes m @ ps \<and> (\<forall>p \<in> set ps. owner_is (s_owner (store m r)) p))"

lemma speaks_refl [simp]: "speaks_for r m m"
  by (simp add: speaks_for_def)

lemma speaks_trans: "speaks_for r m m1 \<Longrightarrow> speaks_for r m1 m2 \<Longrightarrow> speaks_for r m m2"
  unfolding speaks_for_def by (elim conjE exE) (auto simp: ball_Un)

lemma speaks_edit: "s_owner (f (store m r)) = s_owner (store m r) \<Longrightarrow> speaks_for r m (edit r f m)"
  by (simp add: speaks_for_def)

lemma speaks_push: "own = Some (s_owner (store m r)) \<Longrightarrow> speaks_for r m (push_msg b own gen m)"
  by (simp add: speaks_for_def owner_is_def)

lemma speaks_log: "is_current m did r \<Longrightarrow> speaks_for r m (log_msg did txt level None cmd gen m)"
  by (auto simp: speaks_for_def log_msg_def push_msg_def owner_is_def stamped_owner_def is_current_def)

lemma speaks_status: "is_current m did r \<Longrightarrow> speaks_for r m (status_msg did st None gen reason m)"
  by (auto simp: speaks_for_def status_msg_def push_msg_def owner_is_def stamped_owner_def is_current_def)

lemma speaks_current_log: "speaks_for r m (current_log r a txt level cmd m)"
  by (simp add: current_log_def speaks_log)

lemma speaks_current: "speaks_for r m m' \<Longrightarrow> is_current m' did q = is_current m did q"
  by (simp add: speaks_for_def is_current_def)

lemma speaks_announce: "speaks_for r m (announce_run r a m)"
  using speaks_trans [OF speaks_status speaks_current_log] by (simp add: announce_run_def)

lemma speaks_send_start: "send_start r a m = (a', m') \<Longrightarrow> speaks_for r m m'"
  by (auto simp: send_start_def speaks_for_def owner_is_def split: if_splits)

lemma exec_start_speaks: "speaks_for r m (fst (exec_start r a m))"
proof -
  have "speaks_for r m (edit r (\<lambda>s. s\<lparr>s_cancelled := True\<rparr>) (announce_run r a m))"
    by (rule speaks_trans [OF speaks_announce speaks_edit]) simp
  then have "speaks_for r m (current_log r a x l c (edit r (\<lambda>s. s\<lparr>s_cancelled := True\<rparr>) (announce_run r a m)))" for x l c
    by (rule speaks_trans [OF _ speaks_current_log])
  then show ?thesis
    by (simp add: exec_start_def Let_def speaks_current_log speaks_announce del: lit_simps)
qed

lemma exec_open_speaks: "speaks_for r m (fst (exec_open chan r a m))"
proof (cases "if s_client (store m r) then chan else None")
  case None
  then show ?thesis by (simp add: exec_open_def)
next
  case (Some ch)
  let ?m = "edit r (\<lambda>s. s\<lparr>s_channel := Some ch, s_cols := Some (r_cols a), s_rows := Some (r_rows a),
                    s_writer := Some new_writer,
                    s_cancelled := (if s_cancel_requested s then True else s_cancelled s)\<rparr>) m"
  obtain a' m' where s: "send_start r a ?m = (a', m')" by force
  have "speaks_for r m ?m" by (rule speaks_edit) simp
  then have "speaks_for r m ?m" "speaks_for r m m'"
    using speaks_trans speaks_send_start [OF s] by blast+
  then show ?thesis unfolding exec_open_def Some option.case Let_def s by auto
qed

lemma exec_read_speaks: "speaks_for r m (fst (exec_read ev r a m))"
proof -
  obtain a' m' where s: "send_start r a m = (a', m')" by force
  have w: "speaks_for r m (edit r (\<lambda>s. s\<lparr>s_writer := Some w'\<rparr>) m)" for w'
    by (rule speaks_edit) simp
  show ?thesis
    unfolding exec_read_def s using speaks_send_start [OF s] w
    by (auto split: read_event.splits option.splits)
qed

lemma exec_wait_ack_speaks: "speaks_for r m (fst (exec_wait_ack watching now r a txt seq m))"
proof -
  have "speaks_for r m (edit r (\<lambda>s. s\<lparr>s_ack_stalled := True\<rparr>) m)" by (rule speaks_edit) simp
  then show ?thesis
    unfolding exec_wait_ack_def wait_for_terminal_ack_def Let_def
    by (auto split: prod.splits ack_wait.splits bool.splits if_splits)
qed

lemma exec_feed_speaks: "speaks_for r m (fst (exec_feed now r a txt seq m))"
  by (simp add: exec_feed_def speaks_edit)

lemma exec_push_speaks: "speaks_for r m (fst (exec_push room is_shut r a txt seq m))"
  by (simp add: exec_push_def speaks_push)

lemma exec_sent_speaks: "speaks_for r m (fst (exec_sent r a txt seq m))"
  by (auto simp: exec_sent_def mark_sent_def intro!: speaks_edit split: option.splits)

lemma exec_done_speaks: "speaks_for r m (fst (exec_done r a res m))"
proof (cases res)
  case None
  then show ?thesis by (simp add: exec_done_def speaks_log split_beta)
next
  case (Some x)
  obtain a' m1 where s: "(if rr_gate_passed x then send_start r a m else (a, m)) = (a', m1)" by force
  have m1: "speaks_for r m m1" using s speaks_send_start by (cases "rr_gate_passed x") auto
  have dev: "r_device a' = r_device a"
    using s local_send_start(2) by (cases "rr_gate_passed x") auto
  let ?m2 = "if r_started a'
             then push_msg (TermEnd (r_device a') (r_run a')) (Some (s_owner (store m1 r))) (gen_of r m1) m1
             else m1"
  have m2: "speaks_for r m ?m2" using speaks_trans [OF m1 speaks_push] m1 by auto
  obtain y level where l: "end_line (store ?m2 r) (r_label a') x = (y, level)" by force
  have "speaks_for r m (log_msg (r_device a) y level None None g ?m2)" if "is_current m (r_device a) r" for g
    by (rule speaks_trans [OF m2 speaks_log]) (simp only: speaks_current [OF m2] that)
  then show ?thesis
    unfolding exec_done_def Some option.case s Let_def prod.case l by (auto simp: dev)
qed

lemma worker_speaks:
  assumes "worker_ref b = Some r" "worker_args b = Some a"
  shows "speaks_for r m (fst (perform e b m))"
  using assms
  by (cases b) (simp_all add: exec_start_speaks exec_open_speaks exec_read_speaks exec_wait_ack_speaks
      exec_feed_speaks exec_push_speaks exec_sent_speaks exec_done_speaks)

section \<open>Every step keeps it\<close>

lemma stamp_none [simp]: "stamp_for m own None"
  by (simp add: stamp_for_def)

lemma stay_pushes: "pushes (stay_connected own now now' m) = pushes m"
proof -
  have "pushes (foldl (\<lambda>m (did, r). if s_owner (store m r) = own \<and> s_busy (store m r)
      then edit r (\<lambda>s. s\<lparr>s_last_io := now'\<rparr>) m else m) m xs) = pushes m" for xs :: "(string \<times> nat) list" and m
    by (induction xs arbitrary: m) (auto split: prod.splits)
  then show ?thesis by (simp add: stay_connected_def)
qed

lemma snapshot_pushes: "pushes (fst (owner_terminal_snapshot own now m)) = pushes m"
proof -
  have "pushes (fst (fold (snapshot_device own now) xs (m, ts))) = pushes m" for xs m ts
  proof (induction xs arbitrary: m ts)
    case (Cons x xs)
    obtain m1 ts1 where 1: "snapshot_device own now x (m, ts) = (m1, ts1)" by force
    have "pushes m1 = pushes m" using 1 by (auto simp: snapshot_device_def Let_def split: prod.splits option.splits if_splits)
    then show ?case using Cons.IH by (simp add: 1)
  qed simp
  then show ?thesis by (simp add: owner_terminal_snapshot_def split_beta)
qed

lemma control_pushes:
  "pushes (fst (claim_terminal did run own socket m)) = pushes m"
  "pushes (fst (terminal_input did run rv data own socket now m)) = pushes m"
  "pushes (fst (terminal_resize did run rv cols rows own socket m)) = pushes m"
  "pushes (terminal_ack did run seq own now m) = pushes m"
  "pushes (fst (request_terminal_redraw did' run' own m)) = pushes m"
  "pushes (writer_stuck did' r run'' ch m) = pushes m"
  "pushes (force_stop did' r run'' ch m) = pushes m"
  by (simp_all add: claim_terminal_def terminal_input_def terminal_resize_def terminal_ack_def
      request_terminal_redraw_def writer_stuck_def force_stop_def Let_def
      split: option.splits json.splits prod.splits bool.splits)

lemma cancel_pushes:
  "cancel did run own m = (m', reply, new, timer) \<Longrightarrow>
     pushes m' = pushes m \<and> (\<forall>a \<in> set (new @ timer). stamp_act m' a)"
  by (auto simp: cancel_def Let_def split: option.splits if_splits)

lemma run_pushes:
  "run_command run now now' did raw sud lab own cmd cols rows m = (m', reply, new) \<Longrightarrow>
     pushes m' = pushes m \<and> (\<forall>a \<in> set new. stamp_act m' a)"
  by (auto simp: run_command_def Let_def split: option.splits if_splits prod.splits)

lemma connect_pushes:
  "connect did pw dev own now m = (m', reply, new) \<Longrightarrow>
     pushes m' = pushes m \<and> (\<forall>a \<in> set new. stamp_act m' a)"
  by (auto simp: connect_def reserve_def split: option.splits if_splits)

lemma call_pushes:
  assumes "start_call c m = (m', ts)"
  shows "pushes m' = pushes m \<and> (\<forall>a \<in> set (concat ts). stamp_act m' a)"
proof (cases c)
  case (CallConnect did pw dev own now)
  then show ?thesis using assms connect_pushes by (fastforce split: prod.splits)
next
  case (CallDisconnect did own reason)
  then show ?thesis using assms
    by (auto simp: disconnect_def drop_slot_def split: option.splits if_splits)
next
  case (CallTrust did code own now)
  then show ?thesis using assms
    by (auto simp: trust_host_key_def clear_pending_def split: option.splits)
next
  case (CallReject did code own now)
  then show ?thesis using assms
    by (auto simp: reject_host_key_def clear_pending_def split: option.splits)
next
  case (CallRun run now now' did raw sud lab own cmd cols rows)
  then show ?thesis using assms run_pushes by (fastforce split: prod.splits)
next
  case (CallCancel did run own)
  then show ?thesis using assms cancel_pushes by (fastforce split: prod.splits)
qed (use assms in \<open>auto simp: disconnect_all_def release_owner_def tick_idle_def sweep_expired_host_key_prompts_def
       stay_pushes snapshot_pushes control_pushes\<close>)

text \<open>The messages a step adds are as they should be.\<close>

definition says :: "manager \<Rightarrow> manager \<Rightarrow> bool" where
  "says m m' \<longleftrightarrow> (\<exists>ps. pushes m' = pushes m @ ps \<and> (\<forall>p \<in> set ps. push_ok m' p))"

lemma says_same [simp]: "pushes m' = pushes m \<Longrightarrow> says m m'"
  by (simp add: says_def)

lemma worker_says:
  assumes inv: "ssh_inv m (add_mset b A)" and b: "worker_ref b = Some r" "worker_args b = Some a"
    and out: "perform e b m = (m', new)"
  shows "says m m' \<and> (\<forall>a \<in> set new. stamp_act m' a)"
proof -
  note c = worker_continues [OF b, where e = e and m = m, unfolded out continues_def fst_conv snd_conv]
  note sp = worker_speaks [OF b, where e = e and m = m, unfolded out fst_conv]
  have r: "r < next_ref m" using inv b by (cases b) (auto simp: ssh_inv_def)
  then have gen: "s_generation (store m r) = Suc r" using inv by (simp add: ssh_inv_def session_ok_def)
  obtain ps where ps: "pushes m' = pushes m @ ps" "\<forall>p \<in> set ps. stamped (Suc r) (r_device a) p"
    using c gen by (auto simp: local_change_def)
  have next': "next_ref m' = next_ref m" using c by (simp add: local_change_def)
  have "owner_is (s_owner (store m' r)) p" if "p \<in> set ps" for p
    using sp that ps(1) by (auto simp: speaks_for_def)
  then have "push_ok m' p" if "p \<in> set ps" for p
    using that ps(2) r by (auto simp: push_ok_def stamped_def next')
  moreover have "stamp_act m' x" if "x \<in> set new" for x
    using c that by (cases x) auto
  ultimately show ?thesis using ps(1) by (auto simp: says_def)
qed

lemma connect_finish_says:
  assumes inv: "ssh_inv m (add_mset (NetConnect did r own rep) A)"
    and out: "connect_finish oc code now did r own rep m = (m', reply, new)"
  shows "pushes m' = pushes m \<and> (\<forall>a \<in> set new. stamp_act m' a)"
proof -
  have r: "r < next_ref m" "s_owner (store m r) = own" using inv by (auto simp: ssh_inv_def)
  then have gen: "s_generation (store m r) = Suc r" using inv by (simp add: ssh_inv_def session_ok_def)
  show ?thesis
    using out r gen
    by (auto simp: connect_finish_def raise_prompt_def connect_failed_def drop_slot_def stamp_for_def Let_def
        split: net_outcome.splits if_splits)
qed

lemma tick_says: "tick_owner now own m = (m', new) \<Longrightarrow> says m m' \<and> (\<forall>a \<in> set new. stamp_act m' a)"
  by (auto simp: tick_owner_def idle_clock_def owner_pop_def push_msg_def says_def push_ok_def Let_def
      split: if_splits option.splits)

lemma said_push_ok:
  "gen = None \<Longrightarrow> \<not> is_terminal b \<Longrightarrow> says m (push_msg b own gen m)"
  by (simp add: says_def push_ok_def)

lemma act_says:
  assumes inv: "ssh_inv m (add_mset a A)" and ok: "stamp_act m a" and out: "perform e a m = (m', new)"
  shows "says m m' \<and> (\<forall>b \<in> set new. stamp_act m' b)"
proof (cases "\<exists>r x. worker_ref a = Some r \<and> worker_args a = Some x")
  case True
  then show ?thesis using worker_says [OF inv] out by blast
next
  case False
  show ?thesis
  proof (cases a)
    case (NetConnect did r own rep)
    then show ?thesis using connect_finish_says inv out by (fastforce split: prod.splits)
  next
    case (TickOwner now own)
    then show ?thesis using tick_says out by simp
  next
    case (Log did body level own cmd gen)
    have "push_ok m' p" if "p = \<lparr>m_body = SshLog did body level cmd, m_owner = stamped_owner own did m, m_gen = gen\<rparr>" for p
      using ok out by (auto simp: Log that push_ok_def stamp_for_def owner_is_def stamped_owner_def split: if_splits)
    then show ?thesis using out by (auto simp: Log says_def log_msg_def)
  next
    case (Status did st own gen reason)
    have "push_ok m' p" if "m_body p = SshStatus did st x" "m_owner p = stamped_owner own did m" "m_gen p = gen" for p x
      using ok out by (auto simp: Status that push_ok_def stamp_for_def owner_is_def stamped_owner_def split: if_splits)
    then show ?thesis using out by (auto simp: Status says_def status_msg_def)
  next
    case (StatusConnected r)
    have "r < next_ref m" "s_generation (store m r) = Suc r"
      using inv StatusConnected by (auto simp: ssh_inv_def session_ok_def)
    then have "push_ok m' p" if "m_body p = SshStatus (s_device_id (store m r)) st x"
      "m_owner p = stamped_owner None (s_device_id (store m r)) m" "m_gen p = Some (Suc r)" for p st x
      using out by (auto simp: StatusConnected that push_ok_def owner_is_def stamped_owner_def status_connected_def split: if_splits)
    then show ?thesis
      using out \<open>s_generation (store m r) = Suc r\<close>
      by (auto simp: StatusConnected says_def status_connected_def status_msg_def gen_of_def)
  next
    case (Lock did b gen)
    then show ?thesis using ok out by (auto simp: says_def lock_msg_def push_ok_def)
  next
    case (FinishExec r)
    then show ?thesis using out by (auto simp: finish_exec_def Let_def split: if_splits)
  next
    case (SweepDevice now did)
    then show ?thesis using out
      by (auto simp: sweep_device_def clear_pending_def split: option.splits if_splits)
  next
    case (CloseSlot did sess reason)
    then show ?thesis using out by (auto simp: close_slot_def drop_slot_def split: option.splits if_splits)
  next
    case (SaveKey did r p)
    then show ?thesis using out by (auto simp: trust_finish_def split: save_outcome.splits)
  next
    case (PushTo b own)
    then show ?thesis using out ok by (auto simp: said_push_ok)
  qed (use False out in \<open>auto simp: clear_pending_def owner_touch_def owner_reset_def owner_pop_def clear_activity_def
         release_prompts_def control_pushes split: option.splits\<close>)
qed

lemma route_inv_step:
  assumes "route_inv m A" "slots_move m m'" "says m m'" "ssh_inv m' (A' + mset new)"
    and "A' \<subseteq># A" "\<forall>a \<in> set new. stamp_act m' a"
  shows "route_inv m' (A' + mset new)"
proof -
  have "push_ok m' p" if "p \<in> set (pushes m')" for p
    using assms(1,3) that push_ok_move [OF assms(2)] by (auto simp: route_inv_def says_def)
  moreover have "stamp_act m' a" if "a \<in># A'" for a
    using assms(1,5) that stamp_act_move [OF assms(2)] mset_subset_eqD by (fastforce simp: route_inv_def)
  ultimately show ?thesis using assms(4,6) by (auto simp: route_inv_def)
qed

interpretation routing: invariant_system ssh_init ssh_step "\<lambda>s. route_inv (mgr s) (acts s)"
proof
  fix s assume "ssh_init s"
  then show "route_inv (mgr s) (acts s)"
    by (simp add: ssh_init_def acts_def inv_init route_inv_def) (simp add: new_manager_def)
next
  fix s t assume inv: "route_inv (mgr s) (acts s)" and step: "ssh_step s t"
  have si: "ssh_inv (mgr s) (acts s)" using inv by (simp add: route_inv_def)
  note move = move_step [OF si step] and si' = ssh.step_inv [OF si step]
  from step show "route_inv (mgr t) (acts t)"
  proof (rule ssh_stepE)
    fix c m' ts
    assume t: "t = \<lparr>mgr = m', threads = threads s @ ts\<rparr>" "start_call c (mgr s) = (m', ts)"
    have "acts t = acts s + mset (concat ts)" by (simp add: t(1) acts_def)
    then show ?thesis
      using route_inv_step [OF inv move _ _ subset_mset.order_refl, of "concat ts"] call_pushes [OF t(2)] si' t(1) by simp
  next
    fix i a rest e m' new
    assume t: "t = \<lparr>mgr = m', threads = (threads s)[i := new @ rest]\<rparr>" "i < length (threads s)"
      "threads s ! i = a # rest" and p: "perform e a (mgr s) = (m', new)"
    have "a \<in># acts s"
      using t(2,3) unfolding acts_def by (metis in_set_conv_nth list.set_intros(1) set_concat set_mset_mset UN_I)
    then obtain A where A: "acts s = add_mset a A" by (metis insert_DiffM)
    have split: "add_mset a (acts t) = acts s + mset new"
      using acts_split [OF t(2,3), of new] t(1) by (simp add: acts_def)
    then have at: "acts t = A + mset new" using A by simp
    have "stamp_act (mgr s) a" using inv A by (simp add: route_inv_def)
    note says = act_says [OF si [unfolded A] this p]
    show ?thesis
      unfolding at by (rule route_inv_step [OF inv move]) (use says si' at A t(1) in \<open>simp_all\<close>)
  qed
qed

section \<open>Whose browsers see a command's output\<close>

lemma route_owner:
  assumes "consistent w" "own \<noteq> []"
  shows "view k (route_message size_of guarded b (Some own) w) =
    apply_sock k (SendOwner own (frame_of size_of guarded b)) (view k w)"
proof -
  have "route_message size_of guarded b (Some own) w = ws_apply (SendOwner own (frame_of size_of guarded b)) w"
    using assms(2) by (cases own) (simp_all add: route_message_def)
  then show ?thesis using apply_view [OF assms(1), of "SendOwner own (frame_of size_of guarded b)" k] by simp
qed

lemma delivered_to_holder:
  assumes inv: "route_inv m A" and p: "p \<in> set (pushes m)" "m_gen p = Some g" "\<not> is_lock (m_body p)"
    and out: "deliver m p = Some (b, own)"
  shows "\<exists>did r. msg_device (m_body p) = Some did \<and> current m did = Some r \<and> owner_is (s_owner (store m r)) p
    \<and> b = m_body p \<and> own = m_owner p"
proof -
  obtain did r where d: "msg_device (m_body p) = Some did" "current m did = Some r" "s_generation (store m r) = g"
    "b = m_body p" "own = m_owner p"
    using out p(2) by (auto simp: deliver_def bind_eq_Some_conv split: option.splits if_splits)
  have si: "ssh_inv m A" using inv by (simp add: route_inv_def)
  have "Suc r = g" using d(2,3) si inv_currentD(1) [OF si d(2)] by (simp add: ssh_inv_def session_ok_def)
  moreover have "push_ok m p" using inv p(1) by (simp add: route_inv_def)
  ultimately have "owner_is (s_owner (store m r)) p" using d(1,2) p(2,3) by (auto simp: push_ok_def)
  then show ?thesis using d by blast
qed

text \<open>
  C3. What a command prints is seen by its owner's browsers only. Take any state of the session
  manager that is reachable under any interleaving, any message pushed before about a command's
  terminal (its start, its output, its end), or any other one stamped with a session but for the
  locks, and deliver it now. Either nothing at all is queued for any browser, or some session holds
  the message's device at this moment and the message is queued, as its own frame, for the sockets of
  that session's owner; every other socket is left as it was.
\<close>

theorem output_reaches_owner_only:
  assumes "ssh_reachable s" and "p \<in> set (pushes (mgr s))"
    and kind: "is_terminal (m_body p) \<or> m_gen p \<noteq> None \<and> \<not> is_lock (m_body p)"
    and named: "\<forall>r < next_ref (mgr s). s_owner (store (mgr s) r) \<noteq> []"
    and run: "w = run_ws ops" "distinct (connected ops)"
  shows "hand_over size_of (mgr s) p w = w
    \<or> (\<exists>did r. msg_device (m_body p) = Some did \<and> current (mgr s) did = Some r
        \<and> (\<forall>k. view k (hand_over size_of (mgr s) p w) =
            (case view k w of
               Some (x, Some own) \<Rightarrow>
                 if own = s_owner (store (mgr s) r)
                 then map_option (\<lambda>x. (x, Some own)) (recv (frame_of size_of True (m_body p)) x)
                 else Some (x, Some own)
             | v \<Rightarrow> v)))"
proof (cases "deliver (mgr s) p")
  case None
  then show ?thesis by (simp add: hand_over_def)
next
  case (Some x)
  obtain b own where x: "x = (b, own)" by force
  note inv = routing.reachable_inv [OF assms(1)]
  have "push_ok (mgr s) p" using inv assms(2) by (simp add: route_inv_def)
  then obtain g where g: "m_gen p = Some g" "\<not> is_lock (m_body p)"
    using kind by (cases "m_body p") (auto simp: push_ok_def)
  obtain did r where d: "msg_device (m_body p) = Some did" "current (mgr s) did = Some r"
    "owner_is (s_owner (store (mgr s) r)) p" "b = m_body p" "own = m_owner p"
    using delivered_to_holder [OF inv assms(2) g Some [unfolded x]] by blast
  have "ssh_inv (mgr s) (acts s)" using inv by (simp add: route_inv_def)
  then have ne: "s_owner (store (mgr s) r) \<noteq> []" using named inv_currentD(1) d(2) by blast
  then have "m_owner p = Some (s_owner (store (mgr s) r))" using d(3) by (simp add: owner_is_def)
  then have h: "hand_over size_of (mgr s) p w =
      route_message size_of True (m_body p) (Some (s_owner (store (mgr s) r))) w"
    by (simp add: hand_over_def Some x d(4,5) g)
  have c: "consistent w" using run_inv run by blast
  have "view k (hand_over size_of (mgr s) p w) =
      (case view k w of Some (x, Some own) \<Rightarrow>
           if own = s_owner (store (mgr s) r)
           then map_option (\<lambda>x. (x, Some own)) (recv (frame_of size_of True (m_body p)) x)
           else Some (x, Some own)
       | v \<Rightarrow> v)" for k
    unfolding h route_owner [OF c ne] using ne
    by (auto simp: apply_sock_def split: option.splits)
  then show ?thesis using d(1,2) by blast
qed

definition alice_started :: ssh_sys where
  "alice_started = run_first any_env 1 (run_first any_env 1 alice_runs)"

definition start_message :: pushed where
  "start_message = \<lparr>m_body = TermStart ''d1'' ''r1'' None 120 30, m_owner = Some ''alice'', m_gen = Some 1\<rparr>"

definition alice_and_bob :: "message ws_op list" where
  "alice_and_bob = [Connect 1 (Some ''alice'') ''s1'', Connect 2 (Some ''bob'') ''s2'']"

lemma alice_started_simps:
  "ssh_reachable alice_started" "start_message \<in> set (pushes (mgr alice_started))"
  "next_ref (mgr alice_started) = 1" "s_owner (store (mgr alice_started) 0) = ''alice''"
  "current (mgr alice_started) ''d1'' = Some 0" "s_generation (store (mgr alice_started) 0) = 1"
  subgoal unfolding alice_started_def by (intro run_first_reachable alice_reachable)
  by (simp_all add: alice_started_def start_message_def alice_runs_def alice_connected_def alice_connects_def trace_defs
      exec_start_def exec_open_def send_start_def announce_run_def current_log_def log_msg_def status_msg_def
      stamped_owner_def gen_of_def TERM_DEFAULT_COLS_def TERM_DEFAULT_ROWS_def TERM_MIN_COLS_def
      TERM_MAX_COLS_def TERM_MIN_ROWS_def TERM_MAX_ROWS_def del: lit_simps)

theorem output_reaches_owner_only_witness:
  "view 2 (hand_over (\<lambda>b. 7) (mgr alice_started) start_message (run_ws alice_and_bob)) = Some (new_sock, Some ''bob'')
   \<and> view 1 (hand_over (\<lambda>b. 7) (mgr alice_started) start_message (run_ws alice_and_bob))
       = Some (put_frame (frame_of (\<lambda>b. 7) True (m_body start_message)) new_sock, Some ''alice'')"
proof -
  note a = alice_started_simps
  let ?w = "run_ws alice_and_bob"
  have v: "view 1 ?w = Some (new_sock, Some ''alice'')" "view 2 ?w = Some (new_sock, Some ''bob'')"
    by (simp_all add: alice_and_bob_def run_ws_def view_def ws_connect_def new_ws_mgr_def)
  have named: "\<forall>r < next_ref (mgr alice_started). s_owner (store (mgr alice_started) r) \<noteq> []"
    using a(3,4) by simp
  have kind: "is_terminal (m_body start_message) \<or> m_gen start_message \<noteq> None \<and> \<not> is_lock (m_body start_message)"
    by (simp add: start_message_def)
  have d: "distinct (connected alice_and_bob)" by (simp add: alice_and_bob_def)
  have r: "recv (frame_of (\<lambda>b. 7) True (m_body start_message)) new_sock
      = Some (put_frame (frame_of (\<lambda>b. 7) True (m_body start_message)) new_sock)"
    by (simp add: recv_def new_sock_def frame_of_def SOCKET_QUEUE_MAX_BYTES_def put_frame_def)
  have ne: "hand_over (\<lambda>b. 7) (mgr alice_started) start_message ?w \<noteq> ?w"
  proof
    assume same: "hand_over (\<lambda>b. 7) (mgr alice_started) start_message ?w = ?w"
    have "hand_over (\<lambda>b. 7) (mgr alice_started) start_message ?w
        = route_message (\<lambda>b. 7) True (m_body start_message) (Some ''alice'') ?w"
      using a(5,6) by (simp add: hand_over_def deliver_def start_message_def)
    moreover have "consistent ?w" using run_inv [OF d] by blast
    ultimately have c: "consistent ?w" and h: "route_message (\<lambda>b. 7) True (m_body start_message) (Some ''alice'') ?w = ?w"
      using same by simp_all
    have "view 1 (route_message (\<lambda>b. 7) True (m_body start_message) (Some ''alice'') ?w)
        = apply_sock 1 (SendOwner ''alice'' (frame_of (\<lambda>b. 7) True (m_body start_message))) (view 1 ?w)"
      by (rule route_owner [OF c]) simp
    then show False unfolding h v by (simp add: apply_sock_def r) (simp add: put_frame_def new_sock_def)
  qed
  obtain did r where "msg_device (m_body start_message) = Some did" "current (mgr alice_started) did = Some r"
    and all: "\<forall>k. view k (hand_over (\<lambda>b. 7) (mgr alice_started) start_message ?w) =
      (case view k ?w of
         Some (x, Some own) \<Rightarrow>
           if own = s_owner (store (mgr alice_started) r)
           then map_option (\<lambda>x. (x, Some own)) (recv (frame_of (\<lambda>b. 7) True (m_body start_message)) x)
           else Some (x, Some own)
       | v \<Rightarrow> v)"
    using output_reaches_owner_only [OF a(1,2) kind named refl d, of "\<lambda>b. 7"] ne by blast
  moreover have "msg_device (m_body start_message) = Some ''d1''" by (simp add: start_message_def)
  ultimately have "r = 0" using a(5) by simp
  have "\<forall>k. view k (hand_over (\<lambda>b. 7) (mgr alice_started) start_message ?w) =
      (case view k ?w of
         Some (x, Some own) \<Rightarrow>
           if own = ''alice'' then map_option (\<lambda>x. (x, Some own)) (recv (frame_of (\<lambda>b. 7) True (m_body start_message)) x)
           else Some (x, Some own)
       | v \<Rightarrow> v)"
    using all unfolding \<open>r = 0\<close> a(4) .
  then show ?thesis by (simp add: v v(1) [unfolded One_nat_def] r)
qed

end
