(* ===== verification/Ws_Endpoint.thy ===== *)
theory Ws_Endpoint
  imports Ws_Properties
begin

text \<open>
  The WebSocket endpoint and the grace period (\<open>ws_endpoint\<close>, \<open>_cancel_pending_release\<close>,
  \<open>_release_after_grace\<close> and the sign-out route of \<open>main.py\<close>), on top of the manager: which
  owners have a browser, and when an owner without one loses its SSH sessions.

  A step is what runs between two awaits. The owner is the digest of the session token; ids of
  socket objects are fresh while their endpoint runs. What a release does to the SSH sessions
  is \<open>release_owner\<close> of the session manager's theories; here it is an entry of the history.
\<close>

section \<open>Inbound messages\<close>

text \<open>
  A message is the value \<open>json.loads\<close> returns, None when it raises. A value that is not an
  object has no \<open>get\<close>, and the handler raises.
\<close>

datatype inbound =
    Ignored
  | Raises
  | Select_Device json
  | Stay_Connected
  | Term_Claim json json
  | Term_Input json json json json
  | Term_Resize json json json json json
  | Term_Ack json json json

definition field :: "(pystr, json) dict \<Rightarrow> string \<Rightarrow> json" where
  "field d k = (case json_get d k of None \<Rightarrow> JNull | Some v \<Rightarrow> v)"

definition inbound_of :: "json option \<Rightarrow> inbound" where
  "inbound_of raw =
     (case raw of
        None \<Rightarrow> Ignored
      | Some (JObj d) \<Rightarrow>
          (let ty = field d ''type'' in
           if ty = js ''select_device'' then Select_Device (field d ''id'')
           else if ty = js ''stay_connected'' then Stay_Connected
           else if ty = js ''term_claim'' then Term_Claim (field d ''device_id'') (field d ''run_id'')
           else if ty = js ''term_input''
           then Term_Input (field d ''device_id'') (field d ''run_id'') (field d ''rev'') (field d ''data'')
           else if ty = js ''term_resize''
           then Term_Resize (field d ''device_id'') (field d ''run_id'') (field d ''rev'') (field d ''cols'') (field d ''rows'')
           else if ty = js ''term_ack''
           then Term_Ack (field d ''device_id'') (field d ''run_id'') (field d ''seq'')
           else Ignored)
      | Some _ \<Rightarrow> Raises)"

section \<open>State\<close>

datatype presence = Arrived | Left | Released | SignedOut

record 'd app =
  mgr :: "'d ws_mgr"
  serving :: "(nat, string) dict"
  pending_releases :: "(string, rat) dict"
  clock :: rat
  past :: "(rat \<times> string \<times> presence) list"

text \<open>
  \<open>serving\<close> lists the endpoint coroutines that are running and their owners; a pending release is
  the time its sleep ends; \<open>past\<close> is the history, newest first.
\<close>

definition new_app :: "'d app" where
  "new_app = \<lparr>mgr = new_ws_mgr, serving = [], pending_releases = [], clock = 0, past = []\<rparr>"

definition note_event :: "string \<Rightarrow> presence \<Rightarrow> 'd app \<Rightarrow> 'd app" where
  "note_event own e a = a\<lparr>past := (clock a, own, e) # past a\<rparr>"

section \<open>Steps\<close>

definition cancel_pending_release :: "string \<Rightarrow> 'd app \<Rightarrow> 'd app" where
  "cancel_pending_release own a = a\<lparr>pending_releases := dict_pop own (pending_releases a)\<rparr>"

text \<open>The endpoint from the accepted connection to its first frame.\<close>

definition serve :: "nat \<Rightarrow> string \<Rightarrow> string \<Rightarrow> 'd frame \<Rightarrow> 'd app \<Rightarrow> 'd app" where
  "serve ws own sid init a =
     (let a = note_event own Arrived (a\<lparr>mgr := ws_connect ws (Some own) sid (mgr a), serving := dict_set ws own (serving a)\<rparr>);
          a = cancel_pending_release own a
      in a\<lparr>mgr := send_init init ws (mgr a)\<rparr>)"

text \<open>One received message, as far as it concerns this state.\<close>

definition receive :: "nat \<Rightarrow> json option \<Rightarrow> 'd app \<Rightarrow> 'd app" where
  "receive ws raw a =
     (case inbound_of raw of
        Select_Device v \<Rightarrow> a\<lparr>mgr := set_selected_device ws v (mgr a)\<rparr>
      | _ \<Rightarrow> a)"

text \<open>The \<open>finally\<close> block.\<close>

definition leave :: "nat \<Rightarrow> string \<Rightarrow> 'd app \<Rightarrow> 'd app" where
  "leave ws own a =
     (let a = note_event own Left (a\<lparr>mgr := ws_drop ws (mgr a), serving := dict_pop ws (serving a)\<rparr>)
      in if owner_count own (mgr a) = 0
         then (let a = cancel_pending_release own a
               in a\<lparr>pending_releases := dict_set own (clock a + WS_RELEASE_GRACE_SECONDS) (pending_releases a)\<rparr>)
         else a)"

text \<open>\<open>_release_after_grace\<close> after its sleep.\<close>

definition release_after_grace :: "string \<Rightarrow> 'd app \<Rightarrow> 'd app" where
  "release_after_grace own a =
     (let a = a\<lparr>pending_releases := dict_pop own (pending_releases a)\<rparr>
      in if owner_count own (mgr a) = 0 then note_event own Released a else a)"

definition sign_out :: "string \<Rightarrow> 'd app \<Rightarrow> 'd app" where
  "sign_out own a = note_event own SignedOut (cancel_pending_release own a)"

section \<open>Runs\<close>

datatype 'd app_op =
    Serve nat string string "'d frame"
  | Receive nat "json option"
  | Leave nat
  | Manager "'d ws_op"
  | Fire string
  | SignOut string
  | Elapse rat

text \<open>
  The operations the rest of the program and the senders run on the manager: connecting,
  dropping, first frames and selections are the endpoint's.
\<close>

fun internal :: "'d ws_op \<Rightarrow> bool" where
  "internal (Connect ws own sid) = False"
| "internal (Init ws f) = False"
| "internal (Drop ws) = False"
| "internal (Select ws v) = False"
| "internal op = True"

text \<open>A step that is not due does nothing.\<close>

fun app_apply :: "'d app_op \<Rightarrow> 'd app \<Rightarrow> 'd app" where
  "app_apply (Serve ws own sid init) a =
     (if dict_get (serving a) ws = None \<and> own \<noteq> [] then serve ws own sid init a else a)"
| "app_apply (Receive ws raw) a = (if dict_get (serving a) ws \<noteq> None then receive ws raw a else a)"
| "app_apply (Leave ws) a = (case dict_get (serving a) ws of None \<Rightarrow> a | Some own \<Rightarrow> leave ws own a)"
| "app_apply (Manager op) a = (if internal op then a\<lparr>mgr := ws_apply op (mgr a)\<rparr> else a)"
| "app_apply (Fire own) a =
     (case dict_get (pending_releases a) own of
        Some t \<Rightarrow> if t \<le> clock a then release_after_grace own a else a
      | None \<Rightarrow> a)"
| "app_apply (SignOut own) a = sign_out own a"
| "app_apply (Elapse d) a = (if d > 0 then a\<lparr>clock := clock a + d\<rparr> else a)"

definition app_run :: "'d app_op list \<Rightarrow> 'd app" where
  "app_run ops = fold app_apply ops new_app"

end
