(* ===== verification/Ws_Presence.thy ===== *)
theory Ws_Presence
  imports Ws_Endpoint
begin

text \<open>
  When an owner without a browser loses its SSH sessions: never while a browser is connected or
  less than the grace period after the last one went, and every owner whose last endpoint has
  ended has a release pending until it comes back, signs out or is released.
\<close>

section \<open>What an operation does to owners and selections\<close>

lemma apply_keeps_owner:
  assumes "consistent m" "connects op = None" "w \<in> set (connections (ws_apply op m))"
  shows "w \<in> set (connections m)" "dict_get (owners (ws_apply op m)) w = dict_get (owners m) w"
proof -
  have c: "consistent (ws_apply op m)" using assms by (intro apply_consistent) auto
  then have "view w (ws_apply op m) \<noteq> None" using assms(3) by (auto simp: consistent_def view_def)
  then have "apply_sock w op (view w m) \<noteq> None" using apply_view [OF assms(1), of op w] assms(2) by simp
  then obtain s own s1 where v: "view w m = Some (s, own)" "sock_op w own op s = Some s1"
    by (auto simp: apply_sock_def bind_eq_Some_conv)
  then show "w \<in> set (connections m)" using assms(1) by (auto simp: view_def consistent_def)
  have "view w (ws_apply op m) = Some (s1, own)"
    using apply_view [OF assms(1), of op w] assms(2) v by (simp add: apply_sock_def)
  then show "dict_get (owners (ws_apply op m)) w = dict_get (owners m) w"
    using v(1) by (auto simp: view_def)
qed

lemma owner_count_zero:
  assumes "consistent m"
  shows "owner_count own m = 0 \<longleftrightarrow> (\<forall>w. dict_get (owners m) w \<noteq> Some own)"
  using assms by (auto simp: consistent_def owner_count_def filter_empty_conv wf_dict_get_iff)

definition narrower :: "'d ws_mgr \<Rightarrow> 'd ws_mgr \<Rightarrow> bool" where
  "narrower m1 m \<longleftrightarrow> (\<forall>w. dict_get (selections m1) w \<noteq> None \<longrightarrow> dict_get (selections m) w \<noteq> None)"

lemma narrower_refl [simp]: "narrower m m"
  by (simp add: narrower_def)

lemma narrower_fold: "(\<And>x m. narrower (g x m) m) \<Longrightarrow> narrower (fold g xs m) m"
proof (induction xs arbitrary: m)
  case (Cons x xs)
  have "narrower (fold g xs (g x m)) (g x m)" "narrower (g x m) m" using Cons by auto
  then show ?case by (simp add: narrower_def)
qed (simp add: narrower_def)

lemma narrower_enqueue: "narrower (ws_enqueue f ws m) m"
  by (auto simp: narrower_def ws_defs dict_simps split: option.splits)

lemma internal_selections: "internal op \<Longrightarrow> narrower (ws_apply op m) m"
proof (cases op)
  case (Broadcast f)
  then show ?thesis by (simp add: broadcast_def narrower_fold narrower_enqueue)
next
  case (SendOwner own f)
  have "narrower (fold (enqueue_if own f) xs m) m" for xs
    by (rule narrower_fold) (simp add: enqueue_if_def narrower_enqueue)
  then show ?thesis using SendOwner by (simp add: send_to_owner_def enqueue_if_def narrower_def)
next
  case (Unselect did)
  have "narrower (fold (\<lambda>(ws, v) m. if v = JStr did then m\<lparr>selections := dict_pop ws (selections m)\<rparr> else m) ss m) m" for ss
    by (rule narrower_fold) (auto simp: narrower_def dict_simps split: if_splits)
  then show ?thesis using Unselect by (simp add: unselect_device_everywhere_def)
next
  case (SendTo ws f)
  then show ?thesis by (simp add: send_to_def narrower_enqueue)
qed (auto simp: narrower_def ws_defs dict_simps split: option.splits list.splits sender.splits send_event.splits)

section \<open>The invariant\<close>

definition last_event :: "string \<Rightarrow> 'd app \<Rightarrow> (rat \<times> string \<times> presence) option" where
  "last_event own a = find (\<lambda>(t, o1, e). o1 = own) (past a)"

definition app_ok :: "'d app \<Rightarrow> bool" where
  "app_ok a \<longleftrightarrow> consistent (mgr a) \<and> wf_dict (serving a)
     \<and> (\<forall>w \<in> set (connections (mgr a)). dict_get (serving a) w \<noteq> None
          \<and> dict_get (owners (mgr a)) w = dict_get (serving a) w)
     \<and> (\<forall>w. dict_get (selections (mgr a)) w \<noteq> None \<longrightarrow> dict_get (serving a) w \<noteq> None)"

definition releases_ok :: "'d app \<Rightarrow> bool" where
  "releases_ok a \<longleftrightarrow>
     (\<forall>own t. dict_get (pending_releases a) own = Some t \<longrightarrow>
        owner_count own (mgr a) = 0 \<and> last_event own a = Some (t - WS_RELEASE_GRACE_SECONDS, own, Left))
     \<and> (\<forall>own t. last_event own a = Some (t, own, Left) \<and> (\<forall>w. dict_get (serving a) w \<noteq> Some own) \<longrightarrow>
        dict_get (pending_releases a) own = Some (t + WS_RELEASE_GRACE_SECONDS))"

lemma last_note: "last_event own (note_event o1 e a) = (if o1 = own then Some (clock a, own, e) else last_event own a)"
  by (simp add: last_event_def note_event_def)

lemma app_ok_apply:
  assumes "app_ok a" "connects op = None"
    and "\<And>w. dict_get (selections (ws_apply op (mgr a))) w \<noteq> None \<Longrightarrow> dict_get (serving a) w \<noteq> None"
  shows "app_ok (a\<lparr>mgr := ws_apply op (mgr a)\<rparr>)"
proof -
  have c: "consistent (mgr a)" using assms(1) by (simp add: app_ok_def)
  have "consistent (ws_apply op (mgr a))" using c assms(2) by (intro apply_consistent) auto
  then show ?thesis
    using assms apply_keeps_owner [OF c assms(2)] by (auto simp: app_ok_def)
qed

lemma app_ok_calls:
  "app_ok a \<Longrightarrow> internal op \<Longrightarrow> app_ok (a\<lparr>mgr := ws_apply op (mgr a)\<rparr>)"
  "app_ok a \<Longrightarrow> app_ok (a\<lparr>mgr := send_init f ws (mgr a)\<rparr>)"
  "app_ok a \<Longrightarrow> dict_get (serving a) ws \<noteq> None \<Longrightarrow> app_ok (a\<lparr>mgr := set_selected_device ws v (mgr a)\<rparr>)"
proof -
  assume "app_ok a"
  show "internal op \<Longrightarrow> app_ok (a\<lparr>mgr := ws_apply op (mgr a)\<rparr>)"
    using \<open>app_ok a\<close> internal_selections [of op "mgr a"]
    by (intro app_ok_apply; cases op) (auto simp: narrower_def app_ok_def)
  have "app_ok (a\<lparr>mgr := ws_apply (Init ws f) (mgr a)\<rparr>)"
    using \<open>app_ok a\<close> by (intro app_ok_apply)
      (auto simp: app_ok_def ws_defs dict_simps split: option.splits if_splits)
  then show "app_ok (a\<lparr>mgr := send_init f ws (mgr a)\<rparr>)" by simp
  assume "dict_get (serving a) ws \<noteq> None"
  then have "app_ok (a\<lparr>mgr := ws_apply (Select ws v) (mgr a)\<rparr>)"
    using \<open>app_ok a\<close> by (intro app_ok_apply)
      (auto simp: app_ok_def set_selected_device_def dict_simps split: if_splits)
  then show "app_ok (a\<lparr>mgr := set_selected_device ws v (mgr a)\<rparr>)" by simp
qed

lemma app_ok_connect:
  assumes "app_ok a" "dict_get (serving a) ws = None" "own \<noteq> []"
  shows "app_ok (a\<lparr>mgr := ws_connect ws (Some own) sid (mgr a), serving := dict_set ws own (serving a)\<rparr>)"
proof -
  have w: "ws \<notin> set (connections (mgr a))" using assms by (auto simp: app_ok_def)
  obtain c cs where "own = c # cs" using assms(3) by (cases own) auto
  moreover have "consistent (ws_apply (Connect ws (Some own) sid) (mgr a))"
    using assms w by (intro apply_consistent) (auto simp: app_ok_def)
  ultimately show ?thesis using assms w
    by (auto simp: app_ok_def ws_connect_def dict_simps)
qed

lemma app_ok_drop: "app_ok a \<Longrightarrow> app_ok (a\<lparr>mgr := ws_drop ws (mgr a), serving := dict_pop ws (serving a)\<rparr>)"
  by (auto simp: app_ok_def drop_consistent) (auto simp: ws_drop_def dict_simps)

lemma app_ok_other [simp]:
  "app_ok (a\<lparr>pending_releases := ps\<rparr>) = app_ok a" "app_ok (note_event own e a) = app_ok a" "app_ok (a\<lparr>clock := t\<rparr>) = app_ok a"
  by (simp_all add: app_ok_def note_event_def)

lemma app_ok_serve:
  assumes "app_ok a" "dict_get (serving a) ws = None" "own \<noteq> []"
  shows "app_ok (serve ws own sid init a)"
  unfolding serve_def Let_def
  by (intro app_ok_calls(2)) (simp add: cancel_pending_release_def app_ok_connect [OF assms])

lemma app_ok_step: "app_ok a \<Longrightarrow> app_ok (app_apply op a)"
  by (cases op) (auto simp: app_ok_serve receive_def leave_def release_after_grace_def sign_out_def
      cancel_pending_release_def Let_def app_ok_calls app_ok_connect app_ok_drop
      split: inbound.splits option.splits)

section \<open>Releases\<close>

text \<open>How many of an owner's sockets are connected never grows except by connecting.\<close>

lemma count_zero_kept:
  assumes "app_ok a" "connects op = None" "owner_count own (mgr a) = 0"
  shows "owner_count own (ws_apply op (mgr a)) = 0"
proof -
  have c: "consistent (mgr a)" using assms(1) by (simp add: app_ok_def)
  then have c1: "consistent (ws_apply op (mgr a))" using assms(2) by (intro apply_consistent) auto
  have "dict_get (owners (ws_apply op (mgr a))) w \<noteq> Some own" for w
  proof
    assume o: "dict_get (owners (ws_apply op (mgr a))) w = Some own"
    then have "w \<in> set (connections (ws_apply op (mgr a)))" using c1 by (auto simp: consistent_def)
    from apply_keeps_owner [OF c assms(2) this] o have "dict_get (owners (mgr a)) w = Some own" by simp
    then show False using assms(3) owner_count_zero [OF c] by simp
  qed
  then show ?thesis using owner_count_zero [OF c1] by simp
qed

lemma releases_manager:
  "app_ok a \<Longrightarrow> releases_ok a \<Longrightarrow> connects op = None \<Longrightarrow> releases_ok (a\<lparr>mgr := ws_apply op (mgr a)\<rparr>)"
  using count_zero_kept [of a op] by (simp add: releases_ok_def last_event_def)

lemma count_serving:
  assumes "app_ok a" "\<And>w. dict_get (serving a) w \<noteq> Some own"
  shows "owner_count own (mgr a) = 0"
proof -
  have c: "consistent (mgr a)" using assms(1) by (simp add: app_ok_def)
  have "dict_get (owners (mgr a)) w \<noteq> Some own" for w
  proof
    assume o: "dict_get (owners (mgr a)) w = Some own"
    then have "dict_get (owners (mgr a)) w \<noteq> None" by simp
    then have "w \<in> set (connections (mgr a))" using c unfolding consistent_def by blast
    then have "dict_get (serving a) w = Some own" using assms(1) o by (simp add: app_ok_def)
    then show False using assms(2) by simp
  qed
  then show ?thesis using owner_count_zero [OF c] by simp
qed

lemma owners_connect:
  "own \<noteq> [] \<Longrightarrow> dict_get (owners (ws_connect ws (Some own) sid m)) w = (if w = ws then Some own else dict_get (owners m) w)"
  by (auto simp: ws_connect_def dict_simps split: list.splits)

lemma releases_arrive:
  assumes "releases_ok a" "dict_get (serving a) ws = None"
    and "\<And>o1. owner_count o1 (mgr a) = 0 \<Longrightarrow> o1 \<noteq> own \<Longrightarrow> owner_count o1 (mgr b) = 0"
    and "\<And>o1. dict_get (pending_releases b) o1 = (if o1 = own then None else dict_get (pending_releases a) o1)"
    and "\<And>o1. last_event o1 b = (if o1 = own then Some (clock a, own, Arrived) else last_event o1 a)"
    and "\<And>w. dict_get (serving b) w = (if w = ws then Some own else dict_get (serving a) w)"
  shows "releases_ok b"
  unfolding releases_ok_def
proof (intro conjI allI impI)
  fix o1 t assume p: "dict_get (pending_releases b) o1 = Some t"
  then have a: "o1 \<noteq> own" "dict_get (pending_releases a) o1 = Some t" by (simp_all add: assms(4) split: if_splits)
  then have "owner_count o1 (mgr a) = 0" "last_event o1 a = Some (t - WS_RELEASE_GRACE_SECONDS, o1, Left)"
    using assms(1) by (simp_all add: releases_ok_def)
  then show "owner_count o1 (mgr b) = 0" "last_event o1 b = Some (t - WS_RELEASE_GRACE_SECONDS, o1, Left)"
    using a(1) by (simp_all add: assms(3,5))
next
  fix o1 t assume l: "last_event o1 b = Some (t, o1, Left) \<and> (\<forall>w. dict_get (serving b) w \<noteq> Some o1)"
  then have ne: "o1 \<noteq> own" by (auto simp: assms(5))
  have "dict_get (serving a) w \<noteq> Some o1" for w
    using l assms(2) by (cases "w = ws") (auto simp: assms(6) split: if_splits)
  then show "dict_get (pending_releases b) o1 = Some (t + WS_RELEASE_GRACE_SECONDS)"
    using assms(1) l ne by (simp add: assms(4,5) releases_ok_def)
qed

lemma releases_serve:
  assumes "app_ok a" "releases_ok a" "dict_get (serving a) ws = None" "own \<noteq> []"
  shows "releases_ok (serve ws own sid init a)"
proof -
  let ?a = "a\<lparr>mgr := ws_connect ws (Some own) sid (mgr a), serving := dict_set ws own (serving a)\<rparr>"
  let ?b = "cancel_pending_release own (note_event own Arrived ?a)"
  have c: "consistent (mgr ?a)" "consistent (mgr a)"
    using app_ok_connect [OF assms(1,3,4)] assms(1) by (simp_all add: app_ok_def)
  have "owner_count o1 (mgr ?a) = 0" if "owner_count o1 (mgr a) = 0" "o1 \<noteq> own" for o1
    using that owner_count_zero [OF c(1), of o1] owner_count_zero [OF c(2), of o1]
    by (simp add: owners_connect [OF assms(4)])
  then have "owner_count o1 (mgr ?b) = 0" if "owner_count o1 (mgr a) = 0" "o1 \<noteq> own" for o1
    using that by (simp add: cancel_pending_release_def note_event_def)
  moreover have "dict_get (pending_releases ?b) o1 = (if o1 = own then None else dict_get (pending_releases a) o1)" for o1
    by (simp add: cancel_pending_release_def note_event_def dict_simps)
  moreover have "last_event o1 ?b = (if o1 = own then Some (clock a, own, Arrived) else last_event o1 a)" for o1
    by (simp add: cancel_pending_release_def note_event_def last_event_def)
  moreover have "dict_get (serving ?b) w = (if w = ws then Some own else dict_get (serving a) w)" for w
    by (simp add: cancel_pending_release_def note_event_def dict_simps)
  ultimately have r: "releases_ok ?b" by (rule releases_arrive [OF assms(2,3)])
  have "app_ok ?b" using app_ok_connect [OF assms(1,3,4)] by (simp add: cancel_pending_release_def)
  then have "releases_ok (?b\<lparr>mgr := ws_apply (Init ws init) (mgr ?b)\<rparr>)"
    using r by (intro releases_manager) auto
  then show ?thesis by (simp add: serve_def Let_def)
qed

text \<open>Leaving: the other owners keep what they had.\<close>

lemma releases_leave:
  assumes "app_ok a" "releases_ok a" "dict_get (serving a) ws = Some own"
  shows "releases_ok (leave ws own a)"
proof -
  let ?a = "a\<lparr>mgr := ws_drop ws (mgr a), serving := dict_pop ws (serving a)\<rparr>"
  let ?b = "leave ws own a"
  have ok: "app_ok ?a" using app_ok_drop [OF assms(1)] .
  have m: "mgr ?b = mgr ?a" and sv: "serving ?b = serving ?a" and ck: "clock ?b = clock a"
    by (simp_all add: leave_def note_event_def cancel_pending_release_def Let_def)
  have l: "last_event o1 ?b = (if o1 = own then Some (clock a, own, Left) else last_event o1 a)" for o1
    by (simp add: leave_def note_event_def cancel_pending_release_def last_event_def Let_def)
  have p: "dict_get (pending_releases ?b) o1 =
      (if o1 = own \<and> owner_count own (mgr ?a) = 0 then Some (clock a + WS_RELEASE_GRACE_SECONDS)
       else dict_get (pending_releases a) o1)" for o1
    by (simp add: leave_def note_event_def cancel_pending_release_def Let_def dict_simps)
  have z: "owner_count o1 (mgr ?a) = 0" if "owner_count o1 (mgr a) = 0" for o1
    using count_zero_kept [OF assms(1), of "Drop ws" o1] that by simp
  show ?thesis
    unfolding releases_ok_def
  proof (intro conjI allI impI)
    fix o1 t assume "dict_get (pending_releases ?b) o1 = Some t"
    then consider "o1 = own" "owner_count own (mgr ?a) = 0" "t = clock a + WS_RELEASE_GRACE_SECONDS"
      | "\<not> (o1 = own \<and> owner_count own (mgr ?a) = 0)" "dict_get (pending_releases a) o1 = Some t"
      by (auto simp: p split: if_splits)
    then have "owner_count o1 (mgr ?a) = 0 \<and> last_event o1 ?b = Some (t - WS_RELEASE_GRACE_SECONDS, o1, Left)"
    proof cases
      case 2
      then have "owner_count o1 (mgr a) = 0" "last_event o1 a = Some (t - WS_RELEASE_GRACE_SECONDS, o1, Left)"
        using assms(2) by (simp_all add: releases_ok_def)
      then show ?thesis using 2(1) z by (auto simp: l)
    qed (simp add: l)
    then show "owner_count o1 (mgr ?b) = 0" "last_event o1 ?b = Some (t - WS_RELEASE_GRACE_SECONDS, o1, Left)"
      by (simp_all add: m)
  next
    fix o1 t assume h: "last_event o1 ?b = Some (t, o1, Left) \<and> (\<forall>w. dict_get (serving ?b) w \<noteq> Some o1)"
    then have "owner_count o1 (mgr ?a) = 0" using count_serving [OF ok] sv by simp
    show "dict_get (pending_releases ?b) o1 = Some (t + WS_RELEASE_GRACE_SECONDS)"
    proof (cases "o1 = own")
      case True
      then show ?thesis using h \<open>owner_count o1 (mgr ?a) = 0\<close> by (simp add: p l)
    next
      case False
      have "dict_get (serving a) w \<noteq> Some o1" for w
      proof (cases "w = ws")
        case True
        then show ?thesis using assms(3) False by simp
      next
        case other: False
        have "dict_get (serving ?b) w \<noteq> Some o1" using h by blast
        then show ?thesis using other by (simp add: sv dict_simps)
      qed
      then show ?thesis using h assms(2) False by (simp add: p l releases_ok_def)
    qed
  qed
qed

lemma releases_note:
  assumes "releases_ok a" "e \<noteq> Left"
  shows "releases_ok (note_event own e (a\<lparr>pending_releases := dict_pop own (pending_releases a)\<rparr>))"
  using assms by (simp add: releases_ok_def last_event_def note_event_def dict_simps)

lemma releases_step:
  assumes "app_ok a" "releases_ok a"
  shows "releases_ok (app_apply op a)"
proof (cases op)
  case (Receive ws raw)
  have "releases_ok (a\<lparr>mgr := ws_apply (Select ws v) (mgr a)\<rparr>)" for v
    using assms by (intro releases_manager) auto
  then show ?thesis using Receive assms(2) by (simp add: receive_def split: inbound.split)
next
  case (Manager m)
  then show ?thesis using assms releases_manager [of a m] by (cases m) auto
next
  case (Fire own)
  show ?thesis
  proof (cases "dict_get (pending_releases a) own")
    case (Some t)
    then have "owner_count own (mgr a) = 0" using assms(2) by (simp add: releases_ok_def)
    then show ?thesis using Fire Some assms(2) releases_note [OF assms(2), of Released own]
      by (simp add: release_after_grace_def)
  qed (simp add: Fire assms(2))
next
  case (SignOut own)
  then show ?thesis using releases_note [OF assms(2), of SignedOut own]
    by (simp add: sign_out_def cancel_pending_release_def)
next
  case (Elapse d)
  then show ?thesis using assms(2) by (simp add: releases_ok_def last_event_def)
qed (use assms in \<open>auto simp: releases_serve releases_leave split: option.splits\<close>)

lemma app_run_ok: "app_ok (app_run ops) \<and> releases_ok (app_run ops)"
proof (induction ops rule: rev_induct)
  case Nil
  then show ?case
    by (simp add: app_run_def new_app_def new_ws_mgr_def app_ok_def releases_ok_def consistent_def last_event_def)
next
  case (snoc op ops)
  then show ?case by (simp add: app_run_def app_ok_step releases_step)
qed

text \<open>
  C26. A page refresh keeps its SSH sessions, and a browser that is gone loses them. In every
  reachable state: a release is pending for an owner only while none of the owner's sockets is
  connected, and it is due exactly 15 seconds after its last endpoint ended; it is carried out
  only when due, with no socket connected and nothing of this owner's having happened since;
  conversely an owner whose last endpoint has ended, and who has not signed out or been
  released since, has its release pending. And every selected device belongs to an endpoint
  that is still running, so nothing is polled for a browser that is gone.
\<close>

theorem grace_period_exact:
  fixes ops own
  defines "a \<equiv> app_run ops"
  shows "(\<forall>t. dict_get (pending_releases a) own = Some t \<longrightarrow>
        owner_count own (mgr a) = 0 \<and> last_event own a = Some (t - 15, own, Left))
    \<and> (\<forall>op t. past (app_apply op a) = (t, own, Released) # past a \<longrightarrow>
        t = clock a \<and> owner_count own (mgr a) = 0
        \<and> (\<exists>t0. last_event own a = Some (t0, own, Left) \<and> t0 + 15 \<le> t))
    \<and> (\<forall>t. last_event own a = Some (t, own, Left) \<and> own \<notin> set (map snd (serving a)) \<longrightarrow>
        dict_get (pending_releases a) own = Some (t + 15))
    \<and> set (dict_keys (selections (mgr a))) \<subseteq> set (dict_keys (serving a))"
proof (intro conjI allI impI)
  have ok: "app_ok a" "releases_ok a" by (simp_all add: a_def app_run_ok)
  have g: "WS_RELEASE_GRACE_SECONDS = 15" by (simp add: WS_RELEASE_GRACE_SECONDS_def)
  fix t
  show "owner_count own (mgr a) = 0" "last_event own a = Some (t - 15, own, Left)"
    if "dict_get (pending_releases a) own = Some t" using ok(2) that by (simp_all add: releases_ok_def g)
  show "dict_get (pending_releases a) own = Some (t + 15)"
    if "last_event own a = Some (t, own, Left) \<and> own \<notin> set (map snd (serving a))"
  proof -
    have "dict_get (serving a) w \<noteq> Some own" for w
      using that by (metis map_of_SomeD snd_conv image_eqI set_map)
    then show ?thesis using ok(2) that by (simp add: releases_ok_def g)
  qed
  fix op
  assume r: "past (app_apply op a) = (t, own, Released) # past a"
  have "op = Fire own \<and> t = clock a \<and> (\<exists>t1. dict_get (pending_releases a) own = Some t1 \<and> t1 \<le> clock a)"
    using r by (cases op) (auto simp: serve_def receive_def leave_def release_after_grace_def sign_out_def
      note_event_def cancel_pending_release_def Let_def split: inbound.splits option.splits if_splits)
  then show "t = clock a" "owner_count own (mgr a) = 0" "\<exists>t0. last_event own a = Some (t0, own, Left) \<and> t0 + 15 \<le> t"
    using ok(2) by (auto simp: releases_ok_def g)
next
  have ok: "app_ok a" by (simp add: a_def app_run_ok)
  show "set (dict_keys (selections (mgr a))) \<subseteq> set (dict_keys (serving a))"
    using ok dict_get_keys [of "selections (mgr a)"] dict_get_keys [of "serving a"]
    unfolding app_ok_def by blast
qed

text \<open>One message can make the set of selections raise; the metrics loop computes it every round.\<close>

lemma unhashable_selection:
  "selected_device_ids (mgr (app_run [Serve 1 ''ann'' ''s1'' hello,
      Receive 1 (Some (JObj [(lit ''type'', js ''select_device''), (lit ''id'', JArr [JInt 1])]))])) = None"
  by (simp add: app_run_def serve_def receive_def inbound_of_def field_def json_get_def js_def new_app_def
      new_ws_mgr_def ws_connect_def new_sock_def ws_defs put_first_def hello_def SOCKET_QUEUE_MAX_BYTES_def
      note_event_def cancel_pending_release_def Let_def set_selected_device_def selected_device_ids_def)

definition refresh :: "string app_op list" where
  "refresh = [Serve 1 ''ann'' ''s1'' hello, Receive 1 (Some (JObj [(lit ''type'', js ''select_device''), (lit ''id'', js ''d1'')])),
     Elapse 5, Leave 1, Elapse 15]"

theorem grace_period_exact_witness:
  "dict_get (pending_releases (app_run refresh)) ''ann'' = Some 20
    \<and> owner_count ''ann'' (mgr (app_run refresh)) = 0
    \<and> last_event ''ann'' (app_run refresh) = Some (5, ''ann'', Left)
    \<and> past (app_apply (Fire ''ann'') (app_run refresh)) = (20, ''ann'', Released) # past (app_run refresh)"
proof -
  have a: "pending_releases (app_run refresh) = [(''ann'', 20)] \<and> clock (app_run refresh) = 20"
    by (simp add: app_run_def refresh_def serve_def leave_def receive_def inbound_of_def field_def json_get_def js_def
        new_app_def new_ws_mgr_def ws_connect_def new_sock_def ws_defs put_first_def hello_def SOCKET_QUEUE_MAX_BYTES_def
        note_event_def cancel_pending_release_def Let_def WS_RELEASE_GRACE_SECONDS_def owner_count_def
        set_selected_device_def)
  then have p: "dict_get (pending_releases (app_run refresh)) ''ann'' = Some 20" by simp
  note g = grace_period_exact [of refresh "''ann''"]
  have c: "owner_count ''ann'' (mgr (app_run refresh)) = 0" "last_event ''ann'' (app_run refresh) = Some (20 - 15, ''ann'', Left)"
    using g p by blast+
  then show ?thesis using p c a by (simp add: release_after_grace_def note_event_def)
qed

end
