(* ===== verification/Terminal_Control.thy ===== *)
theory Terminal_Control
  imports Ssh_Run
begin

text \<open>
  Properties of the terminal controls of \<open>terminal_control.py\<close>, modelled in \<open>Ssh_Run\<close>: who
  may type after a claim, what the acknowledgement accounting counts, and how a cancel
  escalates.
\<close>

section \<open>Claims\<close>

lemma slot_of_edit [simp]: "slot_of (edit r f m) did = slot_of m did"
  by (simp add: slot_of_def)

lemma claimed:
  assumes "claim_terminal did run own socket m = (m', Some rv)"
  obtains r where "slot_of m did = Some r" "running_for own run (store m r)" "rv = s_control_rev (store m r) + 1"
    "m' = edit r (\<lambda>s. s\<lparr>s_controller := socket, s_control_rev := s_control_rev s + 1,
                   s_writer := map_option clear_input (s_writer s)\<rparr>) m"
  using assms by (auto simp: claim_terminal_def split: option.splits if_splits)

lemma claim_refuses:
  assumes "claim_terminal did run own socket m = (m', Some rv)" "socket' \<noteq> socket \<or> \<not> eq_int rv rv' \<or> own' \<noteq> own"
  shows "terminal_input did run' rv' data own' socket' now m' = (m', InputRefused)"
    "terminal_resize did run' rv' cols rows own' socket' m' = (m', False)"
proof -
  obtain r where r: "slot_of m did = Some r" "running_for own run (store m r)" "rv = s_control_rev (store m r) + 1"
    "m' = edit r (\<lambda>s. s\<lparr>s_controller := socket, s_control_rev := s_control_rev s + 1,
                   s_writer := map_option clear_input (s_writer s)\<rparr>) m"
    by (rule claimed [OF assms(1)])
  have slot: "slot_of m' did = Some r" using r by simp
  have "\<not> controls own' run' rv' socket' (store m' r)"
    using assms(2) r by (auto simp: controls_def running_for_def)
  then show "terminal_input did run' rv' data own' socket' now m' = (m', InputRefused)"
    "terminal_resize did run' rv' cols rows own' socket' m' = (m', False)"
    using slot by (auto simp: terminal_input_def terminal_resize_def split: json.splits option.splits)
qed

text \<open>
  C17. One browser socket types at a time. A successful claim raises the control revision,
  throws away everything queued as input, and from then on every input and every resize that
  does not come from the claiming socket with the new revision is refused and changes nothing;
  while the claimant's input of up to 16384 characters and 65536 bytes is queued, once the
  command has started and until the writer closes.
\<close>
theorem claim_takes_control:
  assumes "claim_terminal did run own socket m = (m', Some rv)"
  shows "\<exists>r. slot_of m' did = Some r \<and> s_control_rev (store m r) < rv
     \<and> (\<forall>w. s_writer (store m' r) = Some w \<longrightarrow> pending_input w = 0 \<and> list_all (\<lambda>i. \<not> is_input i) (w_items w))
     \<and> (\<forall>run' rv' data cols rows own' socket' now. socket' \<noteq> socket \<or> \<not> eq_int rv rv' \<or> own' \<noteq> own \<longrightarrow>
          terminal_input did run' rv' data own' socket' now m' = (m', InputRefused)
        \<and> terminal_resize did run' rv' cols rows own' socket' m' = (m', False))
     \<and> (\<forall>txt bs now w. s_writer (store m' r) = Some w \<and> \<not> w_closed w \<and> s_auth_complete (store m r)
          \<and> length txt \<le> 16384 \<and> utf8_encode txt = Some bs \<and> length bs \<le> 65536 \<longrightarrow>
          snd (terminal_input did run (JInt rv) (JStr txt) own socket now m') = InputOk)"
proof -
  obtain r where r: "slot_of m did = Some r" "running_for own run (store m r)" "rv = s_control_rev (store m r) + 1"
    "m' = edit r (\<lambda>s. s\<lparr>s_controller := socket, s_control_rev := s_control_rev s + 1,
                   s_writer := map_option clear_input (s_writer s)\<rparr>) m"
    by (rule claimed [OF assms])
  have slot: "slot_of m' did = Some r" using r by simp
  have st: "s_controller (store m' r) = socket" "s_control_rev (store m' r) = rv"
    "s_writer (store m' r) = map_option clear_input (s_writer (store m r))"
    "s_owner (store m' r) = own" "running_for own run (store m' r)"
    "s_auth_complete (store m' r) = s_auth_complete (store m r)"
    using r by (simp_all add: running_for_def)
  note no = claim_refuses [OF assms]
  have "snd (terminal_input did run (JInt rv) (JStr x) own socket now m') = InputOk"
    if "s_writer (store m' r) = Some w" "\<not> w_closed w" "s_auth_complete (store m r)"
      "length x \<le> 16384" "utf8_encode x = Some bs" "length bs \<le> 65536" for x bs now w
  proof -
    have "pending_input w = 0" using that(1) st(3) by (auto simp: clear_input_def)
    then have "writer_input x w = Some (add_item (Write bs True False) w, True)"
      using that by (simp add: writer_input_def TERM_PENDING_INPUT_MAX_BYTES_def)
    moreover have "controls own run (JInt rv) socket (store m' r)"
      using that st by (auto simp: controls_def)
    ultimately show ?thesis using that slot by (simp add: terminal_input_def TERM_INPUT_MAX_CHARS_def)
  qed
  moreover have "pending_input w = 0 \<and> list_all (\<lambda>i. \<not> is_input i) (w_items w)"
    if "s_writer (store m' r) = Some w" for w
    using that st(3) by (auto simp: clear_input_def list_all_iff)
  ultimately show ?thesis using slot r(3) no by (intro exI [of _ r]) auto
qed

definition running_session :: session where
  "running_session = (reserve_run ''r1'' (lit ''ls'') 80 24 0 0
     (new_session \<lparr>d_host = [], d_username = []\<rparr> [] ''alice'' ''d1'' 0))
     \<lparr>s_state := Connected, s_client := True, s_channel := Some 0, s_writer := Some new_writer, s_auth_complete := True\<rparr>"

definition one_run :: manager where
  "one_run = new_manager\<lparr>sessions := [(''d1'', 0)], store := (\<lambda>_. running_session), next_ref := 1, gen_counter := 1\<rparr>"

theorem claim_takes_control_witness:
  "terminal_input (js ''d1'') (js ''r1'') (JInt 1) (JStr [97]) ''alice'' (Some ''old'') 3
     (fst (claim_terminal (js ''d1'') (js ''r1'') ''alice'' (Some ''new'') one_run))
   = (fst (claim_terminal (js ''d1'') (js ''r1'') ''alice'' (Some ''new'') one_run), InputRefused)"
proof -
  obtain m' where c: "claim_terminal (js ''d1'') (js ''r1'') ''alice'' (Some ''new'') one_run = (m', Some 1)"
    by (simp add: claim_terminal_def slot_of_def one_run_def js_def running_for_def running_session_def
        reserve_run_def new_session_def eq_run_def)
  have "Some ''old'' \<noteq> Some ''new''" by simp
  then show ?thesis using claim_takes_control [OF c] c by auto
qed

section \<open>Acknowledgements\<close>

text \<open>
  What happens to a session's output window during one run: the worker counts a batch as
  sent, with the next sequence number; the browser acknowledges, with any number; a
  reconnecting browser takes a snapshot.
\<close>

datatype window_op = Sent nat | Acked int rat | Snapshot rat

definition window_step :: "window_op \<Rightarrow> session \<Rightarrow> session" where
  "window_step x s = (case x of
       Sent n \<Rightarrow> mark_sent (s_sent_seq s + 1) n s
     | Acked k now \<Rightarrow> record_ack k now s
     | Snapshot now \<Rightarrow> ack_all now s)"

fun sent_sizes :: "window_op list \<Rightarrow> nat list" where
  "sent_sizes [] = []"
| "sent_sizes (Sent n # xs) = n # sent_sizes xs"
| "sent_sizes (x # xs) = sent_sizes xs"

definition window :: "nat list \<Rightarrow> nat \<Rightarrow> (int, nat) dict" where
  "window sizes k = map (\<lambda>i. (int i + 1, sizes ! i)) [k..<length sizes]"

definition window_ok :: "nat list \<Rightarrow> session \<Rightarrow> bool" where
  "window_ok sizes s \<longleftrightarrow> s_sent_seq s = int (length sizes) \<and> 0 \<le> s_acked_seq s
     \<and> s_acked_seq s \<le> s_sent_seq s \<and> s_sent_bytes s = window sizes (nat (s_acked_seq s))"

lemma window_total: "sum_list (map snd (window sizes k)) = sum_list (drop k sizes)"
proof -
  have "map snd (window sizes k) = map (\<lambda>i. sizes ! i) [k..<length sizes]" by (simp add: window_def comp_def)
  also have "\<dots> = drop k sizes" by (rule nth_equalityI) auto
  finally show ?thesis by simp
qed

lemma dict_set_new: "k \<notin> fst ` set d \<Longrightarrow> dict_set k v d = d @ [(k, v)]"
  by (induction d) auto

lemma window_sent: "k \<le> length sizes \<Longrightarrow>
    dict_set (int (length sizes) + 1) n (window sizes k) = window (sizes @ [n]) k"
proof -
  assume k: "k \<le> length sizes"
  have new: "int (length sizes) + 1 \<notin> fst ` set (window sizes k)" by (auto simp: window_def)
  have "window (sizes @ [n]) k = window sizes k @ [(int (length sizes) + 1, n)]"
    using k by (auto simp: window_def nth_append)
  then show ?thesis by (simp add: dict_set_new [OF new])
qed

lemma window_acked:
  assumes "j \<le> k" "k \<le> length sizes"
  shows "filter (\<lambda>(i, v). \<not> i \<le> int k) (window sizes j) = window sizes k"
proof -
  have "filter (\<lambda>i. \<not> int i + 1 \<le> int k) [j..<length sizes] = [k..<length sizes]"
  proof -
    have "[j..<length sizes] = [j..<k] @ [k..<length sizes]"
      using assms upt_add_eq_append [of j k "length sizes - k"] by simp
    moreover have "filter (\<lambda>i. \<not> int i + 1 \<le> int k) [j..<k] = []" by (auto simp: filter_empty_conv)
    moreover have "filter (\<lambda>i. \<not> int i + 1 \<le> int k) [k..<length sizes] = [k..<length sizes]"
      by (auto simp: filter_id_conv)
    ultimately show ?thesis by simp
  qed
  then show ?thesis by (simp add: window_def filter_map comp_def)
qed

lemma window_step_ok:
  assumes "window_ok sizes s"
  shows "window_ok (sizes @ sent_sizes [x]) (window_step x s)"
proof (cases x)
  case (Sent n)
  have "nat (s_acked_seq s) \<le> length sizes" using assms by (auto simp: window_ok_def)
  then show ?thesis
    using assms Sent window_sent [of "nat (s_acked_seq s)" sizes n]
    by (simp add: window_ok_def window_step_def mark_sent_def)
next
  case (Acked k now)
  show ?thesis
  proof (cases "k > s_sent_seq s \<or> k \<le> s_acked_seq s")
    case True
    then show ?thesis using Acked assms by (simp add: window_step_def record_ack_def)
  next
    case False
    then have "nat (s_acked_seq s) \<le> nat k" and "nat k \<le> length sizes" and "int (nat k) = k"
      using assms by (auto simp: window_ok_def)
    then have "filter (\<lambda>(i, v). \<not> i \<le> k) (window sizes (nat (s_acked_seq s))) = window sizes (nat k)"
      using window_acked [of "nat (s_acked_seq s)" "nat k" sizes] by simp
    then show ?thesis using Acked assms False by (simp add: window_step_def record_ack_def window_ok_def)
  qed
next
  case (Snapshot now)
  then show ?thesis using assms by (auto simp: window_step_def ack_all_def window_ok_def window_def)
qed

lemma sent_sizes_append: "sent_sizes (xs @ ys) = sent_sizes xs @ sent_sizes ys"
proof (induction xs)
  case (Cons x xs)
  then show ?case by (cases x) simp_all
qed simp

lemma window_fold:
  "window_ok sizes s \<Longrightarrow> window_ok (sizes @ sent_sizes ops) (fold window_step ops s)"
proof (induction ops arbitrary: sizes s)
  case (Cons x ops)
  then have "window_ok ((sizes @ sent_sizes [x]) @ sent_sizes ops) (fold window_step ops (window_step x s))"
    using window_step_ok by blast
  then show ?case using sent_sizes_append [of "[x]" ops] by simp
qed simp



section \<open>Cancelling\<close>

text \<open>
  Stopping a command escalates once. The first cancel of a started command leaves its
  channel open, puts Ctrl+C in front of all queued input and arms the grace timer; a second
  cancel, or the timer, forces the stop and is reported as forced; a timer that belongs to
  another run, session or channel does nothing; and a cancel for another run, or by another
  owner, changes nothing.
\<close>
theorem cancel_escalates:
  assumes "current m did = Some r" and "s_busy (store m r)" and "s_run_id (store m r) = Some run"
    and "s_owner (store m r) = own" and "s_channel (store m r) = Some ch" and "s_auth_complete (store m r)"
    and "s_writer (store m r) = Some w" and "\<not> w_closed w" and "\<not> s_stop_timer (store m r)"
  shows "\<exists>m'. cancel did (Some run) (Some own) m = (m', Some Ok, [], [ForceStop did r run ch])
     \<and> s_cancelled (store m' r) \<and> s_stop_timer (store m' r) \<and> s_forced (store m' r) = s_forced (store m r)
     \<and> (\<exists>w'. s_writer (store m' r) = Some w' \<and> w_items w' = Write [3] False False # w_items w)
     \<and> (\<exists>m''. cancel did (Some run) (Some own) m' = (m'', Some Ok, [CloseChannel ch], []) \<and> s_forced (store m'' r))
     \<and> s_forced (store (force_stop did r run ch m') r)
     \<and> (\<forall>run' ch'. run' \<noteq> run \<or> ch' \<noteq> ch \<longrightarrow> force_stop did r run' ch' m' = m')
     \<and> (\<forall>run' own'. run' \<noteq> Some run \<longrightarrow> cancel did run' own' m = (m, None, [], []))
     \<and> (\<forall>own'. own' \<noteq> own \<longrightarrow> cancel did (Some run) (Some own') m = (m, Some NotOwner, [], []))"
proof -
  let ?m = "edit r (\<lambda>s. s\<lparr>s_writer := map_option interrupt (s_writer s), s_stop_timer := True\<rparr>)
      (edit r (\<lambda>s. s\<lparr>s_cancelled := True, s_cancel_requested := True\<rparr>) m)"
  have c: "cancel did (Some run) (Some own) m = (?m, Some Ok, [], [ForceStop did r run ch])"
    using assms by (simp add: cancel_def Let_def)
  have "\<exists>m''. cancel did (Some run) (Some own) ?m = (m'', Some Ok, [CloseChannel ch], []) \<and> s_forced (store m'' r)"
    using assms by (simp add: cancel_def Let_def)
  moreover have "\<forall>run' ch'. run' \<noteq> run \<or> ch' \<noteq> ch \<longrightarrow> force_stop did r run' ch' ?m = ?m"
    using assms by (auto simp: force_stop_def)
  moreover have "s_forced (store (force_stop did r run ch ?m) r)"
    using assms by (simp add: force_stop_def is_current_def)
  moreover have "\<forall>run' own'. run' \<noteq> Some run \<longrightarrow> cancel did run' own' m = (m, None, [], [])"
    "\<forall>own'. own' \<noteq> own \<longrightarrow> cancel did (Some run) (Some own') m = (m, Some NotOwner, [], [])"
    using assms by (auto simp: cancel_def Let_def)
  ultimately show ?thesis
    using c assms by (intro exI [of _ ?m]) (simp add: interrupt_def)
qed

theorem cancel_escalates_witness:
  "\<exists>m'. cancel ''d1'' (Some ''r1'') (Some ''alice'') one_run = (m', Some Ok, [], [ForceStop ''d1'' 0 ''r1'' 0])
     \<and> s_forced (store (force_stop ''d1'' 0 ''r1'' 0 m') 0)"
proof -
  have "current one_run ''d1'' = Some 0" "s_busy (store one_run 0)" "s_run_id (store one_run 0) = Some ''r1''"
    "s_owner (store one_run 0) = ''alice''" "s_channel (store one_run 0) = Some 0" "s_auth_complete (store one_run 0)"
    "s_writer (store one_run 0) = Some new_writer" "\<not> w_closed new_writer" "\<not> s_stop_timer (store one_run 0)"
    by (simp_all add: one_run_def running_session_def reserve_run_def new_session_def new_writer_def)
  from cancel_escalates [OF this] show ?thesis by blast
qed

end
