(* ===== verification/Metrics_Text.thy ===== *)
theory Metrics_Text
  imports Py_Text "HOL-Library.Monad_Syntax"
begin

text \<open>
  The Prometheus text format (\<open>_unescape_label\<close>, \<open>_parse_label_block\<close>, \<open>_parse\<close> and \<open>_scalar\<close>
  of \<open>metrics_poller.py\<close>). The position in the line is the rest of the text; each regular
  expression is a function that reads its match from the front. The patterns never match in
  two ways: what follows a starred part cannot start with a character of it.

  A sample's value is a \<open>float\<close>: a finite one is its exact rational.
\<close>

section \<open>Python's lines, words and floats\<close>

definition line_break :: "nat \<Rightarrow> bool" where
  "line_break c \<longleftrightarrow> (10 \<le> c \<and> c \<le> 13) \<or> (28 \<le> c \<and> c \<le> 30) \<or> c = 133 \<or> c = 8232 \<or> c = 8233"

text \<open>\<open>str.splitlines\<close>: a carriage return before a line feed is one break with it.\<close>

fun splitlines_from :: "pystr \<Rightarrow> pystr \<Rightarrow> pystr list" where
  "splitlines_from cur [] = (if cur = [] then [] else [cur])"
| "splitlines_from cur (c # s) =
     (if line_break c
      then cur # (case s of d # t \<Rightarrow> if c = 13 \<and> d = 10 then splitlines_from [] t else splitlines_from [] s
                  | [] \<Rightarrow> splitlines_from [] s)
      else splitlines_from (cur @ [c]) s)"

definition splitlines :: "pystr \<Rightarrow> pystr list" where
  "splitlines s = splitlines_from [] s"

text \<open>\<open>str.split()\<close>\<close>

function py_words :: "pystr \<Rightarrow> pystr list" where
  "py_words s =
     (let t = dropWhile py_space s
      in if t = [] then [] else takeWhile (\<lambda>c. \<not> py_space c) t # py_words (dropWhile (\<lambda>c. \<not> py_space c) t))"
  by auto

lemma words_shrink:
  assumes "dropWhile py_space s \<noteq> []"
  shows "length (dropWhile (\<lambda>c. \<not> py_space c) (dropWhile py_space s)) < length s"
proof -
  obtain c t where ct: "dropWhile py_space s = c # t" using assms by (cases "dropWhile py_space s") auto
  then have "\<not> py_space c" by (metis dropWhile_eq_Cons_conv)
  then have "length (dropWhile (\<lambda>c. \<not> py_space c) (dropWhile py_space s)) \<le> length t"
    by (simp add: ct length_dropWhile_le)
  also have "length t < length (dropWhile py_space s)" by (simp add: ct)
  finally show ?thesis using length_dropWhile_le [of py_space s] by linarith
qed

termination py_words
  by (relation "measure length") (simp_all add: words_shrink)

declare py_words.simps [simp del]

datatype float = Finite rat | Infinite bool | NaN

definition ten_to :: "int \<Rightarrow> rat" where
  "ten_to e = (if e < 0 then 1 / 10 ^ nat (- e) else 10 ^ nat e)"

definition some_digits :: "pystr \<Rightarrow> nat list option" where
  "some_digits s = (if s = [] then Some [] else digit_run digit_value s)"

text \<open>Digits with an optional point and an optional exponent; the value is exact.\<close>

definition float_number :: "pystr \<Rightarrow> rat option" where
  "float_number s =
     (let m = takeWhile (\<lambda>c. c \<noteq> 101 \<and> c \<noteq> 69) s; ex = drop (length m) s;
          whole = takeWhile (\<lambda>c. c \<noteq> 46) m; frac = drop (length whole + 1) m
      in do {
           ws \<leftarrow> some_digits whole;
           fs \<leftarrow> some_digits frac;
           e \<leftarrow> (if ex = [] then Some 0 else
                  (let (neg, ds) = split_sign (tl ex)
                   in map_option (\<lambda>ds. if neg then - int (from_digits 10 ds) else int (from_digits 10 ds))
                        (digit_run digit_value ds)));
           if ws = [] \<and> fs = [] then None
           else Some (of_nat (from_digits 10 (ws @ fs)) * ten_to (e - int (length fs)))
         })"

definition lower :: "pystr \<Rightarrow> pystr" where
  "lower s = map (\<lambda>c. if 65 \<le> c \<and> c \<le> 90 then c + 32 else c) s"

definition py_float :: "pystr \<Rightarrow> float option" where
  "py_float s =
     (let (neg, t) = split_sign (strip s)
      in if lower t = lit ''inf'' \<or> lower t = lit ''infinity'' then Some (Infinite neg)
         else if lower t = lit ''nan'' then Some NaN
         else map_option (\<lambda>q. Finite (if neg then - q else q)) (float_number t))"

section \<open>Labels\<close>

fun unescape_label :: "pystr \<Rightarrow> pystr" where
  "unescape_label [] = []"
| "unescape_label [c] = [c]"
| "unescape_label (c # d # s) =
     (if c = 92 \<and> d \<noteq> 10
      then (if d = 92 then [92] else if d = 34 then [34] else if d = 110 then [10] else [92, d]) @ unescape_label s
      else c # unescape_label (d # s))"

definition name_start :: "nat \<Rightarrow> bool" where
  "name_start c \<longleftrightarrow> (65 \<le> c \<and> c \<le> 90) \<or> (97 \<le> c \<and> c \<le> 122) \<or> c = 95"

definition name_char :: "nat \<Rightarrow> bool" where
  "name_char c \<longleftrightarrow> name_start c \<or> (48 \<le> c \<and> c \<le> 57)"

text \<open>The quoted value up to its closing quote, still escaped, and what follows.\<close>

fun quoted :: "pystr \<Rightarrow> (pystr \<times> pystr) option" where
  "quoted [] = None"
| "quoted (c # s) =
     (if c = 34 then Some ([], s)
      else if c = 92
      then (case s of
              [] \<Rightarrow> None
            | d # t \<Rightarrow> if d = 10 then None else map_option (map_prod (\<lambda>v. c # d # v) id) (quoted t))
      else map_option (map_prod ((#) c) id) (quoted s))"

definition skip :: "pystr \<Rightarrow> pystr" where
  "skip s = dropWhile py_space s"

text \<open>\<open>_LABEL_PAIR_RE\<close>: the name, the raw value, the separator, and the rest.\<close>

definition label_pair :: "pystr \<Rightarrow> (pystr \<times> pystr \<times> nat \<times> pystr) option" where
  "label_pair s =
     (case skip s of
        [] \<Rightarrow> None
      | c # t \<Rightarrow>
          if \<not> name_start c then None
          else (let name = c # takeWhile name_char t
                in case skip (dropWhile name_char t) of
                     [] \<Rightarrow> None
                   | e # u \<Rightarrow>
                       if e \<noteq> 61 then None
                       else (case skip u of
                               [] \<Rightarrow> None
                             | q # v \<Rightarrow>
                                 if q \<noteq> 34 then None
                                 else (case quoted v of
                                         None \<Rightarrow> None
                                       | Some (raw, rest) \<Rightarrow>
                                           (case skip rest of
                                              [] \<Rightarrow> None
                                            | sep # after \<Rightarrow>
                                                if sep = 44 \<or> sep = 125 then Some (name, raw, sep, after) else None)))))"

text \<open>
  The loop of \<open>_parse_label_block\<close>, after the opening brace. The outer option is the loop's
  termination; the inner one is None for a malformed block.
\<close>

type_synonym labels = "(pystr, pystr) dict"

partial_function (option) label_loop :: "labels \<Rightarrow> pystr \<Rightarrow> (labels \<times> pystr) option option" where
  "label_loop labels s =
     (if take 1 (skip s) = [125] then Some (Some (labels, tl (skip s)))
      else case label_pair s of
        None \<Rightarrow> Some None
      | Some (name, raw, sep, rest) \<Rightarrow>
          (let labels = dict_set name (if 92 \<in> set raw then unescape_label raw else raw) labels
           in if sep = 125 then Some (Some (labels, rest)) else label_loop labels rest))"

section \<open>Lines\<close>

record sample =
  x_labels :: labels
  x_value :: float

type_synonym parsed = "(pystr, sample list) dict"

definition add_sample :: "pystr \<Rightarrow> sample \<Rightarrow> parsed \<Rightarrow> parsed" where
  "add_sample name x d = dict_set name ((case dict_get d name of None \<Rightarrow> [] | Some xs \<Rightarrow> xs) @ [x]) d"

text \<open>The value and an optional timestamp; None skips the line.\<close>

definition parse_value :: "pystr \<Rightarrow> float option" where
  "parse_value rest =
     (if rest = [] \<or> \<not> py_space (hd rest) then None
      else case py_words rest of
        [v] \<Rightarrow> py_float v
      | [v, t] \<Rightarrow> do { x \<leftarrow> py_float v; _ \<leftarrow> py_int t; Some x }
      | _ \<Rightarrow> None)"

text \<open>One stripped line: None when the loop does not end, Some None when the line is skipped.\<close>

definition parse_line :: "pystr \<Rightarrow> (pystr \<times> sample) option option" where
  "parse_line line =
     (if line = [] \<or> hd line = 35 then Some None
      else (let name = takeWhile (\<lambda>c. \<not> py_space c \<and> c \<noteq> 123) line; rest = drop (length name) line
            in if name = [] then Some None
               else if rest \<noteq> [] \<and> hd rest = 123
               then do {
                 block \<leftarrow> label_loop [] (tl rest);
                 Some (do { (ls, r) \<leftarrow> block; x \<leftarrow> parse_value r; Some (name, \<lparr>x_labels = ls, x_value = x\<rparr>) })
               }
               else Some (do { x \<leftarrow> parse_value rest; Some (name, \<lparr>x_labels = [], x_value = x\<rparr>) })))"

fun parse_lines :: "pystr list \<Rightarrow> parsed \<Rightarrow> parsed option" where
  "parse_lines [] d = Some d"
| "parse_lines (l # ls) d =
     do {
       r \<leftarrow> parse_line (strip l);
       parse_lines ls (case r of None \<Rightarrow> d | Some (name, x) \<Rightarrow> add_sample name x d)
     }"

definition parse_metrics :: "pystr \<Rightarrow> parsed option" where
  "parse_metrics s = parse_lines (splitlines s) []"

definition scalar :: "parsed \<Rightarrow> string \<Rightarrow> float option" where
  "scalar d name = (case dict_get d (lit name) of Some (x # xs) \<Rightarrow> Some (x_value x) | _ \<Rightarrow> None)"

end
