(* ===== verification/Metrics_Extract.thy ===== *)
theory Metrics_Extract
  imports Metrics_Text "HOL-Library.List_Lexorder" "HOL-Library.Multiset"
begin

text \<open>
  From parsed samples to the panel (\<open>extract_metrics\<close> of \<open>metrics_poller.py\<close>). Values are finite
  floats, as rationals without rounding of the arithmetic; \<open>round\<close> is the exact half-even
  rounding. Samples with an infinite value or NaN are outside this model.
\<close>

type_synonym samples = "(pystr, (labels \<times> rat) list) dict"

fun finite_samples :: "sample list \<Rightarrow> (labels \<times> rat) list option" where
  "finite_samples [] = Some []"
| "finite_samples (x # xs) =
     (case x_value x of Finite q \<Rightarrow> map_option ((#) (x_labels x, q)) (finite_samples xs) | _ \<Rightarrow> None)"

fun finite_parsed :: "parsed \<Rightarrow> samples option" where
  "finite_parsed [] = Some []"
| "finite_parsed ((n, xs) # d) = do { ys \<leftarrow> finite_samples xs; e \<leftarrow> finite_parsed d; Some ((n, ys) # e) }"

definition entries :: "samples \<Rightarrow> string \<Rightarrow> (labels \<times> rat) list" where
  "entries d name = (case dict_get d (lit name) of None \<Rightarrow> [] | Some xs \<Rightarrow> xs)"

definition first_value :: "samples \<Rightarrow> string \<Rightarrow> rat option" where
  "first_value d name = (case entries d name of [] \<Rightarrow> None | (ls, v) # xs \<Rightarrow> Some v)"

definition label_or :: "labels \<Rightarrow> string \<Rightarrow> pystr \<Rightarrow> pystr" where
  "label_or ls k x = (case dict_get ls (lit k) of None \<Rightarrow> x | Some v \<Rightarrow> v)"

definition round_half_even :: "rat \<Rightarrow> int" where
  "round_half_even q =
     (let f = \<lfloor>q\<rfloor>; r = q - of_int f
      in if r < 1 / 2 then f else if r > 1 / 2 then f + 1 else if even f then f else f + 1)"

definition round_to :: "nat \<Rightarrow> rat \<Rightarrow> rat" where
  "round_to n q = of_int (round_half_even (q * 10 ^ n)) / 10 ^ n"

definition GIB :: rat where "GIB = 1024 ^ 3"

section \<open>System, load, processor and memory\<close>

definition uptime_text :: "rat \<Rightarrow> rat \<Rightarrow> pystr" where
  "uptime_text t boot =
     (let s = int_of_float (t - boot); d = s div 86400; r = s mod 86400; h = r div 3600; m = r mod 3600 div 60
      in if d \<noteq> 0 then int_text d @ lit ''d '' @ int_text h @ lit ''h '' @ int_text m @ lit ''m''
         else if h \<noteq> 0 then int_text h @ lit ''h '' @ int_text m @ lit ''m''
         else int_text m @ lit ''m'')"

record cpu =
  c_total :: rat
  c_idle :: rat
  c_count :: nat

definition cpu_now :: "samples \<Rightarrow> cpu option" where
  "cpu_now d =
     (case entries d ''node_cpu_seconds_total'' of
        [] \<Rightarrow> None
      | xs \<Rightarrow> Some \<lparr>c_total = sum_list (map snd xs),
            c_idle = sum_list (map snd (filter (\<lambda>(ls, v). dict_get ls (lit ''mode'') = Some (lit ''idle'')) xs)),
            c_count = card (set (map (\<lambda>(ls, v). dict_get ls (lit ''cpu'')) xs))\<rparr>)"

definition cpu_percent :: "cpu option \<Rightarrow> cpu option \<Rightarrow> rat option" where
  "cpu_percent c prev =
     (case (c, prev) of
        (Some c, Some p) \<Rightarrow>
          (let dt = c_total c - c_total p; di = c_idle c - c_idle p
           in if dt > 0 then Some (round_to 1 ((1 - di / dt) * 100)) else None)
      | _ \<Rightarrow> None)"

record memory =
  m_total_gb :: rat
  m_used_gb :: rat
  m_percent :: rat

definition memory_of :: "rat \<Rightarrow> rat \<Rightarrow> memory" where
  "memory_of tot fr =
     (let used = tot - fr
      in \<lparr>m_total_gb = round_to 2 (tot / GIB), m_used_gb = round_to 2 (used / GIB), m_percent = round_to 1 (used / tot * 100)\<rparr>)"

definition ram_of :: "samples \<Rightarrow> memory option" where
  "ram_of d =
     (case (first_value d ''node_memory_MemTotal_bytes'', first_value d ''node_memory_MemAvailable_bytes'') of
        (Some tot, Some avail) \<Rightarrow> if tot \<noteq> 0 then Some (memory_of tot avail) else None
      | _ \<Rightarrow> None)"

definition swap_of :: "samples \<Rightarrow> memory option" where
  "swap_of d =
     (case (first_value d ''node_memory_SwapTotal_bytes'', first_value d ''node_memory_SwapFree_bytes'') of
        (Some tot, Some fr) \<Rightarrow> if tot \<noteq> 0 \<and> tot > 0 then Some (memory_of tot fr) else None
      | _ \<Rightarrow> None)"

section \<open>Disks\<close>

definition EXCLUDE_FS :: "pystr list" where
  "EXCLUDE_FS = map lit [''tmpfs'', ''devtmpfs'', ''squashfs'', ''overlay'', ''ramfs'', ''proc'', ''sysfs'', ''cgroup'',
     ''cgroup2'', ''devpts'', ''mqueue'', ''hugetlbfs'', ''pstore'', ''securityfs'', ''debugfs'', ''tracefs'', ''configfs'',
     ''fusectl'', ''bpf'', ''nsfs'', ''efivarfs'']"

definition begins :: "string \<Rightarrow> pystr \<Rightarrow> bool" where
  "begins p s \<longleftrightarrow> take (length p) s = lit p"

definition excluded_device :: "pystr \<Rightarrow> bool" where
  "excluded_device s \<longleftrightarrow> begins ''/dev/loop'' s
     \<and> (case drop 9 s of [] \<Rightarrow> False | c # _ \<Rightarrow> digit_value c \<noteq> None)"

record mounted =
  d_mount :: pystr
  d_device :: pystr
  d_total_gb :: rat
  d_used_gb :: rat
  d_percent :: rat

definition avail_map :: "samples \<Rightarrow> (pystr option \<times> pystr option, rat) dict" where
  "avail_map d = fold (\<lambda>(ls, v) m. dict_set (dict_get ls (lit ''device''), dict_get ls (lit ''mountpoint'')) v m)
     (entries d ''node_filesystem_avail_bytes'') []"

fun collect_disks :: "(pystr option \<times> pystr option, rat) dict \<Rightarrow> (labels \<times> rat) list \<Rightarrow> pystr list \<Rightarrow> mounted list" where
  "collect_disks am [] seen = []"
| "collect_disks am ((ls, sz) # xs) seen =
     (let fstype = label_or ls ''fstype'' []; mount = label_or ls ''mountpoint'' []; device = label_or ls ''device'' []
      in if fstype \<in> set EXCLUDE_FS \<or> mount \<in> set seen \<or> excluded_device device then collect_disks am xs seen
         else (let rest = collect_disks am xs (mount # seen);
                   avail = (case dict_get am (Some device, Some mount) of None \<Rightarrow> 0 | Some v \<Rightarrow> v);
                   used = sz - avail
               in if sz \<le> 0 then rest
                  else \<lparr>d_mount = mount, d_device = device, d_total_gb = round_to 1 (sz / GIB),
                      d_used_gb = round_to 1 (used / GIB), d_percent = round_to 1 (used / sz * 100)\<rparr> # rest))"

definition disk_key :: "mounted \<Rightarrow> pystr" where
  "disk_key k = (if d_mount k = lit ''/'' then 0 else 1) # d_mount k"

definition disks_of :: "samples \<Rightarrow> mounted list" where
  "disks_of d = sort_key disk_key (collect_disks (avail_map d) (entries d ''node_filesystem_size_bytes'') [])"

section \<open>Temperatures\<close>

definition ends :: "string \<Rightarrow> pystr \<Rightarrow> bool" where
  "ends p s \<longleftrightarrow> length p \<le> length s \<and> drop (length s - length p) s = lit p"

definition or_else :: "pystr \<Rightarrow> pystr \<Rightarrow> pystr" where
  "or_else a b = (if a \<noteq> [] then a else b)"

definition zone_temp :: "labels \<times> rat \<Rightarrow> (pystr \<times> rat) list" where
  "zone_temp e = (case e of (ls, v) \<Rightarrow>
     (let c = round_to 1 v
      in if c > 0 then [(or_else (label_or ls ''type'' []) (lit ''zone'' @ label_or ls ''zone'' (lit ''?'')), c)] else []))"

definition hwmon_temp :: "labels \<times> rat \<Rightarrow> (pystr \<times> rat) list" where
  "hwmon_temp e = (case e of (ls, v) \<Rightarrow>
     (let sensor = label_or ls ''sensor'' []; c = round_to 1 v
      in if sensor \<noteq> [] \<and> \<not> ends ''_input'' sensor \<and> \<not> ends ''temp'' sensor
            \<and> list_ex (\<lambda>p. ends p sensor) [''_max'', ''_crit'', ''_alarm'', ''_min'', ''_emergency''] then []
         else if c > 0 then [(or_else (label_or ls ''name'' []) (or_else sensor (label_or ls ''chip'' [])), c)] else []))"

definition temps_of :: "samples \<Rightarrow> (pystr \<times> rat) list" where
  "temps_of d = concat (map zone_temp (entries d ''node_thermal_zone_temp''))
     @ concat (map hwmon_temp (entries d ''node_hwmon_temp_celsius''))"

section \<open>Network\<close>

definition EXCLUDE_IFACE :: "string list" where
  "EXCLUDE_IFACE = [''lo'', ''veth'', ''docker'', ''br-'', ''virbr'', ''tun'', ''tap'', ''sit'', ''dummy'', ''bond'', ''team'',
     ''flannel'', ''cali'', ''cilium'']"

definition by_device :: "(labels \<times> rat) list \<Rightarrow> (pystr option, rat) dict" where
  "by_device xs = fold (\<lambda>(ls, v) m. dict_set (dict_get ls (lit ''device'')) v m) xs []"

definition ifaces :: "(pystr option, rat) dict \<Rightarrow> (pystr option, rat) dict \<Rightarrow> pystr list" where
  "ifaces rx tx = sorted_list_of_set (set (concat (map (\<lambda>k. case k of None \<Rightarrow> [] | Some i \<Rightarrow> [i]) (dict_keys rx @ dict_keys tx))))"

definition get_or_0 :: "('k, rat) dict \<Rightarrow> 'k \<Rightarrow> rat" where
  "get_or_0 d k = (case dict_get d k of None \<Rightarrow> 0 | Some v \<Rightarrow> v)"

definition net_of :: "samples \<Rightarrow> (pystr, rat \<times> rat) dict" where
  "net_of d =
     (let rx = by_device (entries d ''node_network_receive_bytes_total'');
          tx = by_device (entries d ''node_network_transmit_bytes_total'')
      in map (\<lambda>i. (i, get_or_0 rx (Some i), get_or_0 tx (Some i)))
           (filter (\<lambda>i. \<not> list_ex (\<lambda>p. begins p i) EXCLUDE_IFACE) (ifaces rx tx)))"

definition rate :: "rat \<Rightarrow> rat \<Rightarrow> rat \<Rightarrow> rat" where
  "rate elapsed v p = round_to 1 (max 0 (v - p) / elapsed / 1024)"

definition rates_of :: "rat \<Rightarrow> (pystr, rat \<times> rat) dict \<Rightarrow> (pystr, rat \<times> rat) dict \<Rightarrow> (pystr, rat \<times> rat) dict" where
  "rates_of elapsed net prev =
     concat (map (\<lambda>(i, rx, tx). case dict_get prev i of
         None \<Rightarrow> [] | Some (prx, ptx) \<Rightarrow> [(i, rate elapsed rx prx, rate elapsed tx ptx)]) net)"

section \<open>The panel\<close>

record panel =
  p_time :: rat
  p_host :: "(pystr \<times> pystr \<times> pystr) option"
  p_uptime :: "pystr option"
  p_loads :: "rat option list"
  p_cpu :: "cpu option"
  p_cpu_percent :: "rat option"
  p_ram :: "memory option"
  p_swap :: "memory option"
  p_disks :: "mounted list"
  p_temps :: "(pystr \<times> rat) list"
  p_net :: "(pystr, rat \<times> rat) dict"
  p_network :: "(pystr, rat \<times> rat) dict option"

text \<open>
  \<open>prev\<close> is the cached panel of the previous poll; after a failed poll the cache holds only the
  error, which is None here. \<open>t\<close> and \<open>t'\<close> are the two readings of the clock.
\<close>

definition extract_metrics :: "rat \<Rightarrow> rat \<Rightarrow> samples \<Rightarrow> panel option \<Rightarrow> panel" where
  "extract_metrics t t' d prev =
     (let c = cpu_now d; net = net_of d
      in \<lparr>p_time = t,
          p_host = (case entries d ''node_uname_info'' of
              [] \<Rightarrow> None
            | (ls, v) # xs \<Rightarrow> Some (label_or ls ''nodename'' [], label_or ls ''release'' [], label_or ls ''machine'' [])),
          p_uptime = (case first_value d ''node_boot_time_seconds'' of
              Some boot \<Rightarrow> if boot \<noteq> 0 then Some (uptime_text t' boot) else None | None \<Rightarrow> None),
          p_loads = map (\<lambda>n. map_option (round_to 2) (first_value d n)) [''node_load1'', ''node_load5'', ''node_load15''],
          p_cpu = c,
          p_cpu_percent = cpu_percent c (Option.bind prev p_cpu),
          p_ram = ram_of d, p_swap = swap_of d, p_disks = disks_of d, p_temps = temps_of d, p_net = net,
          p_network = (case prev of
              Some p \<Rightarrow> if t - p_time p > 0 then Some (rates_of (t - p_time p) net (p_net p)) else None
            | None \<Rightarrow> None)\<rparr>)"

section \<open>Bounds\<close>

lemma round_half_even_bounds:
  "of_int a \<le> q \<Longrightarrow> a \<le> round_half_even q"
  "q \<le> of_int b \<Longrightarrow> round_half_even q \<le> b"
proof -
  show "of_int a \<le> q \<Longrightarrow> a \<le> round_half_even q"
    by (simp add: round_half_even_def Let_def le_floor_iff [symmetric])
  assume b: "q \<le> of_int b"
  show "round_half_even q \<le> b"
  proof (cases "\<lfloor>q\<rfloor> < b")
    case True
    then show ?thesis by (simp add: round_half_even_def Let_def)
  next
    case False
    then have "q = of_int b" using b by (metis floor_le_iff le_floor_iff linorder_not_less nle_le of_int_floor_le order_antisym_conv)
    then show ?thesis by (simp add: round_half_even_def Let_def)
  qed
qed

lemma round_to_bounds:
  assumes "of_int a \<le> q * 10 ^ n" "q * 10 ^ n \<le> of_int b"
  shows "of_int a / 10 ^ n \<le> round_to n q" "round_to n q \<le> of_int b / 10 ^ n"
  using round_half_even_bounds(1) [OF assms(1)] round_half_even_bounds(2) [OF assms(2)]
  by (auto simp: round_to_def divide_right_mono)

lemma percent_bounds: "0 \<le> q \<Longrightarrow> q \<le> 1 \<Longrightarrow> 0 \<le> round_to 1 (q * 100) \<and> round_to 1 (q * 100) \<le> 100"
  using round_to_bounds [of 0 "q * 100" 1 1000] by simp

lemma round_to_nonneg: "0 \<le> q \<Longrightarrow> 0 \<le> round_to n q"
proof -
  assume "0 \<le> q"
  then have "0 \<le> round_half_even (q * 10 ^ n)" by (intro round_half_even_bounds) simp
  then show ?thesis by (simp add: round_to_def)
qed

lemma rate_nonneg: "0 < elapsed \<Longrightarrow> 0 \<le> rate elapsed v p"
  by (simp add: rate_def round_to_nonneg)

lemma rates_ok:
  "0 < elapsed \<Longrightarrow> (i, rx, tx) \<in> set (rates_of elapsed net prev) \<Longrightarrow>
     0 \<le> rx \<and> 0 \<le> tx \<and> i \<in> set (dict_keys net) \<and> i \<in> set (dict_keys prev)"
proof -
  assume e: "0 < elapsed" and r: "(i, rx, tx) \<in> set (rates_of elapsed net prev)"
  obtain x where x: "x \<in> set net" "(i, rx, tx) \<in> set (case x of (j, v, w) \<Rightarrow>
      (case dict_get prev j of None \<Rightarrow> [] | Some (prx, ptx) \<Rightarrow> [(j, rate elapsed v prx, rate elapsed w ptx)]))"
    using r unfolding rates_of_def set_concat set_map by blast
  obtain j v w where y: "x = (j, v, w)" by (cases x)
  have j: "(j, v, w) \<in> set net"
    "(i, rx, tx) \<in> set (case dict_get prev j of None \<Rightarrow> []
       | Some (prx, ptx) \<Rightarrow> [(j, rate elapsed v prx, rate elapsed w ptx)])"
    using x by (simp_all add: y)
  then obtain p q where x: "dict_get prev j = Some (p, q)" "i = j" "rx = rate elapsed v p" "tx = rate elapsed w q"
    by (cases "dict_get prev j") auto
  have "i \<in> set (dict_keys prev)" using x(1,2) dict_get_keys [of prev i] by simp
  then show ?thesis using x j(1) e rate_nonneg by force
qed

lemma collect_disks_ok:
  "distinct (map d_mount (collect_disks am xs seen))
    \<and> (\<forall>k \<in> set (collect_disks am xs seen). d_mount k \<notin> set seen)"
proof (induction am xs seen rule: collect_disks.induct)
  case (2 am ls sz xs seen)
  let ?mount = "label_or ls ''mountpoint'' []"
  show ?case
  proof (cases "label_or ls ''fstype'' [] \<in> set EXCLUDE_FS \<or> ?mount \<in> set seen \<or> excluded_device (label_or ls ''device'' [])")
    case True
    then show ?thesis using "2.IH"(1) by (simp add: Let_def)
  next
    case False
    note IH = "2.IH"(2) [OF refl refl refl False]
    show ?thesis using False IH by (auto simp: Let_def)
  qed
qed simp

definition inside :: "rat option \<Rightarrow> rat option \<Rightarrow> bool" where
  "inside x y = (case (x, y) of (Some w, Some p) \<Rightarrow> 0 \<le> p \<and> p \<le> w | _ \<Rightarrow> True)"

text \<open>A disk's used part is a percentage when the free part is within its size.\<close>

lemma collect_disks_percent:
  assumes "\<And>ls sz. (ls, sz) \<in> set xs \<Longrightarrow>
      inside (Some sz) (dict_get am (Some (label_or ls ''device'' []), Some (label_or ls ''mountpoint'' [])))"
  shows "k \<in> set (collect_disks am xs seen) \<Longrightarrow> 0 \<le> d_percent k \<and> d_percent k \<le> 100"
  using assms
proof (induction xs arbitrary: seen)
  case (Cons x xs)
  obtain ls sz where x: "x = (ls, sz)" by force
  define avail where "avail = (case dict_get am (Some (label_or ls ''device'' []), Some (label_or ls ''mountpoint'' [])) of
      None \<Rightarrow> 0 | Some v \<Rightarrow> v)"
  have av: "0 \<le> avail" "0 < sz \<Longrightarrow> avail \<le> sz"
    using Cons.prems(2) [of ls sz] by (auto simp: avail_def x inside_def split: option.splits)
  have tl: "0 \<le> d_percent k \<and> d_percent k \<le> 100" if "k \<in> set (collect_disks am xs seen')" for seen'
    by (rule Cons.IH [OF that]) (rule Cons.prems(2), simp_all)
  have p: "0 \<le> round_to 1 ((sz - avail) / sz * 100) \<and> round_to 1 ((sz - avail) / sz * 100) \<le> 100" if "0 < sz"
    using av that by (intro percent_bounds) (simp_all add: divide_le_eq)
  show ?case using Cons.prems(1) tl p
    by (auto simp: x Let_def avail_def [symmetric] not_le split: if_splits)
qed simp

section \<open>Two consecutive polls\<close>

definition counters_grew :: "samples \<Rightarrow> samples \<Rightarrow> bool" where
  "counters_grew d d' \<longleftrightarrow>
     list_all2 (\<lambda>(ls, v) (ls', v'). ls = ls' \<and> v \<le> v') (entries d ''node_cpu_seconds_total'') (entries d' ''node_cpu_seconds_total'')"

definition plausible :: "samples \<Rightarrow> bool" where
  "plausible d \<longleftrightarrow>
     inside (first_value d ''node_memory_MemTotal_bytes'') (first_value d ''node_memory_MemAvailable_bytes'')
   \<and> inside (first_value d ''node_memory_SwapTotal_bytes'') (first_value d ''node_memory_SwapFree_bytes'')
   \<and> list_all (\<lambda>(ls, sz). inside (Some sz)
         (dict_get (avail_map d) (Some (label_or ls ''device'' []), Some (label_or ls ''mountpoint'' []))))
       (entries d ''node_filesystem_size_bytes'')"

lemma grew_sums:
  assumes "list_all2 (\<lambda>(ls, v) (ls', v'). ls = ls' \<and> v \<le> (v' :: rat)) xs ys"
  shows "sum_list (map snd (filter (\<lambda>(ls, v). P ls) xs)) \<le> sum_list (map snd (filter (\<lambda>(ls, v). P ls) ys))"
    and "sum_list (map snd (filter (\<lambda>(ls, v). P ls) ys)) - sum_list (map snd (filter (\<lambda>(ls, v). P ls) xs))
       \<le> sum_list (map snd ys) - sum_list (map snd xs)"
  using assms by (induction rule: list_all2_induct) auto

lemma idle_within:
  assumes "counters_grew d d'" "cpu_now d = Some c" "cpu_now d' = Some c'"
  shows "0 \<le> c_idle c' - c_idle c" "c_idle c' - c_idle c \<le> c_total c' - c_total c"
  using grew_sums [OF assms(1) [unfolded counters_grew_def], of "\<lambda>ls. dict_get ls (lit ''mode'') = Some (lit ''idle'')"] assms(2,3)
  by (auto simp: cpu_now_def split: list.splits)

lemma cpu_percent_bounds:
  assumes "counters_grew d d'" "cpu_percent (cpu_now d') (cpu_now d) = Some q"
  shows "0 \<le> q \<and> q \<le> 100"
proof -
  obtain c c' where c: "cpu_now d' = Some c'" "cpu_now d = Some c"
    using assms(2) by (auto simp: cpu_percent_def split: option.splits)
  have dt: "0 < c_total c' - c_total c"
    and q: "q = round_to 1 ((1 - (c_idle c' - c_idle c) / (c_total c' - c_total c)) * 100)"
    using assms(2) by (auto simp: cpu_percent_def c Let_def split: if_splits)
  show ?thesis unfolding q
    using idle_within [OF assms(1) c(2,1)] dt by (intro percent_bounds) (simp_all add: divide_le_eq)
qed

lemma memory_percent:
  "0 < w \<Longrightarrow> inside (Some w) (Some p) \<Longrightarrow> 0 \<le> m_percent (memory_of w p) \<and> m_percent (memory_of w p) \<le> 100"
  unfolding memory_of_def Let_def memory.simps
  by (rule percent_bounds) (simp_all add: inside_def divide_le_eq)

lemma ram_percent_bounds: "plausible d \<Longrightarrow> ram_of d = Some m \<Longrightarrow> 0 \<le> m_percent m \<and> m_percent m \<le> 100"
proof -
  assume p: "plausible d" and m: "ram_of d = Some m"
  obtain w a where w: "first_value d ''node_memory_MemTotal_bytes'' = Some w"
    "first_value d ''node_memory_MemAvailable_bytes'' = Some a" "w \<noteq> 0" "m = memory_of w a"
    using m by (auto simp: ram_of_def split: option.splits if_splits)
  then show ?thesis using p memory_percent [of w a] by (auto simp: plausible_def inside_def)
qed

lemma swap_percent_bounds: "plausible d \<Longrightarrow> swap_of d = Some m \<Longrightarrow> 0 \<le> m_percent m \<and> m_percent m \<le> 100"
proof -
  assume p: "plausible d" and m: "swap_of d = Some m"
  obtain w a where w: "first_value d ''node_memory_SwapTotal_bytes'' = Some w"
    "first_value d ''node_memory_SwapFree_bytes'' = Some a" "0 < w" "m = memory_of w a"
    using m by (auto simp: swap_of_def split: option.splits if_splits)
  then show ?thesis using p memory_percent [of w a] by (auto simp: plausible_def)
qed

lemma disks_percent: "plausible d \<Longrightarrow> k \<in> set (disks_of d) \<Longrightarrow> 0 \<le> d_percent k \<and> d_percent k \<le> 100"
  unfolding disks_of_def set_sort
  by (erule collect_disks_percent [rotated]) (auto simp: plausible_def inside_def list_all_iff split: option.splits)

lemma disks_distinct: "distinct (map d_mount (disks_of d))"
proof -
  have "mset (map d_mount (disks_of d)) = mset (map d_mount (collect_disks (avail_map d) (entries d ''node_filesystem_size_bytes'') []))"
    by (simp add: disks_of_def)
  then show ?thesis using collect_disks_ok mset_eq_imp_distinct_iff by blast
qed

lemma disks_sorted: "sorted (map disk_key (disks_of d))"
  by (simp add: disks_of_def)

lemma disks_root_first: "k \<in> set (disks_of d) \<Longrightarrow> d_mount k = lit ''/'' \<Longrightarrow> disks_of d ! 0 = k"
proof -
  assume k: "k \<in> set (disks_of d)" "d_mount k = lit ''/''"
  then obtain h xs where h: "disks_of d = h # xs" by (cases "disks_of d") auto
  have le: "disk_key h \<le> disk_key k" using disks_sorted [of d] k h by auto
  have "d_mount h = lit ''/''"
  proof (rule ccontr)
    assume "d_mount h \<noteq> lit ''/''"
    then show False using le k(2) by (simp add: disk_key_def)
  qed
  then show ?thesis using k h disks_distinct [of d] by (auto simp: image_iff)
qed

lemma temps_positive: "(l, c) \<in> set (temps_of d) \<Longrightarrow> 0 < c"
  by (auto simp: temps_of_def zone_temp_def hwmon_temp_def Let_def split: if_splits)

lemma rates_keys:
  "dict_keys (rates_of elapsed net prev) = filter (\<lambda>i. dict_get prev i \<noteq> None) (dict_keys net)"
  by (induction net) (auto simp: rates_of_def split: option.splits)

lemma net_distinct: "distinct (dict_keys (net_of d))"
  by (simp add: net_of_def Let_def comp_def ifaces_def)

lemma network_rates:
  assumes "p_network (extract_metrics t t' d (Some p)) = Some ns"
  shows "distinct (dict_keys ns)"
    and "set (dict_keys ns) = set (dict_keys (net_of d)) \<inter> set (dict_keys (p_net p))"
    and "(i, rx, tx) \<in> set ns \<Longrightarrow> 0 \<le> rx \<and> 0 \<le> tx"
proof -
  have e: "0 < t - p_time p" and ns: "ns = rates_of (t - p_time p) (net_of d) (p_net p)"
    using assms by (auto simp: extract_metrics_def Let_def split: if_splits)
  show "distinct (dict_keys ns)" by (simp only: ns rates_keys distinct_filter net_distinct)
  show "set (dict_keys ns) = set (dict_keys (net_of d)) \<inter> set (dict_keys (p_net p))"
    unfolding ns rates_keys set_filter dict_get_keys by auto
  show "(i, rx, tx) \<in> set ns \<Longrightarrow> 0 \<le> rx \<and> 0 \<le> tx"
    using rates_ok [OF e] unfolding ns by blast
qed

lemma panel_fields [simp]:
  "p_time (extract_metrics t t' d prev) = t" "p_cpu (extract_metrics t t' d prev) = cpu_now d"
  "p_ram (extract_metrics t t' d prev) = ram_of d" "p_swap (extract_metrics t t' d prev) = swap_of d"
  "p_disks (extract_metrics t t' d prev) = disks_of d" "p_temps (extract_metrics t t' d prev) = temps_of d"
  "p_net (extract_metrics t t' d prev) = net_of d"
  "p_cpu_percent (extract_metrics t t' d prev) = cpu_percent (cpu_now d) (Option.bind prev p_cpu)"
  by (simp_all add: extract_metrics_def Let_def)

definition percent :: "rat \<Rightarrow> bool" where
  "percent q \<longleftrightarrow> 0 \<le> q \<and> q \<le> 100"

text \<open>
  C33. What the panel shows after two consecutive polls of a server whose processor counters did not
  fall and whose free memory and free space lie within their totals: the processor, memory, swap
  and disk figures are percentages; each mount appears once, in the order of the sort key, with the
  root file system first; temperatures are positive; the rates are those of the interfaces seen in
  both polls, each once, and never negative.
\<close>

theorem panel_sane:
  assumes grew: "counters_grew d0 d" and ok: "plausible d"
    and x: "x = extract_metrics t t' d (Some (extract_metrics t0 t0' d0 prev))"
  shows "(\<forall>q. p_cpu_percent x = Some q \<longrightarrow> percent q)
    \<and> (\<forall>m. p_ram x = Some m \<or> p_swap x = Some m \<longrightarrow> percent (m_percent m))
    \<and> (\<forall>k \<in> set (p_disks x). percent (d_percent k) \<and> (d_mount k = lit ''/'' \<longrightarrow> p_disks x ! 0 = k))
    \<and> distinct (map d_mount (p_disks x)) \<and> sorted (map disk_key (p_disks x))
    \<and> (\<forall>(l, c) \<in> set (p_temps x). 0 < c)
    \<and> (\<forall>ns. p_network x = Some ns \<longrightarrow> distinct (dict_keys ns)
          \<and> set (dict_keys ns) = set (dict_keys (net_of d)) \<inter> set (dict_keys (net_of d0))
          \<and> (\<forall>(i, rx, tx) \<in> set ns. 0 \<le> rx \<and> 0 \<le> tx))"
proof (intro conjI allI impI ballI)
  show "percent q" if "p_cpu_percent x = Some q" for q
    using cpu_percent_bounds [OF grew] that by (simp add: x percent_def)
  show "percent (m_percent m)" if "p_ram x = Some m \<or> p_swap x = Some m" for m
    using ram_percent_bounds [OF ok] swap_percent_bounds [OF ok] that by (auto simp: x percent_def)
  show "p_disks x ! 0 = k" if "k \<in> set (p_disks x)" "d_mount k = lit ''/''" for k
    using disks_root_first that by (simp add: x)
  show "percent (d_percent k)" if "k \<in> set (p_disks x)" for k
    using disks_percent [OF ok] that by (simp add: x percent_def)
  show "distinct (map d_mount (p_disks x))" "sorted (map disk_key (p_disks x))"
    by (simp_all add: x disks_distinct disks_sorted del: sorted_map)
  show "case e of (l, c) \<Rightarrow> 0 < c" if "e \<in> set (p_temps x)" for e
    using that temps_positive by (auto simp: x)
  fix ns assume "p_network x = Some ns"
  note n = network_rates [OF this [unfolded x], unfolded panel_fields]
  show "distinct (dict_keys ns)" "set (dict_keys ns) = set (dict_keys (net_of d)) \<inter> set (dict_keys (net_of d0))"
    by (rule n)+
  show "case e of (i, rx, tx) \<Rightarrow> 0 \<le> rx \<and> 0 \<le> tx" if "e \<in> set ns" for e
    using n(3) that by (cases e) auto
qed

definition poll_0 :: samples where
  "poll_0 =
    [(lit ''node_cpu_seconds_total'', [([(lit ''cpu'', lit ''0''), (lit ''mode'', lit ''idle'')], 100),
        ([(lit ''cpu'', lit ''0''), (lit ''mode'', lit ''user'')], 20)])]"

definition poll_1 :: samples where
  "poll_1 =
    [(lit ''node_cpu_seconds_total'', [([(lit ''cpu'', lit ''0''), (lit ''mode'', lit ''idle'')], 103),
        ([(lit ''cpu'', lit ''0''), (lit ''mode'', lit ''user'')], 21)]),
     (lit ''node_memory_MemTotal_bytes'', [([], 4)]), (lit ''node_memory_MemAvailable_bytes'', [([], 1)])]"

lemma panel_sane_witness:
  "counters_grew poll_0 poll_1 \<and> plausible poll_1
   \<and> p_cpu_percent (extract_metrics 15 15 poll_1 (Some (extract_metrics 0 0 poll_0 None))) = Some 25 \<and> percent 25"
proof -
  have 1: "counters_grew poll_0 poll_1" "plausible poll_1" by code_simp+
  have 2: "p_cpu_percent (extract_metrics 15 15 poll_1 (Some (extract_metrics 0 0 poll_0 None))) = Some 25"
    unfolding panel_fields by code_simp
  show ?thesis using panel_sane [OF 1 refl, of 15 15 0 0 None] 1 2 by simp
qed

text \<open>
  A boot time ten seconds ahead of the dashboard's clock is shown as a negative day and 23 hours.
\<close>

lemma clock_skew_uptime: "uptime_text 1000 1010 = lit ''-1d 23h 59m''"
  by code_simp

text \<open>
  The free-space map has the key None for a sample without device label, while the lookup uses the
  empty text: such a file system is shown as full.
\<close>

lemma unlabelled_disk_is_full:
  "map d_percent (disks_of
     [(lit ''node_filesystem_size_bytes'', [([(lit ''mountpoint'', lit ''/'')], 100)]),
      (lit ''node_filesystem_avail_bytes'', [([(lit ''mountpoint'', lit ''/'')], 90)])]) = [100]"
  by code_simp

end
