(* ===== verification/Private_File.thy ===== *)
theory Private_File
  imports Prelude
begin

text \<open>
  Replacing a private file durably. Four modules do it the same way: \<open>persistence.py\<close>
  (devices and their backup), \<open>session_manager.py\<close> (sessions), \<open>auth.py\<close> (the password
  state) and \<open>host_keys.py\<close> (approved keys). A new file is written beside the old one,
  flushed to disk and renamed over it, and the directory is flushed.

  A write is the list of its steps, run in order; any step can raise, and the machine can
  lose power before any step. What a power loss does to a file is what the file system
  allows: data not yet flushed is garbage, a rename not yet flushed may be lost. The contract
  of such a write is the locale \<open>private_writer\<close>, met by every plan of steps that flushes
  the data before the rename.
\<close>

section \<open>Files\<close>

text \<open>\<open>Damaged\<close> is a file that exists and cannot be read, or whose bytes are garbage.\<close>

datatype 'c disk_file = NoFile | Damaged | Content 'c

record 'c place =
  target :: "'c disk_file"
  strays :: nat

datatype fstep = CheckDirectory | OpenTemp | WriteTemp | SetMode | SyncTemp | Rename | SyncDirectory

datatype fault = NoFault | Raises fstep | PowerLoss fstep bool

datatype write_end = Written | Raised bool | Stopped

section \<open>Running the steps\<close>

text \<open>
  The temporary file holds what has been written of the new contents (None: not all of it)
  and whether it has been flushed.
\<close>

record 'c writing =
  w_target :: "'c disk_file"
  w_temp :: "('c option \<times> bool) option"
  w_replaced :: bool
  w_synced :: bool
  w_named :: bool

definition begin_writing :: "'c place \<Rightarrow> 'c writing" where
  "begin_writing p = \<lparr>w_target = target p, w_temp = None, w_replaced = False, w_synced = True, w_named = True\<rparr>"

fun do_step :: "fstep \<Rightarrow> 'c \<Rightarrow> 'c writing \<Rightarrow> 'c writing" where
  "do_step CheckDirectory new w = w"
| "do_step OpenTemp new w = w\<lparr>w_temp := Some (None, False)\<rparr>"
| "do_step WriteTemp new w = w\<lparr>w_temp := map_option (\<lambda>_. (Some new, False)) (w_temp w)\<rparr>"
| "do_step SetMode new w = w"
| "do_step SyncTemp new w = w\<lparr>w_temp := map_option (\<lambda>(c, _). (c, True)) (w_temp w)\<rparr>"
| "do_step Rename new w =
     (case w_temp w of
        None \<Rightarrow> w
      | Some (c, synced) \<Rightarrow>
          w\<lparr>w_target := (case c of None \<Rightarrow> Damaged | Some x \<Rightarrow> Content x), w_temp := None,
            w_replaced := True, w_synced := synced, w_named := False\<rparr>)"
| "do_step SyncDirectory new w = w\<lparr>w_named := True\<rparr>"

fun faulty :: "fault \<Rightarrow> fstep \<Rightarrow> bool" where
  "faulty NoFault s = False"
| "faulty (Raises s') s = (s = s')"
| "faulty (PowerLoss s' lost) s = (s = s')"

fun run_plan :: "fault \<Rightarrow> fstep list \<Rightarrow> 'c \<Rightarrow> 'c writing \<Rightarrow> 'c writing \<times> bool" where
  "run_plan f [] new w = (w, True)"
| "run_plan f (s # ss) new w = (if faulty f s then (w, False) else run_plan f ss new (do_step s new w))"

text \<open>The target after a power loss; \<open>lost\<close> decides a rename that was not flushed.\<close>

definition after_power_loss :: "bool \<Rightarrow> 'c disk_file \<Rightarrow> 'c writing \<Rightarrow> 'c disk_file" where
  "after_power_loss lost old w =
     (if \<not> w_replaced w \<or> (lost \<and> \<not> w_named w) then old
      else if w_synced w then w_target w else Damaged)"

text \<open>
  The whole write. On an exception the temporary file is unlinked (\<open>unlinks\<close> says whether
  that works; its failure is ignored) and the exception goes on; the result tells whether the
  file had been replaced by then.
\<close>

definition publish :: "fstep list \<Rightarrow> fault \<Rightarrow> bool \<Rightarrow> 'c \<Rightarrow> 'c place \<Rightarrow> 'c place \<times> write_end" where
  "publish plan f unlinks new p =
     (let (w, finished) = run_plan f plan new (begin_writing p)
      in if finished then (p\<lparr>target := w_target w\<rparr>, Written)
         else case f of
           PowerLoss s lost \<Rightarrow>
             (\<lparr>target = after_power_loss lost (target p) w,
               strays = strays p + (if w_temp w \<noteq> None then 1 else 0)\<rparr>, Stopped)
         | _ \<Rightarrow>
             (\<lparr>target = w_target w,
               strays = strays p + (if w_temp w \<noteq> None \<and> \<not> unlinks then 1 else 0)\<rparr>,
              Raised (w_replaced w)))"

section \<open>The contract\<close>

text \<open>
  A write that reports success has replaced the file; one that raises tells truly whether it
  did; a power loss leaves the old file or the new one; nothing else can happen, and without
  a fault it succeeds.
\<close>

locale private_writer =
  fixes put_file :: "fault \<Rightarrow> bool \<Rightarrow> 'c \<Rightarrow> 'c place \<Rightarrow> 'c place \<times> write_end"
  assumes write_ok: "put_file f u new p = (p', Written) \<Longrightarrow> target p' = Content new"
    and write_raised: "put_file f u new p = (p', Raised replaced) \<Longrightarrow>
          target p' = (if replaced then Content new else target p)"
    and write_stopped: "put_file f u new p = (p', Stopped) \<Longrightarrow> target p' = target p \<or> target p' = Content new"
    and write_no_fault: "snd (put_file NoFault u new p) = Written"
    and write_no_stray: "put_file f True new p = (p', e) \<Longrightarrow> e \<noteq> Stopped \<Longrightarrow> strays p' = strays p"
begin

lemma old_or_new: "put_file f u new p = (p', e) \<Longrightarrow> target p' = target p \<or> target p' = Content new"
  by (cases e) (auto dest: write_ok write_raised write_stopped split: if_splits)

text \<open>Any number of writes, each with its own fault.\<close>

fun write_all :: "(fault \<times> bool \<times> 'c) list \<Rightarrow> 'c place \<Rightarrow> 'c place \<times> write_end list" where
  "write_all [] p = (p, [])"
| "write_all ((f, u, new) # ws) p =
     (let (p', e) = put_file f u new p; (p'', es) = write_all ws p' in (p'', e # es))"

lemma write_all_never_partial:
  "write_all ws p = (p', es) \<Longrightarrow> target p' = target p \<or> (\<exists>(f, u, c) \<in> set ws. target p' = Content c)"
proof (induction ws arbitrary: p es)
  case (Cons x ws)
  obtain f u new where x: "x = (f, u, new)" by (cases x)
  obtain p1 e where 1: "put_file f u new p = (p1, e)" by force
  obtain es' where "write_all ws p1 = (p', es')"
    using Cons.prems 1 x by (auto split: prod.splits)
  from Cons.IH [OF this] old_or_new [OF 1] show ?case by (auto simp: x)
qed simp

text \<open>An acknowledged write is only ever undone by a later one.\<close>

lemma acknowledged_kept:
  assumes "put_file f u new p = (p1, Written)" and "write_all ws p1 = (p', es)"
  shows "target p' = Content new \<or> (\<exists>(f, u, c) \<in> set ws. target p' = Content c)"
  using write_all_never_partial [OF assms(2)] write_ok [OF assms(1)] by auto

end

section \<open>Safe plans\<close>

text \<open>
  Every plan here has the same skeleton: steps that do not touch the target, among them
  opening, writing and flushing the temporary file in this order, then the rename, then the
  flush of the directory.
\<close>

definition safe_plan :: "fstep list \<Rightarrow> bool" where
  "safe_plan plan \<longleftrightarrow>
     (\<exists>pre. plan = pre @ [Rename, SyncDirectory] \<and> Rename \<notin> set pre \<and> SyncDirectory \<notin> set pre \<and>
        filter (\<lambda>s. s \<in> {OpenTemp, WriteTemp, SyncTemp}) pre = [OpenTemp, WriteTemp, SyncTemp])"

lemma run_plan_append:
  "run_plan f (ss @ ts) new w =
     (let (w', ok) = run_plan f ss new w in if ok then run_plan f ts new w' else (w', False))"
  by (induction ss arbitrary: w) (simp_all add: Let_def)

lemma run_no_fault: "run_plan NoFault ss new w = (fold (\<lambda>s. do_step s new) ss w, True)"
  by (induction ss arbitrary: w) simp_all

text \<open>Before the rename the target keeps its contents.\<close>

lemma run_before_rename:
  "Rename \<notin> set pre \<Longrightarrow> SyncDirectory \<notin> set pre \<Longrightarrow> run_plan f pre new w = (w', ok) \<Longrightarrow>
     w_target w' = w_target w \<and> w_replaced w' = w_replaced w \<and> w_named w' = w_named w
     \<and> (ok \<longrightarrow> w' = fold (\<lambda>s. do_step s new) (filter (\<lambda>s. s \<in> {OpenTemp, WriteTemp, SyncTemp}) pre) w)"
proof (induction pre arbitrary: w)
  case (Cons s pre)
  then show ?case by (cases s) (auto split: if_splits)
qed simp

text \<open>The four ways a safe plan can end.\<close>

lemma safe_plan_cases:
  assumes "safe_plan plan" and "run_plan f plan new (begin_writing p) = (w, ok)"
  shows "(\<not> ok \<and> w_target w = target p \<and> \<not> w_replaced w)
    \<or> (w_target w = Content new \<and> w_replaced w \<and> w_synced w \<and> w_temp w = None \<and> (w_named w \<or> \<not> ok))"
proof -
  from assms(1) obtain pre where plan: "plan = pre @ [Rename, SyncDirectory]"
    and pre: "Rename \<notin> set pre" "SyncDirectory \<notin> set pre"
    and order: "filter (\<lambda>s. s \<in> {OpenTemp, WriteTemp, SyncTemp}) pre = [OpenTemp, WriteTemp, SyncTemp]"
    by (auto simp: safe_plan_def)
  obtain w1 ok1 where 1: "run_plan f pre new (begin_writing p) = (w1, ok1)" by force
  note b = run_before_rename [OF pre 1]
  have r: "(if ok1 then run_plan f [Rename, SyncDirectory] new w1 else (w1, False)) = (w, ok)"
    using assms(2) by (simp add: plan run_plan_append 1)
  show ?thesis
  proof (cases ok1)
    case False
    then show ?thesis using r b by (auto simp: begin_writing_def)
  next
    case True
    then have w1: "w1 = (begin_writing p)\<lparr>w_temp := Some (Some new, True)\<rparr>"
      using b order by (simp add: begin_writing_def)
    show ?thesis
      using r True by (auto simp: w1 begin_writing_def split: if_splits)
  qed
qed

lemma publish_cases:
  assumes "safe_plan plan" and "publish plan f unlinks new p = (p', e)"
  shows "(e = Written \<and> target p' = Content new \<and> strays p' = strays p)
    \<or> (e = Raised True \<and> target p' = Content new \<and> strays p' = strays p)
    \<or> (e = Raised False \<and> target p' = target p \<and> (unlinks \<longrightarrow> strays p' = strays p))
    \<or> (e = Stopped \<and> (target p' = target p \<or> target p' = Content new))"
proof -
  obtain w ok where r: "run_plan f plan new (begin_writing p) = (w, ok)" by force
  from safe_plan_cases [OF assms(1) r] show ?thesis
    using assms(2) r by (cases f) (auto simp: publish_def after_power_loss_def split: if_splits)
qed

lemma private_writer_publish: "safe_plan plan \<Longrightarrow> private_writer (publish plan)"
proof
  fix f u and new :: 'a and p p' :: "'a place" and replaced e
  assume s: "safe_plan plan"
  show "target p' = Content new" if "publish plan f u new p = (p', Written)"
    using publish_cases [OF s that] by auto
  show "target p' = (if replaced then Content new else target p)"
    if "publish plan f u new p = (p', Raised replaced)"
    using publish_cases [OF s that] by auto
  show "target p' = target p \<or> target p' = Content new" if "publish plan f u new p = (p', Stopped)"
    using publish_cases [OF s that] by auto
  show "snd (publish plan NoFault u new p) = Written"
    by (simp add: publish_def run_no_fault)
  show "strays p' = strays p" if "publish plan f True new p = (p', e)" "e \<noteq> Stopped"
    using publish_cases [OF s that(1)] that(2) by auto
qed

section \<open>The four writers\<close>

text \<open>
  \<open>_write_private_payload\<close> of \<open>persistence.py\<close> (opening the temporary file includes its mode,
  and removes the file itself when that fails), \<open>SessionStore._publish\<close>,
  \<open>publish_auth_state\<close> and \<open>_save_known_hosts\<close>. The write loops of the session and
  password states write every byte or raise.
\<close>

definition device_plan :: "fstep list" where
  "device_plan = [OpenTemp, WriteTemp, SyncTemp, Rename, SyncDirectory]"

definition session_plan :: "fstep list" where
  "session_plan = [CheckDirectory, OpenTemp, WriteTemp, SetMode, SyncTemp, Rename, SyncDirectory]"

definition auth_plan :: "fstep list" where
  "auth_plan = [CheckDirectory, OpenTemp, WriteTemp, SetMode, SyncTemp, Rename, SyncDirectory]"

definition known_hosts_plan :: "fstep list" where
  "known_hosts_plan = [OpenTemp, SetMode, WriteTemp, SyncTemp, Rename, SyncDirectory]"

lemma safe_planI:
  "Rename \<notin> set pre \<Longrightarrow> SyncDirectory \<notin> set pre \<Longrightarrow>
   filter (\<lambda>s. s \<in> {OpenTemp, WriteTemp, SyncTemp}) pre = [OpenTemp, WriteTemp, SyncTemp] \<Longrightarrow>
   safe_plan (pre @ [Rename, SyncDirectory])"
  by (auto simp: safe_plan_def)

lemma safe_plans:
  "safe_plan device_plan" "safe_plan session_plan" "safe_plan auth_plan" "safe_plan known_hosts_plan"
  using safe_planI [of "[OpenTemp, WriteTemp, SyncTemp]"]
    safe_planI [of "[CheckDirectory, OpenTemp, WriteTemp, SetMode, SyncTemp]"]
    safe_planI [of "[OpenTemp, SetMode, WriteTemp, SyncTemp]"]
  by (simp_all add: device_plan_def session_plan_def auth_plan_def known_hosts_plan_def)

interpretation devices_file: private_writer "publish device_plan"
  by (rule private_writer_publish) (rule safe_plans)

interpretation sessions_file: private_writer "publish session_plan"
  by (rule private_writer_publish) (rule safe_plans)

interpretation auth_file: private_writer "publish auth_plan"
  by (rule private_writer_publish) (rule safe_plans)

interpretation known_hosts_file: private_writer "publish known_hosts_plan"
  by (rule private_writer_publish) (rule safe_plans)

end
