(* ===== verification/Device_Store.thy ===== *)
theory Device_Store
  imports Py_Text Private_File
begin

text \<open>
  The saved devices: \<open>persistence.py\<close> and \<open>runtime_state.py\<close>. Normalising a device as
  loaded, parsing a configuration, loading it at start-up with repair from the backup, and
  the mirrored save. A device is the dictionary the code keeps. A file is its parsed
  contents (\<open>file_text\<close>); reading it can also fail because it is missing or damaged.
\<close>

type_synonym jdict = "(pystr, json) dict"

section \<open>Normalising\<close>

text \<open>
  \<open>x or y\<close> followed by \<open>.strip()\<close>: None for the AttributeError of a true value that is no
  string.
\<close>

definition text_or :: "json option \<Rightarrow> pystr \<Rightarrow> pystr option" where
  "text_or v y =
     (case v of
        None \<Rightarrow> Some (strip y)
      | Some (JStr s) \<Rightarrow> Some (strip (if s = [] then y else s))
      | Some x \<Rightarrow> if truthy x then None else Some (strip y))"

definition clean_command :: "pystr \<Rightarrow> pystr \<Rightarrow> bool \<Rightarrow> pystr \<Rightarrow> jdict" where
  "clean_command name cmd sud confirm =
     [(lit ''name'', JStr name), (lit ''command'', JStr cmd), (lit ''sudo'', JBool sud), (lit ''confirm'', JStr confirm)]"

text \<open>One round of the loop over the commands: the cleaned command, or none; None raises.\<close>

definition norm_command :: "json \<Rightarrow> jdict list option" where
  "norm_command c =
     (case c of
        JObj d \<Rightarrow>
          (case text_or (json_get d ''command'') [] of
             None \<Rightarrow> None
           | Some [] \<Rightarrow> Some []
           | Some (x # xs) \<Rightarrow>
               (case text_or (json_get d ''name'') (take 24 (x # xs)) of
                  None \<Rightarrow> None
                | Some name \<Rightarrow>
                    (case text_or (json_get d ''confirm'') [] of
                       None \<Rightarrow> None
                     | Some confirm \<Rightarrow>
                         Some [clean_command name (x # xs)
                           (case json_get d ''sudo'' of None \<Rightarrow> False | Some v \<Rightarrow> truthy v) confirm])))
      | _ \<Rightarrow> Some [])"

fun collect :: "('a \<Rightarrow> 'b list option) \<Rightarrow> 'a list \<Rightarrow> 'b list option" where
  "collect f [] = Some []"
| "collect f (x # xs) =
     (case f x of None \<Rightarrow> None | Some ys \<Rightarrow> map_option ((@) ys) (collect f xs))"

text \<open>\<open>int(v or 9100)\<close>: None for a ValueError, TypeError or OverflowError.\<close>

definition port_of :: "json option \<Rightarrow> int option" where
  "port_of v =
     (case v of
        None \<Rightarrow> Some 9100
      | Some x \<Rightarrow>
          if \<not> truthy x then Some 9100
          else (case x of
              JInt i \<Rightarrow> Some i
            | JBool b \<Rightarrow> Some 1
            | JFloat q \<Rightarrow> Some (int_of_float q)
            | JStr s \<Rightarrow> py_int s
            | _ \<Rightarrow> None))"

definition norm_device :: "jdict \<Rightarrow> jdict option" where
  "norm_device d =
     (let cmds = (case json_get d ''commands'' of Some (JArr xs) \<Rightarrow> xs | _ \<Rightarrow> [])
      in case collect norm_command cmds of
           None \<Rightarrow> None
         | Some clean \<Rightarrow>
             let d = json_set ''commands'' (JArr (map JObj clean)) d
             in map_option (\<lambda>p. json_set ''metrics_port'' (JInt p) d)
                  (port_of (json_get d ''metrics_port'')))"

section \<open>Parsing a configuration\<close>

text \<open>
  The list of devices of the parsed value. Iterating over an object or a string meets no
  dictionary; iterating over a number, a Boolean or null raises.
\<close>

definition entries_of :: "json \<Rightarrow> json list option" where
  "entries_of v =
     (case v of
        JArr xs \<Rightarrow> Some xs
      | JObj d \<Rightarrow> Some []
      | JStr s \<Rightarrow> Some []
      | _ \<Rightarrow> None)"

definition norm_entry :: "json \<Rightarrow> jdict list option" where
  "norm_entry v = (case v of JObj d \<Rightarrow> map_option (\<lambda>x. [x]) (norm_device d) | _ \<Rightarrow> Some [])"

definition parse_devices :: "file_text \<Rightarrow> jdict list option" where
  "parse_devices t =
     (case t of
        Json data \<Rightarrow>
          (case entries_of (case data of
                 JObj d \<Rightarrow> (case json_get d ''devices'' of None \<Rightarrow> data | Some v \<Rightarrow> v)
               | _ \<Rightarrow> data) of
             None \<Rightarrow> None
           | Some xs \<Rightarrow> collect norm_entry xs)
      | _ \<Rightarrow> None)"

section \<open>The state\<close>

record disk =
  primary :: "file_text place"
  backup :: "file_text place"

record runtime =
  devices_cache :: "jdict list"
  storage_warning :: bool
  recovery_mode :: bool
  recovered_notice :: bool
  recovery_backup :: "file_text option"

section \<open>Saving\<close>

definition APP_NAME :: pystr where
  "APP_NAME = lit ''Simple Network Dashboard''"

definition config_text :: "jdict list \<Rightarrow> file_text" where
  "config_text devs = Json (JObj [(lit ''_app'', JStr APP_NAME), (lit ''devices'', JArr (map JObj devs))])"

text \<open>
  A fault and whether unlinking a temporary file works, for each of the two files. With a
  power loss there is no process left (\<open>PowerLost\<close>).
\<close>

record save_env =
  primary_fault :: fault
  backup_fault :: fault
  unlinks :: bool

datatype save_end = Persisted | NotPersisted | PowerLost

definition write_payload :: "fault \<Rightarrow> bool \<Rightarrow> file_text \<Rightarrow> file_text place \<Rightarrow> file_text place \<times> write_end" where
  "write_payload = publish device_plan"

definition save :: "save_env \<Rightarrow> jdict list \<Rightarrow> runtime \<Rightarrow> disk \<Rightarrow> runtime \<times> disk \<times> save_end" where
  "save e devs rt dk =
     (if recovery_mode rt then (rt, dk, NotPersisted)
      else let contents = config_text devs
      in case parse_devices contents of
           None \<Rightarrow> (rt, dk, NotPersisted)
         | Some _ \<Rightarrow>
             (case write_payload (primary_fault e) (unlinks e) contents (primary dk) of
                (p, Stopped) \<Rightarrow> (rt, dk\<lparr>primary := p\<rparr>, PowerLost)
              | (p, Raised replaced) \<Rightarrow>
                  (if replaced then rt\<lparr>devices_cache := devs\<rparr> else rt, dk\<lparr>primary := p\<rparr>, NotPersisted)
              | (p, Written) \<Rightarrow>
                  let rt = rt\<lparr>devices_cache := devs\<rparr>; dk = dk\<lparr>primary := p\<rparr>
                  in case write_payload (backup_fault e) (unlinks e) contents (backup dk) of
                       (b, Stopped) \<Rightarrow> (rt, dk\<lparr>backup := b\<rparr>, PowerLost)
                     | (b, Raised replaced) \<Rightarrow> (rt, dk\<lparr>backup := b\<rparr>, NotPersisted)
                     | (b, Written) \<Rightarrow> (rt, dk\<lparr>backup := b\<rparr>, Persisted)))"

section \<open>Starting up\<close>

definition read_devices :: "file_text disk_file \<Rightarrow> jdict list option" where
  "read_devices f = (case f of Content t \<Rightarrow> parse_devices t | _ \<Rightarrow> None)"

text \<open>
  \<open>_replace_primary_from_backup\<close> and the check that the primary now loads. The read of the
  backup keeps its text, which is what is restored.
\<close>

definition restore_and_verify ::
  "fault \<Rightarrow> bool \<Rightarrow> file_text \<Rightarrow> disk \<Rightarrow> disk \<times> write_end" where
  "restore_and_verify f unl contents dk =
     (case write_payload f unl contents (primary dk) of
        (p, Written) \<Rightarrow>
          (dk\<lparr>primary := p\<rparr>, if read_devices (target p) = None then Raised True else Written)
      | (p, e) \<Rightarrow> (dk\<lparr>primary := p\<rparr>, e))"

text \<open>None is a power loss during the repair.\<close>

definition load_startup_devices :: "fault \<Rightarrow> bool \<Rightarrow> disk \<Rightarrow> disk \<times> (jdict list \<times> bool \<times> bool \<times> file_text option) option" where
  "load_startup_devices f unl dk =
     (case read_devices (target (primary dk)) of
        Some devs \<Rightarrow> (dk, Some (devs, False, False, None))
      | None \<Rightarrow>
          (case target (backup dk) of
             Content t \<Rightarrow>
               (case parse_devices t of
                  None \<Rightarrow> (dk, Some ([], False, True, None))
                | Some devs \<Rightarrow>
                    (case restore_and_verify f unl t dk of
                       (dk, Written) \<Rightarrow> (dk, Some (devs, True, False, None))
                     | (dk, Raised _) \<Rightarrow> (dk, Some (devs, False, True, Some t))
                     | (dk, Stopped) \<Rightarrow> (dk, None)))
           | b \<Rightarrow>
               if target (primary dk) = NoFile \<and> b = NoFile then (dk, Some ([], False, False, None))
               else (dk, Some ([], False, True, None))))"

text \<open>The device part of \<open>lifespan\<close>; \<open>writable\<close> is the answer of \<open>os.access\<close>.\<close>

definition lifespan :: "fault \<Rightarrow> bool \<Rightarrow> bool \<Rightarrow> disk \<Rightarrow> disk \<times> runtime option" where
  "lifespan f unl writable dk =
     (case load_startup_devices f unl dk of
        (dk, None) \<Rightarrow> (dk, None)
      | (dk, Some (devs, notice, recovery, retained)) \<Rightarrow>
          (dk, Some \<lparr>devices_cache = devs,
             storage_warning = (recovery \<or> (target (primary dk) \<noteq> NoFile \<and> \<not> writable)),
             recovery_mode = recovery, recovered_notice = notice, recovery_backup = retained\<rparr>))"

text \<open>\<open>_configuration_failure_reason\<close>, over the ways reading and parsing the primary fail.\<close>

datatype load_error = FileMissing | InvalidJson | InvalidUtf8 | CannotRead pystr | CannotNormalise pystr

definition configuration_failure_reason :: "load_error \<Rightarrow> pystr" where
  "configuration_failure_reason e =
     (case e of
        FileMissing \<Rightarrow> lit ''the primary configuration is missing''
      | InvalidJson \<Rightarrow> lit ''the primary configuration contains invalid JSON''
      | InvalidUtf8 \<Rightarrow> lit ''the primary configuration is not valid UTF-8''
      | CannotRead t \<Rightarrow> lit ''the primary configuration could not be read ('' @ t @ lit '')''
      | CannotNormalise t \<Rightarrow> lit ''the primary configuration could not be normalized ('' @ t @ lit '')'')"

end
