(* ===== verification/Metrics_Poll.thy ===== *)
theory Metrics_Poll
  imports Metrics_Extract Device_Store
begin

text \<open>
  The polling cycle of \<open>main.py\<close>: fetching the selected devices, caching, logging and
  broadcasting what came back (\<open>_poll_once\<close>), and the collapsing of repeated failures in the
  debug log (\<open>_log_metrics_result\<close>). Times are readings of the monotonic clock.
\<close>

section \<open>The failure log\<close>

definition METRICS_ERROR_SUMMARY_SECONDS :: rat where
  "METRICS_ERROR_SUMMARY_SECONDS = 5 * 60"

record failing =
  f_error :: pystr
  f_window :: nat
  f_total :: nat
  f_start :: rat

text \<open>The three lines: the first failure, a summary with its count, the recovery with its count.\<close>

datatype log_line = Fails pystr | Still_Failing pystr nat | Recovered nat

type_synonym 'd failures = "('d, failing) dict"

definition first_failure :: "pystr \<Rightarrow> rat \<Rightarrow> failing" where
  "first_failure e t = \<lparr>f_error = e, f_window = 1, f_total = 1, f_start = t\<rparr>"

definition log_metrics_result :: "'d \<Rightarrow> pystr option \<Rightarrow> rat \<Rightarrow> 'd failures \<Rightarrow> 'd failures \<times> ('d \<times> log_line) list" where
  "log_metrics_result did err t st =
     (case err of
        None \<Rightarrow>
          (case dict_get st did of
             None \<Rightarrow> (st, [])
           | Some x \<Rightarrow> (dict_pop did st, [(did, Recovered (f_total x))]))
      | Some e \<Rightarrow>
          (case dict_get st did of
             None \<Rightarrow> (dict_set did (first_failure e t) st, [(did, Fails e)])
           | Some x \<Rightarrow>
               if f_error x \<noteq> e then (dict_set did (first_failure e t) st, [(did, Fails e)])
               else (let y = x\<lparr>f_window := f_window x + 1, f_total := f_total x + 1\<rparr>
                     in if t - f_start y \<ge> METRICS_ERROR_SUMMARY_SECONDS
                        then (dict_set did (y\<lparr>f_window := 0, f_start := t\<rparr>) st, [(did, Still_Failing e (f_window y))])
                        else (dict_set did y st, []))))"

fun log_all :: "('d \<times> pystr option \<times> rat) list \<Rightarrow> 'd failures \<Rightarrow> 'd failures \<times> ('d \<times> log_line) list" where
  "log_all [] st = (st, [])"
| "log_all ((did, err, t) # rs) st =
     (let (st', ls) = log_metrics_result did err t st; (st'', ls') = log_all rs st' in (st'', ls @ ls'))"

section \<open>One cycle\<close>

datatype poll_result = Panel panel | Error pystr

text \<open>The dictionary \<open>extract_metrics\<close> returns, and what is left without its private keys.\<close>

datatype shown = Number rat | Amount nat | Words pystr | Disks "mounted list" | Temps "(pystr \<times> rat) list"
  | Rates "(pystr, rat \<times> rat) dict" | Cpu_Raw rat rat

definition shown_memory :: "string \<Rightarrow> memory option \<Rightarrow> (string \<times> shown) list" where
  "shown_memory p x = (case x of None \<Rightarrow> []
     | Some m \<Rightarrow> [(p @ ''_total_gb'', Number (m_total_gb m)), (p @ ''_used_gb'', Number (m_used_gb m)),
         (p @ ''_percent'', Number (m_percent m))])"

definition panel_dict :: "panel \<Rightarrow> (string \<times> shown) list" where
  "panel_dict x =
     [(''_timestamp'', Number (p_time x))]
   @ (case p_host x of None \<Rightarrow> [] | Some (n, k, a) \<Rightarrow> [(''hostname'', Words n), (''kernel'', Words k), (''arch'', Words a)])
   @ (case p_uptime x of None \<Rightarrow> [] | Some u \<Rightarrow> [(''uptime'', Words u)])
   @ concat (map (\<lambda>(k, v). case v of None \<Rightarrow> [] | Some q \<Rightarrow> [(k, Number q)]) (zip [''load1'', ''load5'', ''load15''] (p_loads x)))
   @ (case p_cpu x of None \<Rightarrow> [] | Some c \<Rightarrow> [(''cpu_count'', Amount (c_count c)), (''_cpu_raw'', Cpu_Raw (c_total c) (c_idle c))])
   @ (case p_cpu_percent x of None \<Rightarrow> [] | Some q \<Rightarrow> [(''cpu_percent'', Number q)])
   @ shown_memory ''ram'' (p_ram x) @ shown_memory ''swap'' (p_swap x)
   @ [(''disks'', Disks (p_disks x)), (''temps'', Temps (p_temps x)), (''_net_raw'', Rates (p_net x))]
   @ (case p_network x of None \<Rightarrow> [] | Some ns \<Rightarrow> [(''network'', Rates ns)])"

definition result_dict :: "poll_result \<Rightarrow> (string \<times> shown) list" where
  "result_dict r = (case r of Panel x \<Rightarrow> panel_dict x | Error e \<Rightarrow> [(''error'', Words e)])"

definition public_part :: "poll_result \<Rightarrow> (string \<times> shown) list" where
  "public_part r = filter (\<lambda>(k, v). take 1 k \<noteq> ''_'') (result_dict r)"

definition error_of :: "poll_result \<Rightarrow> pystr option" where
  "error_of r = (case r of Error e \<Rightarrow> if e = [] then None else Some e | Panel x \<Rightarrow> None)"

record poller =
  metrics_cache :: "(json, poll_result) dict"
  metrics_errors :: "json failures"

definition id_of :: "jdict \<Rightarrow> json" where
  "id_of d = (case json_get d ''id'' of None \<Rightarrow> JNull | Some v \<Rightarrow> v)"

definition port_or_default :: "jdict \<Rightarrow> json" where
  "port_or_default d = (case json_get d ''metrics_port'' of None \<Rightarrow> JInt 9100 | Some v \<Rightarrow> v)"

text \<open>
  \<open>fetch\<close> is one call of \<open>fetch_metrics\<close>: \<open>Inl\<close> is an exception it lets out, by its type's name.
  The last panel counts only when the last poll succeeded: an error has none of the keys that
  \<open>extract_metrics\<close> looks for.
\<close>

type_synonym fetcher = "json option \<Rightarrow> json \<Rightarrow> panel option \<Rightarrow> string + poll_result"

definition previous :: "(json, poll_result) dict \<Rightarrow> json \<Rightarrow> panel option" where
  "previous c did = (case dict_get c did of Some (Panel x) \<Rightarrow> Some x | _ \<Rightarrow> None)"

definition fetch_one :: "fetcher \<Rightarrow> (json, poll_result) dict \<Rightarrow> jdict \<Rightarrow> poll_result" where
  "fetch_one fetch c d =
     (case fetch (json_get d ''host'') (port_or_default d) (previous c (id_of d)) of
        Inl exc \<Rightarrow> Error (lit ''failed ('' @ lit exc @ lit '')'')
      | Inr r \<Rightarrow> r)"

text \<open>One finished fetch: it is cached, logged and broadcast.\<close>

definition take_result ::
  "jdict \<Rightarrow> poll_result \<Rightarrow> rat \<Rightarrow> poller \<Rightarrow> poller \<times> (json \<times> log_line) list \<times> (json \<times> (string \<times> shown) list)" where
  "take_result d r t p =
     (let (st, ls) = log_metrics_result (id_of d) (error_of r) t (metrics_errors p)
      in (p\<lparr>metrics_cache := dict_set (id_of d) r (metrics_cache p), metrics_errors := st\<rparr>, ls, (id_of d, public_part r)))"

fun take_results ::
  "(jdict \<times> poll_result \<times> rat) list \<Rightarrow> poller \<Rightarrow> poller \<times> (json \<times> log_line) list \<times> (json \<times> (string \<times> shown) list) list" where
  "take_results [] p = (p, [], [])"
| "take_results ((d, r, t) # rs) p =
     (let (p', ls, msg) = take_result d r t p; (p'', ls', msgs) = take_results rs p' in (p'', ls @ ls', msg # msgs))"

definition prune :: "json set \<Rightarrow> json failures \<Rightarrow> json failures" where
  "prune sel st = filter (\<lambda>(did, x). did \<in> sel) st"

text \<open>
  \<open>order\<close> is the order in which the fetches finish, each with the clock then. Every device has
  its own id, so a fetch reads the cache entry that was there when the cycle began.
\<close>

definition poll_once ::
  "json set \<Rightarrow> jdict list \<Rightarrow> fetcher \<Rightarrow> (nat \<times> rat) list \<Rightarrow> poller
     \<Rightarrow> poller \<times> (json \<times> log_line) list \<times> (json \<times> (string \<times> shown) list) list" where
  "poll_once sel devices fetch order p =
     (let q = p\<lparr>metrics_errors := prune sel (metrics_errors p)\<rparr>;
          ds = filter (\<lambda>d. id_of d \<in> sel) devices;
          rs = map (\<lambda>d. (d, fetch_one fetch (metrics_cache p) d)) ds
      in take_results (map (\<lambda>(i, t). (fst (rs ! i), snd (rs ! i), t)) order) q)"

section \<open>Repeated failures\<close>

lemma log_other:
  "did' \<noteq> did \<Longrightarrow> log_metrics_result did' err t st = (st', ls) \<Longrightarrow>
     dict_get st' did = dict_get st did \<and> filter (\<lambda>l. fst l = did) ls = []"
  by (auto simp: log_metrics_result_def Let_def dict_get_set split: option.splits if_splits)

text \<open>The lines of one device depend only on its own results.\<close>

definition failing_step :: "pystr \<Rightarrow> rat \<Rightarrow> failing \<Rightarrow> failing \<times> log_line list" where
  "failing_step e t x =
     (let n = f_window x + 1
      in if t - f_start x \<ge> METRICS_ERROR_SUMMARY_SECONDS
         then (x\<lparr>f_window := 0, f_total := f_total x + 1, f_start := t\<rparr>, [Still_Failing e n])
         else (x\<lparr>f_window := n, f_total := f_total x + 1\<rparr>, []))"

lemma log_same:
  "dict_get st did = Some x \<Longrightarrow> f_error x = e \<Longrightarrow> log_metrics_result did (Some e) t st = (st', ls) \<Longrightarrow>
     dict_get st' did = Some (fst (failing_step e t x)) \<and> ls = map (Pair did) (snd (failing_step e t x))"
  by (auto simp: log_metrics_result_def failing_step_def Let_def dict_get_set split: if_splits)

fun failing_run :: "pystr \<Rightarrow> rat list \<Rightarrow> failing \<Rightarrow> failing \<times> log_line list" where
  "failing_run e [] x = (x, [])"
| "failing_run e (t # ts) x =
     (let (y, ls) = failing_step e t x; (z, ls') = failing_run e ts y in (z, ls @ ls'))"

lemma failing_step_error [simp]: "f_error (fst (failing_step e t x)) = f_error x"
  by (simp add: failing_step_def Let_def)

lemma failing_run_error: "f_error (fst (failing_run e ts x)) = f_error x"
  by (induction ts arbitrary: x) (simp_all add: Let_def case_prod_unfold)

lemma log_all_failing:
  assumes "dict_get st did = Some x" "f_error x = e" "log_all evs st = (st', ls)"
    and "map snd (filter (\<lambda>v. fst v = did) evs) = map (\<lambda>t. (Some e, t)) ts"
  shows "dict_get st' did = Some (fst (failing_run e ts x))
    \<and> filter (\<lambda>l. fst l = did) ls = map (Pair did) (snd (failing_run e ts x))"
  using assms
proof (induction evs arbitrary: st x ts ls)
  case Nil
  then show ?case by simp
next
  case (Cons v evs)
  obtain d err t where v: "v = (d, err, t)" by (cases v)
  obtain st1 l1 where 1: "log_metrics_result d err t st = (st1, l1)" by force
  obtain l2 where 2: "log_all evs st1 = (st', l2)" "ls = l1 @ l2"
    using Cons.prems(3) by (auto simp: v 1 split: prod.splits)
  show ?case
  proof (cases "d = did")
    case False
    note o = log_other [OF False 1]
    from Cons.IH [OF _ Cons.prems(2) 2(1), of ts] Cons.prems(1,4) o show ?thesis by (simp add: 2 v False)
  next
    case True
    then obtain ts' where ts: "ts = t # ts'" "err = Some e"
      "map snd (filter (\<lambda>v. fst v = did) evs) = map (\<lambda>t. (Some e, t)) ts'"
      using Cons.prems(4) by (cases ts) (auto simp: v)
    note s = log_same [OF Cons.prems(1,2) 1 [unfolded True ts(2)]]
    have "f_error (fst (failing_step e t x)) = e" using Cons.prems(2) by simp
    from Cons.IH [OF conjunct1 [OF s] this 2(1) ts(3)] s show ?thesis
      by (simp add: 2 ts(1) Let_def split: prod.splits)
  qed
qed

lemma failing_step_cases:
  assumes "failing_step e t x = (y, ls)"
  shows "f_total y = f_total x + 1"
    and "ls = [] \<and> f_window y = f_window x + 1 \<and> f_start y = f_start x \<and> t < f_start x + 300
       \<or> ls = [Still_Failing e (f_window x + 1)] \<and> f_window y = 0 \<and> f_start y = t \<and> f_start x + 300 \<le> t"
  using assms by (auto simp: failing_step_def Let_def METRICS_ERROR_SUMMARY_SECONDS_def split: if_splits)

lemma failing_run_counts:
  assumes "sorted (f_start x # ts)" "failing_run e ts x = (y, ls)"
  shows "f_total y = f_total x + length ts
    \<and> (\<exists>ns. ls = map (Still_Failing e) ns \<and> sum_list ns + f_window y = f_window x + length ts
         \<and> f_start x + 300 * of_nat (length ns) \<le> f_start y)
    \<and> f_start y \<le> last (f_start x # ts) \<and> (ts \<noteq> [] \<longrightarrow> last ts < f_start y + 300)"
  using assms
proof (induction ts arbitrary: x ls)
  case Nil
  then show ?case by simp
next
  case (Cons t ts)
  obtain x1 l1 where 1: "failing_step e t x = (x1, l1)" by force
  obtain l2 where 2: "failing_run e ts x1 = (y, l2)" "ls = l1 @ l2"
    using Cons.prems(2) by (auto simp: 1 split: prod.splits)
  note s = failing_step_cases [OF 1]
  have "sorted (f_start x1 # ts)" using Cons.prems(1) s(2) by auto
  note ih = Cons.IH [OF this 2(1)]
  obtain ns where ns: "l2 = map (Still_Failing e) ns" "sum_list ns + f_window y = f_window x1 + length ts"
    "f_start x1 + 300 * of_nat (length ns) \<le> f_start y" using ih by blast
  have le: "f_start x1 \<le> t" "f_start x \<le> t" using s(2) Cons.prems(1) by auto
  have b: "f_start y \<le> last (t # ts)"
    using ih le(1) by (cases ts) (auto split: if_splits)
  have c: "last (t # ts) < f_start y + 300"
  proof (cases "ts = []")
    case True
    then show ?thesis using 2(1) s(2) by auto
  qed (use ih in simp)
  have "\<exists>ms. ls = map (Still_Failing e) ms \<and> sum_list ms + f_window y = f_window x + length (t # ts)
      \<and> f_start x + 300 * of_nat (length ms) \<le> f_start y"
    using s(2)
  proof (elim disjE conjE)
    assume "l1 = []" "f_window x1 = f_window x + 1" "f_start x1 = f_start x"
    then show ?thesis using ns 2(2) by (intro exI [of _ ns]) simp
  next
    assume "l1 = [Still_Failing e (f_window x + 1)]" "f_window x1 = 0" "f_start x1 = t" "f_start x + 300 \<le> t"
    then show ?thesis using ns 2(2) by (intro exI [of _ "(f_window x + 1) # ns"]) (simp add: algebra_simps)
  qed
  then show ?case using ih s(1) b c by (simp add: le)
qed

lemma log_all_first:
  assumes "map snd (filter (\<lambda>v. fst v = did) evs) = map (\<lambda>t. (Some e, t)) (t # ts)"
    and "dict_get st did = None" and "log_all evs st = (st', ls)"
  shows "dict_get st' did = Some (fst (failing_run e ts (first_failure e t)))
    \<and> filter (\<lambda>l. fst l = did) ls = (did, Fails e) # map (Pair did) (snd (failing_run e ts (first_failure e t)))"
  using assms
proof (induction evs arbitrary: st ls)
  case Nil
  then show ?case by simp
next
  case (Cons v evs)
  obtain d err u where v: "v = (d, err, u)" by (cases v)
  obtain st1 l1 where 1: "log_metrics_result d err u st = (st1, l1)" by force
  obtain l2 where 2: "log_all evs st1 = (st', l2)" "ls = l1 @ l2"
    using Cons.prems(3) by (auto simp: v 1 split: prod.splits)
  show ?case
  proof (cases "d = did")
    case False
    from Cons.IH [of st1 l2] Cons.prems(1,2) log_other [OF False 1] show ?thesis by (simp add: 2 v False)
  next
    case True
    then have vv: "err = Some e" "u = t" "map snd (filter (\<lambda>v. fst v = did) evs) = map (\<lambda>t. (Some e, t)) ts"
      using Cons.prems(1) by (auto simp: v)
    have st1: "dict_get st1 did = Some (first_failure e t)" "l1 = [(did, Fails e)]"
      using 1 Cons.prems(2) by (auto simp: True vv log_metrics_result_def dict_get_set)
    from log_all_failing [OF st1(1) _ 2(1) vv(3)] show ?thesis by (simp add: 2 st1 first_failure_def)
  qed
qed

text \<open>
  C32. A device that keeps failing with one error. Its first failure is logged at once; after that
  at most one summary per five minutes is, and none is overdue by the last poll; the counts of the
  summaries and the pending count together make the number of failed polls; another error is
  logged at once; and the recovery line tells the number of failed polls. What other devices do
  in between makes no difference.
\<close>

theorem failure_log_exact:
  assumes evs: "map snd (filter (\<lambda>v. fst v = did) evs) = map (\<lambda>t. (Some e, t)) (t # ts)"
    and times: "sorted (t # ts)" and fresh: "dict_get st did = None" and run: "log_all evs st = (st', ls)"
  shows "\<exists>ns y. filter (\<lambda>l. fst l = did) ls = (did, Fails e) # map (\<lambda>n. (did, Still_Failing e n)) ns
    \<and> t + 300 * of_nat (length ns) \<le> last (t # ts)
    \<and> dict_get st' did = Some y \<and> sum_list ns + f_window y = length (t # ts) \<and> last (t # ts) < f_start y + 300
    \<and> log_metrics_result did None t' st' = (dict_pop did st', [(did, Recovered (length (t # ts)))])
    \<and> (e' \<noteq> e \<longrightarrow> snd (log_metrics_result did (Some e') t' st') = [(did, Fails e')])"
proof -
  note head = log_all_first [OF evs fresh run]
  obtain y l where y: "failing_run e ts (first_failure e t) = (y, l)" by force
  have "sorted (f_start (first_failure e t) # ts)" using times by (simp add: first_failure_def)
  note c = failing_run_counts [OF this y]
  obtain ns where ns: "l = map (Still_Failing e) ns" "sum_list ns + f_window y = 1 + length ts"
    "t + 300 * of_nat (length ns) \<le> f_start y" using c by (auto simp: first_failure_def)
  have e: "f_error y = e"
    using failing_run_error [of e ts "first_failure e t"] unfolding y by (simp add: first_failure_def)
  have got: "dict_get st' did = Some y" using head by (simp add: y)
  have last: "f_start y \<le> last (t # ts)" "last (t # ts) < f_start y + 300"
    using c y by (cases "ts = []"; simp add: first_failure_def)+
  have lines: "filter (\<lambda>l. fst l = did) ls = (did, Fails e) # map (\<lambda>n. (did, Still_Failing e n)) ns"
    using head unfolding y by (simp add: ns(1) comp_def)
  have tot: "f_total y = length (t # ts)" using c by (simp add: first_failure_def)
  have rec: "log_metrics_result did None t' st' = (dict_pop did st', [(did, Recovered (length (t # ts)))])"
    unfolding log_metrics_result_def using got by (simp add: tot)
  have other: "e' \<noteq> e \<longrightarrow> snd (log_metrics_result did (Some e') t' st') = [(did, Fails e')]"
    unfolding log_metrics_result_def using got e by simp
  show ?thesis
    using lines order_trans [OF ns(3) last(1)] got ns(2) last(2) rec other
    by (intro exI [of _ ns] exI [of _ y]) (intro conjI; simp)
qed

lemma failure_log_exact_witness:
  "log_all [(''nas'', Some (lit ''dns''), 0), (''pi'', None, 1), (''nas'', Some (lit ''dns''), 2), (''nas'', Some (lit ''dns''), 301)] []
     = ([(''nas'', \<lparr>f_error = lit ''dns'', f_window = 0, f_total = 3, f_start = 301\<rparr>)],
        [(''nas'', Fails (lit ''dns'')), (''nas'', Still_Failing (lit ''dns'') 3)])
   \<and> log_metrics_result ''nas'' None 303 [(''nas'', \<lparr>f_error = lit ''dns'', f_window = 0, f_total = 3, f_start = 301\<rparr>)]
     = ([], [(''nas'', Recovered 3)])"
proof -
  let ?evs = "[(''nas'', Some (lit ''dns''), 0), (''pi'', None, 1), (''nas'', Some (lit ''dns''), 2), (''nas'', Some (lit ''dns''), 301)]"
  have run: "log_all ?evs [] = ([(''nas'', \<lparr>f_error = lit ''dns'', f_window = 0, f_total = 3, f_start = 301\<rparr>)],
        [(''nas'', Fails (lit ''dns'')), (''nas'', Still_Failing (lit ''dns'') 3)])"
    by (simp add: log_metrics_result_def first_failure_def METRICS_ERROR_SUMMARY_SECONDS_def)
  have "log_metrics_result ''nas'' None 303 [(''nas'', \<lparr>f_error = lit ''dns'', f_window = 0, f_total = 3, f_start = 301\<rparr>)]
     = ([], [(''nas'', Recovered 3)])"
    using failure_log_exact [where did = "''nas''" and e = "lit ''dns''" and t = 0 and ts = "[2, 301]" and t' = 303
        and e' = "lit ''dns''", OF _ _ _ run]
    by (auto simp: numeral_3_eq_3)
  then show ?thesis using run by blast
qed

text \<open>
  The count of a recovery line starts again with every change of the error text: two failed polls
  in a row with different errors are reported as one.
\<close>

lemma recovery_counts_last_error_only:
  "snd (log_all [(''nas'', Some (lit ''dns''), 0), (''nas'', Some (lit ''timeout''), 2), (''nas'', None, 4)] [])
     = [(''nas'', Fails (lit ''dns'')), (''nas'', Fails (lit ''timeout'')), (''nas'', Recovered 1)]"
  by (simp add: log_metrics_result_def first_failure_def)

section \<open>What a cycle does\<close>

lemma take_results_split:
  "take_results rs p = (p', ls, msgs) \<Longrightarrow>
     msgs = map (\<lambda>(d, r, t). (id_of d, public_part r)) rs
   \<and> (metrics_errors p', ls) = log_all (map (\<lambda>(d, r, t). (id_of d, error_of r, t)) rs) (metrics_errors p)
   \<and> metrics_cache p' = fold (\<lambda>(d, r, t). dict_set (id_of d) r) rs (metrics_cache p)"
proof (induction rs arbitrary: p ls msgs)
  case (Cons x rs)
  obtain d r t where x: "x = (d, r, t)" by (cases x)
  obtain st l1 where 1: "log_metrics_result (id_of d) (error_of r) t (metrics_errors p) = (st, l1)" by force
  let ?q = "p\<lparr>metrics_cache := dict_set (id_of d) r (metrics_cache p), metrics_errors := st\<rparr>"
  obtain l2 m2 where 2: "take_results rs ?q = (p', l2, m2)" "ls = l1 @ l2" "msgs = (id_of d, public_part r) # m2"
    using Cons.prems by (auto simp: x take_result_def 1 Let_def split: prod.splits)
  from Cons.IH [OF 2(1)] show ?case by (auto simp: x 1 2 Let_def split: prod.splits)
qed simp

text \<open>Nothing private is broadcast.\<close>

lemma public_keys: "(k, v) \<in> set (public_part r) \<Longrightarrow> (k, v) \<in> set (result_dict r) \<and> take 1 k \<noteq> ''_''"
  by (simp add: public_part_def)

lemma take_results_cache:
  "dict_get (fold (\<lambda>(d, r, t). dict_set (f d) r) rs c) k
     = (if k \<in> (\<lambda>x. f (fst x)) ` set rs
        then dict_get (rev (map (\<lambda>(d, r, t). (f d, r)) rs)) k else dict_get c k)"
proof (induction rs arbitrary: c)
  case (Cons x rs)
  obtain d r t where x: "x = (d, r, t)" by (cases x)
  have "k \<in> (\<lambda>x. f (fst x)) ` set rs \<longleftrightarrow> dict_get (rev (map (\<lambda>(d, r, t). (f d, r)) rs)) k \<noteq> None"
    unfolding dict_get_keys by (force simp: rev_map image_iff)
  then show ?case unfolding x using Cons.IH [of "dict_set (f d) r c"]
    by (auto simp: dict_get_set map_add_def split: option.splits)
qed simp

lemma take_results_cache_distinct:
  assumes "distinct (map (\<lambda>x. f (fst x)) rs)" "(d, r, t) \<in> set rs"
  shows "dict_get (fold (\<lambda>(d, r, t). dict_set (f d) r) rs c) (f d) = Some r"
proof -
  have "distinct (map fst (rev (map (\<lambda>(d, r, t). (f d, r)) rs)))"
    using assms(1) by (simp add: rev_map [symmetric] comp_def case_prod_unfold)
  then have "dict_get (rev (map (\<lambda>(d, r, t). (f d, r)) rs)) (f d) = Some r"
    by (rule map_of_is_SomeI) (use assms(2) in force)
  moreover have "f d \<in> (\<lambda>x. f (fst x)) ` set rs" using assms(2) by force
  ultimately show ?thesis by (simp add: take_results_cache)
qed

text \<open>After a cycle a device is tracked as failing exactly when its result was an error.\<close>

lemma log_tracks:
  "log_metrics_result did err t st = (st', ls) \<Longrightarrow> dict_get st' did \<noteq> None \<longleftrightarrow> err \<noteq> None"
  by (auto simp: log_metrics_result_def Let_def dict_get_set dict_get_pop split: option.splits if_splits)

lemma log_all_frame:
  "did \<notin> set (map fst evs) \<Longrightarrow> log_all evs st = (st', ls) \<Longrightarrow> dict_get st' did = dict_get st did"
proof (induction evs arbitrary: st ls)
  case (Cons v evs)
  obtain d e u where v: "v = (d, e, u)" by (cases v)
  obtain st1 l1 where 1: "log_metrics_result d e u st = (st1, l1)" by force
  obtain l2 where 2: "log_all evs st1 = (st', l2)" using Cons.prems(2) by (auto simp: v 1 split: prod.splits)
  then show ?case using Cons.IH [OF _ 2] Cons.prems(1) log_other [OF _ 1, of did] by (auto simp: v)
qed simp

lemma log_all_tracks:
  "distinct (map fst evs) \<Longrightarrow> (did, err, t) \<in> set evs \<Longrightarrow> log_all evs st = (st', ls) \<Longrightarrow>
     dict_get st' did \<noteq> None \<longleftrightarrow> err \<noteq> None"
proof (induction evs arbitrary: st ls)
  case (Cons v evs)
  obtain d e u where v: "v = (d, e, u)" by (cases v)
  obtain st1 l1 where 1: "log_metrics_result d e u st = (st1, l1)" by force
  obtain l2 where 2: "log_all evs st1 = (st', l2)" using Cons.prems(3) by (auto simp: v 1 split: prod.splits)
  show ?case
  proof (cases "did = d")
    case True
    then have "did \<notin> set (map fst evs)" "err = e" using Cons.prems(1,2) by (force simp: v)+
    with log_all_frame [OF _ 2] log_tracks [OF 1] True show ?thesis by simp
  next
    case False
    then show ?thesis using Cons.IH [OF _ _ 2] Cons.prems(1,2) by (auto simp: v)
  qed
qed simp

text \<open>
  The finished fetches of a cycle, in the order of their completion: one for every selected device,
  each with the result fetched for it.
\<close>

definition finished :: "jdict list \<Rightarrow> (jdict \<Rightarrow> poll_result) \<Rightarrow> (nat \<times> rat) list \<Rightarrow> (jdict \<times> poll_result \<times> rat) list" where
  "finished ds res order = map (\<lambda>(i, t). (ds ! i, res (ds ! i), t)) order"

lemma poll_once_finished:
  assumes "mset (map fst order) = mset [0..<length (filter (\<lambda>d. id_of d \<in> sel) devices)]"
  shows "poll_once sel devices fetch order p = take_results
    (finished (filter (\<lambda>d. id_of d \<in> sel) devices) (fetch_one fetch (metrics_cache p)) order)
    (p\<lparr>metrics_errors := prune sel (metrics_errors p)\<rparr>)"
proof -
  let ?ds = "filter (\<lambda>d. id_of d \<in> sel) devices" and ?res = "fetch_one fetch (metrics_cache p)"
  have "i < length ?ds" if "(i, t) \<in> set order" for i t
  proof -
    have "i \<in> set_mset (mset (map fst order))" using that by force
    then show ?thesis unfolding assms by simp
  qed
  then have "map (\<lambda>(i, t). (fst (map (\<lambda>d. (d, ?res d)) ?ds ! i), snd (map (\<lambda>d. (d, ?res d)) ?ds ! i), t)) order
      = finished ?ds ?res order"
    unfolding finished_def by (intro map_cong) auto
  then show ?thesis by (simp add: poll_once_def Let_def)
qed

lemma finished_devices:
  assumes "mset (map fst order) = mset [0..<length ds]"
  shows "map fst (finished ds res order) = map ((!) ds) (map fst order)"
    and "mset (map fst (finished ds res order)) = mset ds"
    and "x \<in> set (finished ds res order) \<Longrightarrow> snd x = (res (fst x), snd (snd x))"
proof -
  show devs: "map fst (finished ds res order) = map ((!) ds) (map fst order)"
    by (simp add: finished_def comp_def case_prod_unfold)
  have "mset (map ((!) ds) (map fst order)) = image_mset ((!) ds) (mset [0..<length ds])"
    unfolding mset_map [of "(!) ds"] assms ..
  also have "\<dots> = mset ds" by (simp only: mset_map [symmetric] map_nth)
  finally show "mset (map fst (finished ds res order)) = mset ds" by (simp only: devs)
qed (auto simp: finished_def)

lemma finished_distinct:
  assumes "mset (map fst order) = mset [0..<length ds]" "distinct (map id_of ds)"
  shows "distinct (map (\<lambda>x. id_of (fst x)) (finished ds res order))"
proof -
  have "mset (map id_of (map fst (finished ds res order))) = mset (map id_of ds)"
    using finished_devices(2) [OF assms(1)] by (simp only: mset_map)
  then show ?thesis using assms(2) mset_eq_imp_distinct_iff by (fastforce simp: comp_def)
qed

text \<open>
  One polling cycle. Whatever the order in which the fetches finish, one message goes out for
  every saved device that is selected, in that order, with the result without its private fields;
  the result is the new cache entry, while entries of other devices stay; a device is tracked as
  failing afterwards exactly when its fetch failed, and nothing unselected is tracked.
\<close>

theorem poll_once_exact:
  assumes ids: "distinct (map id_of devices)"
    and order: "mset (map fst order) = mset [0..<length (filter (\<lambda>d. id_of d \<in> sel) devices)]"
    and run: "poll_once sel devices fetch order p = (p', ls, msgs)"
  shows "mset msgs = mset (map (\<lambda>d. (id_of d, public_part (fetch_one fetch (metrics_cache p) d)))
        (filter (\<lambda>d. id_of d \<in> sel) devices))
    \<and> map fst msgs = map (\<lambda>i. id_of (filter (\<lambda>d. id_of d \<in> sel) devices ! i)) (map fst order)
    \<and> (\<forall>d \<in> set devices. id_of d \<in> sel \<longrightarrow>
         dict_get (metrics_cache p') (id_of d) = Some (fetch_one fetch (metrics_cache p) d)
       \<and> (dict_get (metrics_errors p') (id_of d) \<noteq> None \<longleftrightarrow> error_of (fetch_one fetch (metrics_cache p) d) \<noteq> None))
    \<and> (\<forall>k. k \<notin> sel \<or> k \<notin> id_of ` set devices \<longrightarrow> dict_get (metrics_cache p') k = dict_get (metrics_cache p) k)
    \<and> (\<forall>k. k \<notin> sel \<longrightarrow> dict_get (metrics_errors p') k = None)"
proof -
  define ds where "ds = filter (\<lambda>d. id_of d \<in> sel) devices"
  define res where "res = fetch_one fetch (metrics_cache p)"
  define q where "q = p\<lparr>metrics_errors := prune sel (metrics_errors p)\<rparr>"
  define rs where "rs = finished ds res order"
  have ord: "mset (map fst order) = mset [0..<length ds]" using order by (simp add: ds_def)
  have run': "take_results rs q = (p', ls, msgs)"
    using run unfolding poll_once_finished [OF order] rs_def ds_def res_def q_def .
  note s = take_results_split [OF run'] and fin = finished_devices [OF ord, where res = res, folded rs_def]
  have "distinct (map id_of ds)" unfolding ds_def using ids by (rule distinct_map_filter)
  then have dist: "distinct (map (\<lambda>x. id_of (fst x)) rs)" unfolding rs_def by (rule finished_distinct [OF ord])
  have msgs: "msgs = map (\<lambda>d. (id_of d, public_part (res d))) (map fst rs)"
    using s by (simp add: rs_def finished_def comp_def case_prod_unfold)
  let ?es = "map (\<lambda>(d, r, t). (id_of d, error_of r, t)) rs"
  have es: "map fst ?es = map (\<lambda>x. id_of (fst x)) rs" by (simp add: comp_def case_prod_unfold)
  have log: "log_all ?es (metrics_errors q) = (metrics_errors p', ls)" using s by simp
  have keys: "id_of ` set (map fst rs) = id_of ` {d \<in> set devices. id_of d \<in> sel}"
    using fin(2) [THEN mset_eq_setD] by (simp add: ds_def)
  have "mset msgs = mset (map (\<lambda>d. (id_of d, public_part (res d))) ds)"
    unfolding msgs by (simp only: mset_map fin(2) [unfolded mset_map])
  moreover have "map fst msgs = map (\<lambda>i. id_of (ds ! i)) (map fst order)"
    unfolding msgs fin(1) by (simp add: comp_def)
  moreover have "dict_get (metrics_cache p') (id_of d) = Some (res d)
      \<and> (dict_get (metrics_errors p') (id_of d) \<noteq> None \<longleftrightarrow> error_of (res d) \<noteq> None)"
    if d: "d \<in> set devices" "id_of d \<in> sel" for d
  proof -
    have "d \<in> set (map fst rs)" using d fin(2) [THEN mset_eq_setD] by (simp add: ds_def)
    then obtain t where x: "(d, res d, t) \<in> set rs" using fin(3) by fastforce
    then have e: "(id_of d, error_of (res d), t) \<in> set ?es" by force
    show ?thesis
      using take_results_cache_distinct [OF dist x] s log_all_tracks [OF dist [folded es] e log] by simp
  qed
  moreover have "dict_get (metrics_cache p') k = dict_get (metrics_cache p) k" if "k \<notin> sel \<or> k \<notin> id_of ` set devices" for k
  proof -
    have "k \<notin> (\<lambda>x. id_of (fst x)) ` set rs" using keys that by (auto simp: image_image)
    then show ?thesis using s by (simp add: take_results_cache q_def)
  qed
  moreover have "dict_get (metrics_errors p') k = None" if "k \<notin> sel" for k
  proof -
    have "k \<notin> set (map fst ?es)" using keys that unfolding es by (auto simp: image_image)
    from log_all_frame [OF this log] show ?thesis
      using that by (force simp: q_def prune_def map_of_eq_None_iff)
  qed
  ultimately show ?thesis unfolding ds_def res_def by blast
qed

definition sample_devices :: "jdict list" where
  "sample_devices = [[(lit ''id'', js ''a''), (lit ''host'', js ''nas'')], [(lit ''id'', js ''b''), (lit ''host'', js ''pi'')]]"

lemma poll_once_exact_witness:
  "(case poll_once {js ''b'', js ''a''} sample_devices (\<lambda>host port prev. Inr (Error (lit ''dns''))) [(1, 5), (0, 6)] \<lparr>metrics_cache = [], metrics_errors = []\<rparr>
     of (p', ls, msgs) \<Rightarrow> map fst msgs = [js ''b'', js ''a'']
        \<and> dict_get (metrics_cache p') (js ''a'') = Some (Error (lit ''dns'')))"
proof -
  let ?f = "\<lambda>host port prev. Inr (Error (lit ''dns'')) :: string + poll_result"
  obtain p' ls msgs where run: "poll_once {js ''b'', js ''a''} sample_devices ?f [(1, 5), (0, 6)] \<lparr>metrics_cache = [], metrics_errors = []\<rparr>
      = (p', ls, msgs)"
    by (metis surj_pair)
  have ids: "map id_of sample_devices = [js ''a'', js ''b'']"
    by (simp add: sample_devices_def id_of_def json_get_def)
  then have sel: "filter (\<lambda>d. id_of d \<in> {js ''b'', js ''a''}) sample_devices = sample_devices"
    by (auto simp: filter_id_conv dest: arg_cong [where f = set])
  have len: "length sample_devices = 2" by (simp add: sample_devices_def)
  have "distinct (map id_of sample_devices)" unfolding ids by (simp add: js_def)
  from poll_once_exact [OF this _ run] have
    "map fst msgs = [id_of (sample_devices ! 1), id_of (sample_devices ! 0)]"
    "\<forall>d \<in> set sample_devices. id_of d \<in> {js ''b'', js ''a''} \<longrightarrow>
       dict_get (metrics_cache p') (id_of d) = Some (fetch_one ?f [] d)"
    unfolding sel len by (simp_all add: numeral_2_eq_2 add_mset_commute del: One_nat_def)
  moreover have "sample_devices ! 0 \<in> set sample_devices" "id_of (sample_devices ! 1) = js ''b''" "id_of (sample_devices ! 0) = js ''a''"
    by (simp_all add: sample_devices_def id_of_def json_get_def)
  ultimately show ?thesis unfolding run by (auto simp: fetch_one_def)
qed

end
