(* ===== verification/Debug_Log.thy ===== *)
theory Debug_Log
  imports Prelude
begin

text \<open>
  The optional debug log (\<open>debug_log.py\<close> and the route \<open>toggle_debug\<close>). A handler is the file it
  writes; the environment decides whether opening a file, writing a line and closing the file succeed.
  A failed write disables the log, warns the journal and tells the browsers. Other threads' lines
  are further steps. Files and their rotation are the logging library's.
\<close>

record debug_state =
  handler :: "nat option"
  attached :: "nat list"
  open_files :: "nat list"
  lines :: "(nat \<times> string) list"
  notice :: "string option"
  warnings :: nat
  pushed :: "string list"
  next_file :: nat
  loop_running :: bool

definition new_debug :: debug_state where
  "new_debug = \<lparr>handler = None, attached = [], open_files = [], lines = [], notice = None, warnings = 0, pushed = [],
     next_file = 0, loop_running = False\<rparr>"

definition configure :: "debug_state \<Rightarrow> debug_state" where
  "configure s = s\<lparr>loop_running := True\<rparr>"

definition debug_enabled :: "debug_state \<Rightarrow> bool" where
  "debug_enabled s \<longleftrightarrow> handler s \<noteq> None"

text \<open>\<open>removeHandler\<close> ignores a handler that is not there, None among them.\<close>

definition remove_handler :: "nat option \<Rightarrow> debug_state \<Rightarrow> debug_state" where
  "remove_handler h s = (case h of None \<Rightarrow> s | Some f \<Rightarrow> s\<lparr>attached := removeAll f (attached s)\<rparr>)"

text \<open>Closing releases the file even when flushing it raises.\<close>

definition close_file :: "nat \<Rightarrow> debug_state \<Rightarrow> debug_state" where
  "close_file f s = s\<lparr>open_files := removeAll f (open_files s)\<rparr>"

definition disable_on_failure :: "string \<Rightarrow> debug_state \<Rightarrow> debug_state" where
  "disable_on_failure reason s =
     (case handler s of
        None \<Rightarrow> s
      | Some f \<Rightarrow>
          (let s = close_file f (remove_handler (Some f) (s\<lparr>handler := None, notice := Some reason\<rparr>));
               s = s\<lparr>warnings := warnings s + 1\<rparr>
           in if loop_running s then s\<lparr>pushed := pushed s @ [reason]\<rparr> else s))"

definition write_failure :: string where
  "write_failure = ''debug log write or rotation failed''"

text \<open>A line goes to every handler of the logger; a handler that fails disables the log.\<close>

definition emit :: "bool \<Rightarrow> string \<Rightarrow> nat \<Rightarrow> debug_state \<Rightarrow> debug_state" where
  "emit ok t f s = (if ok then s\<lparr>lines := lines s @ [(f, t)]\<rparr> else disable_on_failure write_failure s)"

definition debug_write :: "bool \<Rightarrow> string \<Rightarrow> debug_state \<Rightarrow> debug_state" where
  "debug_write ok t s = (if handler s = None then s else fold (emit ok t) (attached s) s)"

text \<open>The record of a library warning carries its level and the logger's name only.\<close>

definition library_warning :: "bool \<Rightarrow> string \<Rightarrow> string \<Rightarrow> debug_state \<Rightarrow> debug_state" where
  "library_warning ok level name s = debug_write ok (''SSH library: '' @ level @ '' ('' @ name @ '')'') s"

datatype debug_reply = Log_Enabled nat | Log_Not_Opened | Says_Off | Server_Failure

definition enable :: "bool \<Rightarrow> bool \<Rightarrow> debug_state \<Rightarrow> debug_state \<times> debug_reply" where
  "enable opens ok s =
     (if \<not> opens then (s, Log_Not_Opened)
      else let f = next_file s;
               s = s\<lparr>next_file := f + 1, open_files := f # open_files s, attached := attached s @ [f], handler := Some f, notice := None\<rparr>
           in (debug_write ok ''=== Debug log started ==='' s, Log_Enabled f))"

text \<open>None is an exception: of \<open>close\<close>, or of calling it on None after the last line has failed.\<close>

definition disable :: "bool \<Rightarrow> bool \<Rightarrow> debug_state \<Rightarrow> debug_state \<times> unit option" where
  "disable ok closes s =
     (let s = debug_write ok ''=== Debug log stopped ==='' s; s = remove_handler (handler s) s
      in case handler s of
           None \<Rightarrow> (s, None)
         | Some f \<Rightarrow>
             (let s = close_file f s in if closes then (s\<lparr>handler := None\<rparr>, Some ()) else (s, None)))"

definition close_on_shutdown :: "bool \<Rightarrow> debug_state \<Rightarrow> debug_state" where
  "close_on_shutdown ok s =
     (if handler s = None then s
      else let s = debug_write ok ''=== Debug log closed (server shutdown) ==='' s; h = handler s; s = s\<lparr>handler := None\<rparr>
           in case h of None \<Rightarrow> s | Some f \<Rightarrow> close_file f (remove_handler h s))"

definition toggle_debug :: "bool \<Rightarrow> bool \<Rightarrow> bool \<Rightarrow> bool \<Rightarrow> debug_state \<Rightarrow> debug_state \<times> debug_reply" where
  "toggle_debug enabled opens ok closes s =
     (if enabled \<and> \<not> debug_enabled s then enable opens ok s
      else if \<not> enabled \<and> debug_enabled s then
        (case disable ok closes s of (s, Some _) \<Rightarrow> (s, Says_Off) | (s, None) \<Rightarrow> (s, Server_Failure))
      else (s, Says_Off))"

section \<open>Every reachable state\<close>

datatype debug_op = Configure | Line bool string | Library bool string string | Toggle bool bool bool bool | Shutdown bool

fun debug_step :: "debug_op \<Rightarrow> debug_state \<Rightarrow> debug_state" where
  "debug_step Configure s = configure s"
| "debug_step (Line ok t) s = debug_write ok t s"
| "debug_step (Library ok level name) s = library_warning ok level name s"
| "debug_step (Toggle en opens ok closes) s = fst (toggle_debug en opens ok closes s)"
| "debug_step (Shutdown ok) s = close_on_shutdown ok s"

definition debug_run :: "debug_op list \<Rightarrow> debug_state" where
  "debug_run ops = fold debug_step ops new_debug"

text \<open>At most one handler is attached, the one that is remembered; no other file is open.\<close>

definition debug_inv :: "debug_state \<Rightarrow> bool" where
  "debug_inv s \<longleftrightarrow>
     (case handler s of
        None \<Rightarrow> attached s = [] \<and> open_files s = []
      | Some f \<Rightarrow> (attached s = [f] \<and> open_files s = [f] \<or> attached s = [] \<and> open_files s = []) \<and> notice s = None)
   \<and> length (pushed s) \<le> warnings s"

lemmas debug_ops = disable_on_failure_def remove_handler_def close_file_def emit_def debug_write_def library_warning_def
  enable_def disable_def close_on_shutdown_def toggle_debug_def debug_enabled_def configure_def

lemma debug_inv_new: "debug_inv new_debug"
  by (simp add: debug_inv_def new_debug_def)

text \<open>What one line does: it is written to the attached file, or the log is off afterwards.\<close>

lemma debug_write_cases:
  assumes "debug_inv s"
  shows "debug_write ok t s =
    (case attached s of
       [] \<Rightarrow> s
     | f # fs \<Rightarrow> if ok then s\<lparr>lines := lines s @ [(f, t)]\<rparr> else disable_on_failure write_failure s)"
  using assms by (auto simp: debug_inv_def debug_write_def emit_def split: option.splits)

lemma disable_on_failure_inv: "debug_inv s \<Longrightarrow> debug_inv (disable_on_failure r s)"
  by (auto simp: debug_inv_def disable_on_failure_def remove_handler_def close_file_def Let_def split: option.splits)

lemma debug_write_inv: "debug_inv s \<Longrightarrow> debug_inv (debug_write ok t s)"
proof -
  assume s: "debug_inv s"
  have "debug_inv (s\<lparr>lines := ls\<rparr>)" for ls using s by (simp add: debug_inv_def split: option.splits)
  then show ?thesis using s disable_on_failure_inv by (simp add: debug_write_cases split: list.splits)
qed

lemma enable_inv: "debug_inv s \<Longrightarrow> handler s = None \<Longrightarrow> debug_inv (fst (enable opens ok s))"
proof -
  assume s: "debug_inv s" "handler s = None"
  then have "debug_inv (s\<lparr>next_file := next_file s + 1, open_files := next_file s # open_files s,
      attached := attached s @ [next_file s], handler := Some (next_file s), notice := None\<rparr>)"
    by (simp add: debug_inv_def)
  from debug_write_inv [OF this] s(1) show ?thesis by (simp add: enable_def Let_def)
qed

lemma disable_inv: "debug_inv s \<Longrightarrow> debug_inv (fst (disable ok closes s))"
  using debug_write_inv [of s ok "''=== Debug log stopped ===''"]
  by (auto simp: disable_def Let_def debug_inv_def remove_handler_def close_file_def split: option.splits)

lemma configure_inv: "debug_inv s \<Longrightarrow> debug_inv (configure s)"
  by (simp add: configure_def debug_inv_def split: option.splits)

lemma debug_step_inv: "debug_inv s \<Longrightarrow> debug_inv (debug_step a s)"
proof (cases a)
  case (Shutdown ok)
  assume "debug_inv s"
  then show ?thesis using debug_write_inv [of s ok "''=== Debug log closed (server shutdown) ===''"]
    by (auto simp: Shutdown close_on_shutdown_def Let_def debug_inv_def remove_handler_def close_file_def split: option.splits)
next
  case (Toggle en opens ok closes)
  assume "debug_inv s"
  then show ?thesis using enable_inv [of s opens ok] disable_inv [of s ok closes]
    by (auto simp: Toggle toggle_debug_def debug_enabled_def split: prod.splits option.splits)
qed (auto simp: library_warning_def intro: debug_write_inv configure_inv)

lemma closed_on_shutdown:
  assumes "debug_inv s"
  shows "handler (close_on_shutdown ok s) = None" "attached (close_on_shutdown ok s) = []"
    "open_files (close_on_shutdown ok s) = []"
proof -
  have "debug_inv (debug_step (Shutdown ok) s)" using assms by (rule debug_step_inv)
  moreover show "handler (close_on_shutdown ok s) = None"
    by (auto simp: close_on_shutdown_def Let_def remove_handler_def close_file_def split: option.splits)
  ultimately show "attached (close_on_shutdown ok s) = []" "open_files (close_on_shutdown ok s) = []"
    by (simp_all add: debug_inv_def)
qed

lemma debug_run_inv: "debug_inv (debug_run ops)"
proof -
  have "debug_inv s \<Longrightarrow> debug_inv (fold debug_step ops s)" for s
    by (induction ops arbitrary: s) (simp_all add: debug_step_inv)
  then show ?thesis by (simp add: debug_run_def debug_inv_new)
qed

text \<open>
  C36. The debug log in every state the program can reach, whatever opening, writing and closing
  do: at most one handler is attached and only its file is open; a line that can be written goes to
  the attached file and changes nothing else; one that cannot turns the log off, closes the file,
  keeps the reason for later tabs and warns once; an answer that the log is off after it was
  switched off is true; and after a shutdown no file is open.
\<close>

theorem debug_log_exact:
  assumes s: "s = debug_run ops"
  shows "(attached s = [] \<or> (\<exists>f. handler s = Some f \<and> attached s = [f])) \<and> open_files s = attached s
    \<and> debug_write True t s = s\<lparr>lines := lines s @ map (\<lambda>f. (f, t)) (attached s)\<rparr>
    \<and> (attached s \<noteq> [] \<longrightarrow> debug_write False t s = s\<lparr>handler := None, attached := [], open_files := [],
         notice := Some write_failure, warnings := warnings s + 1,
         pushed := pushed s @ (if loop_running s then [write_failure] else [])\<rparr>)
    \<and> (\<forall>s'. toggle_debug False opens ok closes s = (s', Says_Off) \<longrightarrow>
         handler s' = None \<and> attached s' = [] \<and> open_files s' = [])
    \<and> handler (close_on_shutdown ok s) = None \<and> attached (close_on_shutdown ok s) = []
    \<and> open_files (close_on_shutdown ok s) = []"
proof -
  have i: "debug_inv s" unfolding s by (rule debug_run_inv)
  have one: "(attached s = [] \<or> (\<exists>f. handler s = Some f \<and> attached s = [f])) \<and> open_files s = attached s"
    using i by (auto simp: debug_inv_def split: option.splits)
  have good: "debug_write True t s = s\<lparr>lines := lines s @ map (\<lambda>f. (f, t)) (attached s)\<rparr>"
    using one by (auto simp: debug_write_cases [OF i])
  have bad: "debug_write False t s = s\<lparr>handler := None, attached := [], open_files := [],
         notice := Some write_failure, warnings := warnings s + 1,
         pushed := pushed s @ (if loop_running s then [write_failure] else [])\<rparr>" if "attached s \<noteq> []" for t
    using one that by (auto simp: debug_write_cases [OF i] disable_on_failure_def remove_handler_def close_file_def Let_def)
  have off: "handler s' = None \<and> attached s' = [] \<and> open_files s' = []"
    if "toggle_debug False opens ok closes s = (s', Says_Off)" for s'
  proof -
    have "debug_inv (debug_step (Toggle False opens ok closes) s)" using i by (rule debug_step_inv)
    moreover have "handler s' = None" using that
      by (auto simp: toggle_debug_def debug_enabled_def disable_def Let_def split: option.splits prod.splits if_splits)
    ultimately show ?thesis using that by (simp add: debug_inv_def)
  qed
  show ?thesis using one good bad off closed_on_shutdown [OF i] by simp
qed

lemma debug_log_exact_witness:
  "debug_run [Configure, Toggle True True True True] = debug_run [Configure, Toggle True True True True]
   \<and> pushed (debug_write False ''line'' (debug_run [Configure, Toggle True True True True])) = [write_failure]
   \<and> handler (debug_write False ''line'' (debug_run [Configure, Toggle True True True True])) = None"
proof -
  have a: "attached (debug_run [Configure, Toggle True True True True]) = [0]"
    "pushed (debug_run [Configure, Toggle True True True True]) = []"
    "loop_running (debug_run [Configure, Toggle True True True True])"
    by (simp_all add: debug_run_def debug_ops new_debug_def Let_def)
  show ?thesis
    using debug_log_exact [OF refl, of "[Configure, Toggle True True True True]" "''line''"] a by simp
qed

section \<open>Answers that are not true\<close>

text \<open>Switching off while the last line cannot be written ends in a server error.\<close>

lemma stop_line_fails: "attached s \<noteq> [] \<Longrightarrow> debug_inv s \<Longrightarrow> snd (toggle_debug False opens False closes s) = Server_Failure"
  by (auto simp: toggle_debug_def debug_enabled_def disable_def debug_write_cases disable_on_failure_def remove_handler_def
      close_file_def debug_inv_def Let_def split: option.splits list.splits)

text \<open>Switching on reports success although the first line failed and the log is off.\<close>

lemma enabled_but_off:
  "(case toggle_debug True True False True new_debug of (s, r) \<Rightarrow> handler s = None \<and> r = Log_Enabled 0)"
  by (simp add: debug_ops new_debug_def Let_def)

text \<open>Switching on a log that is on answers that it is off.\<close>

lemma on_twice_says_off: "handler s \<noteq> None \<Longrightarrow> toggle_debug True opens ok closes s = (s, Says_Off)"
  by (simp add: toggle_debug_def debug_enabled_def)

text \<open>A close that raises leaves the log switched on without a file: later lines go nowhere.\<close>

lemma close_failure_keeps_enabled:
  "debug_inv s \<Longrightarrow> attached s \<noteq> [] \<Longrightarrow> fst (toggle_debug False opens True False s) = s' \<Longrightarrow> debug_enabled s' \<and> attached s' = []"
  by (auto simp: toggle_debug_def debug_enabled_def disable_def debug_write_cases remove_handler_def close_file_def
      debug_inv_def Let_def split: option.splits list.splits)

end
