(* ===== verification/Ws_Dispatch.thy ===== *)
theory Ws_Dispatch
  imports Message_Routing Ws_Presence Terminal_Control Metrics_Poll Debug_Log
begin

text \<open>
  The contents of what the WebSocket endpoint sends, and what it calls for every received message
  (\<open>ws_endpoint\<close> of \<open>main.py\<close>): the first frame with the state of the page, the redraws it asks for, the
  cached metrics, and the dispatch to the WebSocket manager and the SSH manager. Connecting, leaving,
  the grace period and the revalidation of the session are in \<open>Ws_Endpoint\<close> and \<open>Site\<close>.

  The state is the endpoint's and the SSH manager's; the event loop runs a handler without
  interruption from one received message to the next. A frame's length is a parameter.
\<close>

section \<open>The first frame\<close>

definition APP_VERSION :: pystr where
  "APP_VERSION = lit ''1.8.4''"

record first_frame =
  i_devices :: "jdict list"
  i_version :: pystr
  i_connected :: "string list"
  i_running :: "string list"
  i_terminals :: "terminal list"
  i_locked :: "string list"
  i_debug :: bool
  i_debug_failed :: "string option"
  i_storage_warning :: bool
  i_recovery_mode :: bool
  i_retry_available :: bool
  i_recovered_notice :: bool

datatype wire =
    First first_frame
  | Metrics json "(string \<times> shown) list"
  | Term_Control json json bool int
  | Term_Input_Full json json

definition wire_frame :: "(wire \<Rightarrow> nat) \<Rightarrow> wire \<Rightarrow> wire frame" where
  "wire_frame size_of b = frame_of size_of False b"

text \<open>\<open>m\<close> is the SSH manager when the page's own lists are read, \<open>m'\<close> after the snapshot.\<close>

definition first_frame_of ::
  "string \<Rightarrow> manager \<Rightarrow> manager \<Rightarrow> terminal list \<Rightarrow> runtime \<Rightarrow> debug_state \<Rightarrow> first_frame" where
  "first_frame_of own m m' ts rt dbg =
     \<lparr>i_devices = devices_cache rt, i_version = APP_VERSION,
      i_connected = fst (owner_ssh_snapshot own m), i_running = snd (owner_ssh_snapshot own m),
      i_terminals = ts, i_locked = locked_device_ids m',
      i_debug = debug_enabled dbg, i_debug_failed = notice dbg,
      i_storage_warning = storage_warning rt, i_recovery_mode = recovery_mode rt,
      i_retry_available = recovery_backup rt \<noteq> None, i_recovered_notice = recovered_notice rt\<rparr>"

definition redraw_fullscreen :: "string \<Rightarrow> terminal list \<Rightarrow> manager \<Rightarrow> manager" where
  "redraw_fullscreen own ts m =
     fold (\<lambda>t m. if sn_fullscreen t then fst (request_terminal_redraw (t_device t) (t_run t) own m) else m) ts m"

definition cached_metrics :: "(json, poll_result) dict \<Rightarrow> wire list" where
  "cached_metrics cache = map (\<lambda>(did, r). Metrics did (public_part r)) cache"

text \<open>From the accepted connection to the loop.\<close>

definition greet ::
  "(wire \<Rightarrow> nat) \<Rightarrow> runtime \<Rightarrow> debug_state \<Rightarrow> (json, poll_result) dict \<Rightarrow> rat \<Rightarrow> nat \<Rightarrow> string \<Rightarrow> string
     \<Rightarrow> wire app \<times> manager \<Rightarrow> wire app \<times> manager" where
  "greet size_of rt dbg cache t ws own sid s =
     (let (a, m) = s;
          (m', ts) = owner_terminal_snapshot own t m;
          a = serve ws own sid (wire_frame size_of (First (first_frame_of own m m' ts rt dbg))) a
      in (a\<lparr>app.mgr := fold (\<lambda>b. send_to ws (wire_frame size_of b)) (cached_metrics cache) (app.mgr a)\<rparr>,
          redraw_fullscreen own ts m'))"

section \<open>Received messages\<close>

definition socket_id :: "nat \<Rightarrow> 'd ws_mgr \<Rightarrow> string option" where
  "socket_id ws w = dict_get (socket_ids w) ws"

text \<open>The loop that tells every socket of the owner who types now.\<close>

definition tell_control ::
  "(wire \<Rightarrow> nat) \<Rightarrow> nat \<Rightarrow> string \<Rightarrow> json \<Rightarrow> json \<Rightarrow> int \<Rightarrow> wire ws_mgr \<Rightarrow> wire ws_mgr" where
  "tell_control size_of ws own did run rv w =
     fold (\<lambda>(target, sid) w.
         send_to target (wire_frame size_of (Term_Control did run (Some sid = socket_id ws w) rv)) w)
       (owner_sockets own w) w"

text \<open>
  One message, \<open>raw\<close> as in \<open>inbound_of\<close>. None: an exception leaves the loop; the states are as
  before, and the \<open>finally\<close> block runs (\<open>leave\<close>). A device id that is a list or an object has no lock:
  the lookup of the lock raises. \<open>t\<close> and \<open>t'\<close> are readings of the clock.
\<close>

definition dispatch ::
  "(wire \<Rightarrow> nat) \<Rightarrow> rat \<Rightarrow> rat \<Rightarrow> nat \<Rightarrow> string \<Rightarrow> json option
     \<Rightarrow> wire app \<times> manager \<Rightarrow> (wire app \<times> manager) option" where
  "dispatch size_of t t' ws own raw s =
     (let (a, m) = s; w = app.mgr a
      in case inbound_of raw of
           Ignored \<Rightarrow> Some (a, m)
         | inbound.Raises \<Rightarrow> None
         | Select_Device v \<Rightarrow> Some (a\<lparr>app.mgr := set_selected_device ws v w\<rparr>, m)
         | Stay_Connected \<Rightarrow> Some (a, stay_connected own t t' m)
         | Term_Claim did run \<Rightarrow>
             if \<not> hashable did then None
             else (case claim_terminal did run own (socket_id ws w) m of
                 (m', None) \<Rightarrow> Some (a, m')
               | (m', Some rv) \<Rightarrow> Some (a\<lparr>app.mgr := tell_control size_of ws own did run rv w\<rparr>, m'))
         | Term_Input did run rv data \<Rightarrow>
             if \<not> hashable did then None
             else (case terminal_input did run rv data own (socket_id ws w) t m of
                 (m', InputRaises) \<Rightarrow> None
               | (m', InputFull) \<Rightarrow>
                   Some (a\<lparr>app.mgr := send_to ws (wire_frame size_of (Term_Input_Full did run)) w\<rparr>, m')
               | (m', r) \<Rightarrow> Some (a, m'))
         | Term_Resize did run rv cols rows \<Rightarrow>
             if \<not> hashable did then None
             else Some (a, fst (terminal_resize did run rv cols rows own (socket_id ws w) m))
         | Term_Ack did run seq \<Rightarrow>
             (case seq of
                JInt n \<Rightarrow> if \<not> hashable did then None else Some (a, terminal_ack did run seq own t m)
              | _ \<Rightarrow> Some (a, m)))"

section \<open>Who is told\<close>

definition ids_distinct :: "'d ws_mgr \<Rightarrow> bool" where
  "ids_distinct w \<longleftrightarrow> distinct (map snd (socket_ids w))"

lemma ids_distinctD:
  "ids_distinct w \<Longrightarrow> socket_id j w = Some sid \<Longrightarrow> socket_id k w = Some sid \<Longrightarrow> j = k"
  unfolding ids_distinct_def socket_id_def distinct_map inj_on_def by (metis map_of_SomeD prod.inject snd_conv)

lemma fst_owner_sockets:
  assumes "consistent w"
  shows "map fst (owner_sockets own w) = filter (\<lambda>k. dict_get (owners w) k = Some own) (connections w)"
proof -
  have "map fst (concat (map (\<lambda>ws. case (dict_get (owners w) ws, dict_get (socket_ids w) ws) of
         (Some o1, Some sid) \<Rightarrow> if o1 = own then [(ws, sid)] else [] | _ \<Rightarrow> []) cs))
      = filter (\<lambda>k. dict_get (owners w) k = Some own) cs" if "set cs \<subseteq> set (connections w)" for cs
    using that
  proof (induction cs)
    case (Cons c cs)
    then have "dict_get (socket_ids w) c \<noteq> None" using assms by (auto simp: consistent_def)
    then show ?case using Cons by (auto split: option.splits)
  qed simp
  then show ?thesis by (simp add: owner_sockets_def)
qed

lemma owner_sockets_id: "(k, sid) \<in> set (owner_sockets own w) \<Longrightarrow> socket_id k w = Some sid"
  by (auto simp: owner_sockets_def socket_id_def split: option.splits if_splits)

lemma send_to_ids: "k \<noteq> ws \<Longrightarrow> socket_id ws (send_to k f w) = socket_id ws w"
  by (auto simp: socket_id_def ws_defs dict_simps split: option.splits)

lemma send_to_id_or: "socket_id ws (send_to k f w) \<in> {socket_id ws w, None}"
  by (auto simp: socket_id_def ws_defs dict_simps split: option.splits)

text \<open>A socket that its own message overflows has no id any more; the others are told the same.\<close>

lemma tell_control_each:
  assumes "distinct (map fst xs)" "\<And>k sid. (k, sid) \<in> set xs \<Longrightarrow> (Some sid = i) = (k = ws)"
    and "socket_id ws w = i \<or> ws \<notin> fst ` set xs \<and> socket_id ws w = None"
  shows "fold (\<lambda>(target, sid) w. send_to target (wire_frame size_of (Term_Control did run (Some sid = socket_id ws w) rv)) w) xs w
    = fold (\<lambda>k. send_to k (wire_frame size_of (Term_Control did run (k = ws) rv))) (map fst xs) w"
  using assms
proof (induction xs arbitrary: w)
  case (Cons x xs)
  obtain k sid where x: "x = (k, sid)" by force
  have "(Some sid = socket_id ws w) = (k = ws)" using Cons.prems(2) [of k sid] Cons.prems(3) x by auto
  moreover have "socket_id ws (send_to k f w) = i \<or> ws \<notin> fst ` set xs \<and> socket_id ws (send_to k f w) = None" for f
    using Cons.prems(1,3) send_to_id_or [of ws k f w] send_to_ids [of k ws f w] x by (cases "k = ws") auto
  ultimately show ?case
    using Cons.IH [of "send_to k (wire_frame size_of (Term_Control did run (k = ws) rv)) w"] Cons.prems(1,2) x by auto
qed simp

lemma send_each_view:
  "distinct ks \<Longrightarrow> view j (fold (\<lambda>k. send_to k (f k)) ks w) = (if j \<in> set ks then Option.bind (view j w)
     (\<lambda>(s, own). map_option (\<lambda>s. (s, own)) (recv (f j) s)) else view j w)"
  by (induction ks arbitrary: w) (auto simp: send_to_def enqueue_view)

lemma tell_control_view:
  assumes c: "consistent w" and ids: "ids_distinct w"
  shows "view k (tell_control size_of ws own did run rv w) =
    (case view k w of
       Some (x, Some o1) \<Rightarrow>
         if o1 = own
         then map_option (\<lambda>x. (x, Some o1)) (recv (wire_frame size_of (Term_Control did run (k = ws) rv)) x)
         else Some (x, Some o1)
     | v \<Rightarrow> v)"
proof -
  note os = fst_owner_sockets [OF c, of own]
  have d: "distinct (map fst (owner_sockets own w))" unfolding os using c by (simp add: consistent_def)
  have "(Some sid = socket_id ws w) = (j = ws)" if "(j, sid) \<in> set (owner_sockets own w)" for j sid
    using owner_sockets_id [OF that] ids_distinctD [OF ids] by metis
  then have told: "tell_control size_of ws own did run rv w
      = fold (\<lambda>k. send_to k (wire_frame size_of (Term_Control did run (k = ws) rv))) (map fst (owner_sockets own w)) w"
    unfolding tell_control_def by (intro tell_control_each [where i = "socket_id ws w"] d) auto
  have "k \<in> set (map fst (owner_sockets own w)) \<longleftrightarrow> dict_get (owners w) k = Some own"
    unfolding os using c by (auto simp: consistent_def)
  then show ?thesis
    unfolding told send_each_view [OF d] using view_owner [of k w] by (cases "view k w") (auto split: option.splits)
qed


definition three_sockets :: "wire app_op list" where
  "three_sockets =
     [Serve 1 ''alice'' ''s1'' (wire_frame (\<lambda>b. 7) (Metrics JNull [])),
      Serve 2 ''alice'' ''s2'' (wire_frame (\<lambda>b. 7) (Metrics JNull [])),
      Serve 3 ''bob'' ''s3'' (wire_frame (\<lambda>b. 7) (Metrics JNull []))]"

definition claim_message :: "json option" where
  "claim_message = Some (JObj [(lit ''type'', js ''term_claim''), (lit ''device_id'', js ''d1''), (lit ''run_id'', js ''r1'')])"


section \<open>What a page load gets\<close>

text \<open>The snapshot, device by device: acknowledging changes nothing it reads.\<close>

definition terminals_at :: "string \<Rightarrow> manager \<Rightarrow> string \<times> nat \<Rightarrow> terminal list" where
  "terminals_at own m = (\<lambda>(did, r). let s = store m r in
     case s_history s of
       None \<Rightarrow> []
     | Some h \<Rightarrow> if s_owner s \<noteq> own \<or> s_state s \<noteq> Connected \<or> \<not> s_busy s then [] else [terminal_of did s h])"

lemma terminals_at_acked: "terminals_at own (edit r (ack_all now) m) = terminals_at own m"
  by (auto simp: terminals_at_def fun_eq_iff ack_all_def terminal_of_def edit_def Let_def split: option.splits)

lemma snapshot_device_at:
  "snapshot_device own now x (m, ts) = (m', ts') \<Longrightarrow>
     ts' = ts @ terminals_at own m x \<and> terminals_at own m' = terminals_at own m"
  by (auto simp: snapshot_device_def terminals_at_acked Let_def split: option.splits prod.splits if_splits)
    (auto simp: terminals_at_def Let_def)

lemma snapshot_fold:
  "fold (snapshot_device own now) xs (m, ts) = (m', ts') \<Longrightarrow> ts' = ts @ concat (map (terminals_at own m) xs)"
proof (induction xs arbitrary: m ts)
  case (Cons x xs)
  obtain m1 ts1 where x: "snapshot_device own now x (m, ts) = (m1, ts1)" by force
  show ?case using Cons.IH [of m1 ts1] Cons.prems snapshot_device_at [OF x] x by simp
qed simp

lemma snapshot_terminals:
  "snd (owner_terminal_snapshot own now m)
     = trim_to_budget (concat (map (terminals_at own m) (sessions m))) TERM_INIT_HISTORY_MAX_CHARS"
  using snapshot_fold [of own now "sessions m" m "[]"]
  by (simp add: owner_terminal_snapshot_def split_beta) (metis append_Nil prod.collapse)

definition shown_of :: "terminal \<Rightarrow> string \<times> string option \<times> pystr \<times> int" where
  "shown_of t = (t_device t, t_run t, sn_partial t, sn_seq t)"

lemma trimmed_fields:
  "map shown_of (trim_to_budget ts n) = map shown_of ts"
  by (simp add: shown_of_def trim_to_budget_def trim_one_def Let_def)

definition shown_run :: "string \<Rightarrow> manager \<Rightarrow> string \<times> string option \<times> pystr \<times> int \<Rightarrow> bool" where
  "shown_run own m = (\<lambda>(did, run, partial, seq). \<exists>r h. current m did = Some r \<and> s_owner (store m r) = own
     \<and> s_state (store m r) = Connected \<and> s_busy (store m r) \<and> s_history (store m r) = Some h
     \<and> run = s_run_id (store m r) \<and> partial = th_line h \<and> seq = th_seq h)"

lemma shown_of_terminal: "shown_of (terminal_of did s h) = (did, s_run_id s, th_line h, th_seq h)"
  by (simp add: shown_of_def terminal_of_def take_snapshot_def snapshot.defs terminal.defs)

lemma terminals_at_shown:
  "shown_of ` set (terminals_at own m (did, r)) = {x. \<exists>h. s_history (store m r) = Some h \<and> s_owner (store m r) = own
     \<and> s_state (store m r) = Connected \<and> s_busy (store m r) \<and> x = (did, s_run_id (store m r), th_line h, th_seq h)}"
  by (cases "s_history (store m r)") (simp_all add: terminals_at_def shown_of_terminal Let_def)

lemma snapshot_shown:
  assumes "wf_dict (sessions m)"
  shows "shown_of ` set (snd (owner_terminal_snapshot own now m)) = {x. shown_run own m x}"
proof -
  have entry: "(did, r) \<in> set (sessions m) \<longleftrightarrow> current m did = Some r" for did r
    using assms by (simp add: wf_dict_def)
  have "shown_of ` set (snd (owner_terminal_snapshot own now m))
      = shown_of ` set (concat (map (terminals_at own m) (sessions m)))"
    unfolding snapshot_terminals using arg_cong [OF trimmed_fields, of set] by simp
  also have "\<dots> = (\<Union>(did, r) \<in> set (sessions m). shown_of ` set (terminals_at own m (did, r)))"
    by (auto simp: image_iff)
  also have "\<dots> = {x. shown_run own m x}"
    unfolding terminals_at_shown shown_run_def by (auto simp: entry intro!: bexI [OF _ map_of_SomeD])
  finally show ?thesis .
qed

text \<open>A socket that gets some frames in a row keeps them all, unless together they are too much.\<close>

definition recv_all :: "'d frame list \<Rightarrow> 'd sock \<Rightarrow> 'd sock option" where
  "recv_all fs s = fold (\<lambda>f v. Option.bind v (recv f)) fs (Some s)"

lemma recv_all_None: "fold (\<lambda>f v. Option.bind v (recv f)) fs None = None"
  by (induction fs) simp_all

lemma recv_all_simps [simp]:
  "recv_all [] s = Some s" "recv_all (f # fs) s = Option.bind (recv f s) (recv_all fs)"
  by (auto simp: recv_all_def recv_all_None split: Option.bind_split)

lemma recv_all_queue:
  assumes "s_bytes s \<le> int SOCKET_QUEUE_MAX_BYTES"
  shows "case recv_all fs s of
      None \<Rightarrow> s_bytes s + int (sum_list (map f_size fs)) > int SOCKET_QUEUE_MAX_BYTES
    | Some s' \<Rightarrow> s_bytes s + int (sum_list (map f_size fs)) \<le> int SOCKET_QUEUE_MAX_BYTES \<and> s_queue s' = s_queue s @ fs
        \<and> s_done s' = s_done s \<and> s_sender s' = s_sender s"
  using assms
proof (induction fs arbitrary: s)
  case (Cons f fs)
  show ?case
  proof (cases "recv f s")
    case None
    then show ?thesis by (auto simp: recv_def split: if_splits)
  next
    case (Some s')
    then have "s_bytes s' = s_bytes s + int (f_size f)" "s_queue s' = s_queue s @ [f]" "s_bytes s' \<le> int SOCKET_QUEUE_MAX_BYTES"
      "s_done s' = s_done s" "s_sender s' = s_sender s"
      by (auto simp: recv_def put_frame_def Let_def split: if_splits)
    then show ?thesis using Cons.IH [of s'] Some by (auto split: option.splits)
  qed
qed simp

lemma send_same_view:
  "view j (fold (send_to k) fs w)
     = (if j = k then Option.bind (view k w) (\<lambda>(s, own). map_option (\<lambda>s. (s, own)) (recv_all fs s)) else view j w)"
proof (induction fs arbitrary: w)
  case (Cons f fs)
  have "view i (send_to k f w) = (if i = k then Option.bind (view k w) (\<lambda>(s, own). map_option (\<lambda>s. (s, own)) (recv f s)) else view i w)"
    for i by (simp add: send_to_def enqueue_view)
  then show ?case using Cons [of "send_to k f w"]
    by (auto split: Option.bind_split option.splits)
qed (auto split: Option.bind_split)

lemma connect_view:
  "own \<noteq> [] \<Longrightarrow> view j (ws_connect ws (Some own) sid w) = (if j = ws then Some (new_sock, Some own) else view j w)"
  by (cases own) (auto simp: view_connect, auto simp: view_def ws_connect_def dict_simps)

lemma send_init_view:
  "view j (send_init f ws w) = (if j = ws then Option.bind (view ws w)
     (\<lambda>(s, own). map_option (\<lambda>s. (s, own)) (recv_first f s)) else view j w)"
  by (auto simp: view_def ws_defs dict_simps recv_first_def split: option.splits)

definition page_frames :: "(wire \<Rightarrow> nat) \<Rightarrow> first_frame \<Rightarrow> (json, poll_result) dict \<Rightarrow> wire frame list" where
  "page_frames size_of ff cache = map (wire_frame size_of) (First ff # cached_metrics cache)"

lemma greeted_view:
  assumes "own \<noteq> []"
  shows "view j (fold (\<lambda>b. send_to ws (wire_frame size_of b)) (cached_metrics cache)
      (app.mgr (serve ws own sid (wire_frame size_of (First ff)) a)))
    = (if j = ws then Option.bind (recv_first (wire_frame size_of (First ff)) new_sock)
         (\<lambda>s. map_option (\<lambda>s. (s, Some own)) (recv_all (map (wire_frame size_of) (cached_metrics cache)) s))
       else view j (app.mgr a))"
proof -
  have f: "fold (\<lambda>b. send_to ws (wire_frame size_of b)) bs w = fold (send_to ws) (map (wire_frame size_of) bs) w"
    for bs and w :: "wire ws_mgr" by (simp add: fold_map comp_def)
  show ?thesis unfolding f send_same_view
    by (auto simp: serve_def Let_def note_event_def cancel_pending_release_def send_init_view connect_view [OF assms]
        split: Option.bind_split)
qed

lemma greeted_frames:
  assumes "own \<noteq> []"
  shows "case view ws (fold (\<lambda>b. send_to ws (wire_frame size_of b)) (cached_metrics cache)
      (app.mgr (serve ws own sid (wire_frame size_of (First ff)) a))) of
      None \<Rightarrow> sum_list (map f_size (page_frames size_of ff cache)) > SOCKET_QUEUE_MAX_BYTES
    | Some (x, o1) \<Rightarrow> sum_list (map f_size (page_frames size_of ff cache)) \<le> SOCKET_QUEUE_MAX_BYTES
        \<and> o1 = Some own \<and> stream x = page_frames size_of ff cache"
proof (cases "f_size (wire_frame size_of (First ff)) > SOCKET_QUEUE_MAX_BYTES")
  case True
  then show ?thesis unfolding greeted_view [OF assms] by (simp add: recv_first_def new_sock_def page_frames_def)
next
  case False
  let ?s = "put_first (wire_frame size_of (First ff)) new_sock"
  have s: "s_bytes ?s = int (f_size (wire_frame size_of (First ff)))" "s_queue ?s = [wire_frame size_of (First ff)]"
    "s_done ?s = []" "s_sender ?s = Waiting" by (simp_all add: put_first_def new_sock_def)
  have r: "recv_first (wire_frame size_of (First ff)) new_sock = Some ?s"
    using False by (simp add: recv_first_def new_sock_def)
  have "s_bytes ?s \<le> int SOCKET_QUEUE_MAX_BYTES" using s(1) False by simp
  from recv_all_queue [OF this, of "map (wire_frame size_of) (cached_metrics cache)"] show ?thesis
    unfolding greeted_view [OF assms] r
    by (auto simp: s page_frames_def stream_def sending_now_def comp_def split: option.splits)
qed

lemma lists_members:
  assumes "wf_dict (sessions m)"
  shows "did \<in> set (fst (owner_ssh_snapshot own m)) \<longleftrightarrow>
      (\<exists>r. current m did = Some r \<and> s_owner (store m r) = own \<and> s_state (store m r) = Connected)"
    "did \<in> set (snd (owner_ssh_snapshot own m)) \<longleftrightarrow>
      (\<exists>r. current m did = Some r \<and> s_owner (store m r) = own \<and> s_state (store m r) = Connected \<and> s_busy (store m r))"
    "did \<in> set (locked_device_ids m) \<longleftrightarrow> (\<exists>r. current m did = Some r \<and> s_state (store m r) = Connected)"
proof -
  have entry: "(did, r) \<in> set (sessions m) \<longleftrightarrow> current m did = Some r" for did r
    using assms by (simp add: wf_dict_def)
  show "did \<in> set (fst (owner_ssh_snapshot own m)) \<longleftrightarrow>
      (\<exists>r. current m did = Some r \<and> s_owner (store m r) = own \<and> s_state (store m r) = Connected)"
    "did \<in> set (snd (owner_ssh_snapshot own m)) \<longleftrightarrow>
      (\<exists>r. current m did = Some r \<and> s_owner (store m r) = own \<and> s_state (store m r) = Connected \<and> s_busy (store m r))"
    "did \<in> set (locked_device_ids m) \<longleftrightarrow> (\<exists>r. current m did = Some r \<and> s_state (store m r) = Connected)"
    by (force simp: owner_ssh_snapshot_def locked_device_ids_def Let_def entry image_iff)+
qed

text \<open>
  C25. What a page load gets. The first frame of a new socket lists exactly the devices on which its owner
  is connected, those of them with a running command, one terminal for each running command (its run, the
  unfinished line and the number of the last batch in it), and the devices anyone is connected to: no
  other owner's run or output is in it. It is followed by the cached metrics of every device and then
  by whatever is sent later; if all of this is more than the queue may hold the socket is closed
  instead, and the other sockets are not touched.
\<close>

theorem page_load_exact:
  assumes "ssh_reachable s" and own: "own \<noteq> []"
    and greet: "greet size_of rt dbg cache t ws own sid (a, ssh_sys.mgr s) = (a', m')"
  shows "\<exists>ff.
      (\<forall>did. did \<in> set (i_connected ff) \<longleftrightarrow> (\<exists>r. current (ssh_sys.mgr s) did = Some r
          \<and> s_owner (store (ssh_sys.mgr s) r) = own \<and> s_state (store (ssh_sys.mgr s) r) = Connected))
    \<and> (\<forall>did. did \<in> set (i_running ff) \<longleftrightarrow> (\<exists>r. current (ssh_sys.mgr s) did = Some r
          \<and> s_owner (store (ssh_sys.mgr s) r) = own \<and> s_state (store (ssh_sys.mgr s) r) = Connected
          \<and> s_busy (store (ssh_sys.mgr s) r)))
    \<and> (\<lambda>t. (t_device t, t_run t, sn_partial t, sn_seq t)) ` set (i_terminals ff)
        = {(did, run, partial, seq). \<exists>r h. current (ssh_sys.mgr s) did = Some r
            \<and> s_owner (store (ssh_sys.mgr s) r) = own \<and> s_state (store (ssh_sys.mgr s) r) = Connected
            \<and> s_busy (store (ssh_sys.mgr s) r) \<and> s_history (store (ssh_sys.mgr s) r) = Some h
            \<and> run = s_run_id (store (ssh_sys.mgr s) r) \<and> partial = th_line h \<and> seq = th_seq h}
    \<and> (\<forall>did. did \<in> set (i_locked ff) \<longleftrightarrow> (\<exists>r. current (ssh_sys.mgr s) did = Some r
          \<and> s_state (store (ssh_sys.mgr s) r) = Connected))
    \<and> i_devices ff = devices_cache rt \<and> i_recovery_mode ff = recovery_mode rt
    \<and> (case view ws (app.mgr a') of
         None \<Rightarrow> sum_list (map f_size (page_frames size_of ff cache)) > SOCKET_QUEUE_MAX_BYTES
       | Some (x, o1) \<Rightarrow> sum_list (map f_size (page_frames size_of ff cache)) \<le> SOCKET_QUEUE_MAX_BYTES
           \<and> o1 = Some own \<and> stream x = page_frames size_of ff cache)
    \<and> (\<forall>j. j \<noteq> ws \<longrightarrow> view j (app.mgr a') = view j (app.mgr a))"
proof -
  let ?m = "ssh_sys.mgr s"
  let ?m1 = "fst (owner_terminal_snapshot own t ?m)" and ?ts = "snd (owner_terminal_snapshot own t ?m)"
  let ?ff = "first_frame_of own ?m ?m1 ?ts rt dbg"
  have wf: "wf_dict (sessions ?m)" using ssh.reachable_inv [OF assms(1)] by (simp add: ssh_inv_def)
  have core: "same_core ?m ?m1" by (rule snapshot_core)
  then have wf1: "wf_dict (sessions ?m1)" using wf by (simp add: same_core_def)
  have a': "app.mgr a' = fold (\<lambda>b. send_to ws (wire_frame size_of b)) (cached_metrics cache)
      (app.mgr (serve ws own sid (wire_frame size_of (First ?ff)) a))"
    using greet by (auto simp: greet_def split_beta Let_def)
  have locked: "did \<in> set (locked_device_ids ?m1) \<longleftrightarrow>
      (\<exists>r. current ?m did = Some r \<and> s_state (store ?m r) = Connected)" for did
    using lists_members(3) [OF wf1] core by (simp add: same_core_def same_id_def)
  have terms: "(\<lambda>t. (t_device t, t_run t, sn_partial t, sn_seq t)) ` set ?ts = {x. shown_run own ?m x}"
    using snapshot_shown [OF wf, of own t] by (simp add: shown_of_def [abs_def])
  note frames = greeted_frames [OF own, of size_of ?ff cache ws sid a, folded a']
  have "view j (app.mgr a') = view j (app.mgr a)" if "j \<noteq> ws" for j
    unfolding a' greeted_view [OF own] using that by simp
  then show ?thesis
    by (intro exI [of _ ?ff] conjI frames)
      (simp_all add: first_frame_of_def lists_members [OF wf] locked terms shown_run_def case_prod_unfold)
qed

definition empty_runtime :: runtime where
  "empty_runtime = \<lparr>devices_cache = [], storage_warning = False, recovery_mode = False, recovered_notice = False,
     recovery_backup = None\<rparr>"

lemma alice_connected_state:
  "current (ssh_sys.mgr alice_connected) ''d1'' = Some 0" "s_state (store (ssh_sys.mgr alice_connected) 0) = Connected"
  by (simp_all add: alice_connected_def alice_connects_def trace_defs)

text \<open>Bob loads the page while Alice holds the device.\<close>

theorem page_load_exact_witness:
  "\<exists>ff x. ''d1'' \<in> set (i_locked ff) \<and> ''d1'' \<notin> set (i_connected ff)
    \<and> view 9 (app.mgr (fst (greet (\<lambda>b. 7) empty_runtime new_debug [] 5 9 ''bob'' ''s9'' (new_app, ssh_sys.mgr alice_connected))))
        = Some (x, Some ''bob'')
    \<and> stream x = [wire_frame (\<lambda>b. 7) (First ff)]"
proof -
  let ?g = "greet (\<lambda>b. 7) empty_runtime new_debug [] 5 9 ''bob'' ''s9'' (new_app, ssh_sys.mgr alice_connected)"
  have alice: "s_owner (store (ssh_sys.mgr alice_connected) 0) \<noteq> ''bob''"
    by (simp add: alice_connected_def alice_connects_def trace_defs)
  obtain ff where ff: "\<forall>did. did \<in> set (i_connected ff) \<longleftrightarrow> (\<exists>r. current (ssh_sys.mgr alice_connected) did = Some r
          \<and> s_owner (store (ssh_sys.mgr alice_connected) r) = ''bob'' \<and> s_state (store (ssh_sys.mgr alice_connected) r) = Connected)"
    "\<forall>did. did \<in> set (i_locked ff) \<longleftrightarrow> (\<exists>r. current (ssh_sys.mgr alice_connected) did = Some r
          \<and> s_state (store (ssh_sys.mgr alice_connected) r) = Connected)"
    "case view 9 (app.mgr (fst ?g)) of
         None \<Rightarrow> sum_list (map f_size (page_frames (\<lambda>b. 7) ff [])) > SOCKET_QUEUE_MAX_BYTES
       | Some (x, o1) \<Rightarrow> sum_list (map f_size (page_frames (\<lambda>b. 7) ff [])) \<le> SOCKET_QUEUE_MAX_BYTES
           \<and> o1 = Some ''bob'' \<and> stream x = page_frames (\<lambda>b. 7) ff []"
    using page_load_exact [OF alice_reachable(3), of "''bob''" "\<lambda>b. 7" empty_runtime new_debug "[]" 5 9 "''s9''" new_app
        "fst ?g" "snd ?g"] by auto
  have "page_frames (\<lambda>b. 7) ff [] = [wire_frame (\<lambda>b. 7) (First ff)]" "f_size (wire_frame (\<lambda>b. 7) (First ff)) = 7"
    by (simp_all add: page_frames_def cached_metrics_def wire_frame_def frame_of_def)
  then obtain x where "view 9 (app.mgr (fst ?g)) = Some (x, Some ''bob'')" "stream x = [wire_frame (\<lambda>b. 7) (First ff)]"
    using ff(3) by (auto simp: SOCKET_QUEUE_MAX_BYTES_def split: option.splits)
  moreover have "''d1'' \<notin> set (i_connected ff)" using ff(1) alice alice_connected_state by auto
  moreover have "''d1'' \<in> set (i_locked ff)" using ff(2) alice_connected_state by blast
  ultimately show ?thesis by blast
qed

end
