(* ===== verification/Session_Store.thy ===== *)
theory Session_Store
  imports Py_Text Private_File "HOL-Library.List_Lexorder"
begin

text \<open>
  Browser sessions: \<open>SessionStore\<close> of \<open>session_manager.py\<close>. The store is a private file with
  a record for the digest of each session token. Creating, validating and revoking each load
  the file, change the dictionary and publish it; every call runs under the store's lock, so
  calls happen one after the other. The digest (SHA-256 in hexadecimal) is a parameter.
\<close>

section \<open>Records and the file's contents\<close>

record login =
  l_generation :: pystr
  l_expires :: int

type_synonym logins = "(pystr, login) dict"

definition SESSION_ONLY_SECONDS :: int where
  "SESSION_ONLY_SECONDS = 24 * 60 * 60"

definition REMEMBERED_SECONDS :: int where
  "REMEMBERED_SECONDS = 30 * 24 * 60 * 60"

definition DIGEST_LENGTH :: nat where
  "DIGEST_LENGTH = 64"

text \<open>\<open>_validate_record\<close>: None raises. \<open>set(record)\<close> compares the keys as a set.\<close>

definition validate_record :: "json \<Rightarrow> login option" where
  "validate_record v =
     (case v of
        JObj d \<Rightarrow>
          if set (dict_keys d) \<noteq> {lit ''generation'', lit ''expires_at''} then None
          else (case (str_of (json_get d ''generation''), int_of (json_get d ''expires_at'')) of
              (Some g, Some e) \<Rightarrow> if g = [] \<or> e \<le> 0 then None else Some \<lparr>l_generation = g, l_expires = e\<rparr>
            | _ \<Rightarrow> None)
      | _ \<Rightarrow> None)"

definition digest_ok :: "pystr \<Rightarrow> bool" where
  "digest_ok d \<longleftrightarrow> length d = DIGEST_LENGTH \<and> py_int_hex d \<noteq> None"

fun validate_entries :: "(pystr, json) dict \<Rightarrow> logins option" where
  "validate_entries [] = Some []"
| "validate_entries ((k, v) # d) =
     (if \<not> digest_ok k then None
      else case validate_record v of
        None \<Rightarrow> None
      | Some r \<Rightarrow> map_option ((#) (k, r)) (validate_entries d))"

definition validate_session_state :: "json \<Rightarrow> logins option" where
  "validate_session_state v =
     (case v of
        JObj d \<Rightarrow>
          if set (dict_keys d) \<noteq> {lit ''version'', lit ''sessions''} then None
          else (case (json_get d ''version'', json_get d ''sessions'') of
              (Some n, Some (JObj ss)) \<Rightarrow> if eq_int 1 n then validate_entries ss else None
            | _ \<Rightarrow> None)
      | _ \<Rightarrow> None)"

text \<open>
  What \<open>json.dumps\<close> with \<open>sort_keys\<close> writes: the sessions in the order of their digests. Its
  argument is the state dictionary.
\<close>

definition record_json :: "login \<Rightarrow> json" where
  "record_json r = JObj [(lit ''expires_at'', JInt (l_expires r)), (lit ''generation'', JStr (l_generation r))]"

definition state_json :: "logins \<Rightarrow> json" where
  "state_json ss = JObj [(lit ''sessions'', JObj (map (\<lambda>(k, r). (k, record_json r)) (sort_key fst ss))),
     (lit ''version'', JInt 1)]"

section \<open>The store\<close>

datatype 'a outcome = Returns 'a | Fails | Gone

definition load_sessions :: "file_text place \<Rightarrow> logins option" where
  "load_sessions p =
     (case target p of
        NoFile \<Rightarrow> Some []
      | Damaged \<Rightarrow> None
      | Content (Json v) \<Rightarrow> validate_session_state v
      | Content _ \<Rightarrow> None)"

text \<open>\<open>_publish\<close>: validate first, then the staged write; the result says how it ended.\<close>

definition publish_sessions :: "fault \<Rightarrow> bool \<Rightarrow> logins \<Rightarrow> file_text place \<Rightarrow> file_text place \<times> write_end" where
  "publish_sessions f unl ss p =
     (case validate_session_state (state_json ss) of
        None \<Rightarrow> (p, Raised False)
      | Some _ \<Rightarrow> publish session_plan f unl (Json (state_json ss)) p)"

definition outcome_of :: "'a \<Rightarrow> write_end \<Rightarrow> 'a outcome" where
  "outcome_of x e = (case e of Written \<Rightarrow> Returns x | Raised _ \<Rightarrow> Fails | Stopped \<Rightarrow> Gone)"

text \<open>\<open>token.encode("ascii")\<close> raises for any other character.\<close>

definition token_digest :: "(pystr \<Rightarrow> pystr) \<Rightarrow> pystr \<Rightarrow> pystr option" where
  "token_digest sha t = (if list_all (\<lambda>c. c < 128) t then Some (sha t) else None)"

definition create ::
  "(pystr \<Rightarrow> pystr) \<Rightarrow> fault \<Rightarrow> bool \<Rightarrow> pystr \<Rightarrow> bool \<Rightarrow> pystr \<Rightarrow> rat \<Rightarrow> file_text place
     \<Rightarrow> file_text place \<times> (pystr \<times> int) outcome" where
  "create sha f unl gen remembered token now p =
     (let expires = int_of_float now + (if remembered then REMEMBERED_SECONDS else SESSION_ONLY_SECONDS)
      in case load_sessions p of
           None \<Rightarrow> (p, Fails)
         | Some ss \<Rightarrow>
             (case token_digest sha token of
                None \<Rightarrow> (p, Fails)
              | Some d \<Rightarrow>
                  (let (p', e) = publish_sessions f unl
                         (dict_set d \<lparr>l_generation = gen, l_expires = expires\<rparr> ss) p
                   in (p', outcome_of (token, expires) e))))"

definition stale :: "pystr \<Rightarrow> int \<Rightarrow> login \<Rightarrow> bool" where
  "stale gen now r \<longleftrightarrow> l_expires r \<le> now \<or> l_generation r \<noteq> gen"

definition validate ::
  "(pystr \<Rightarrow> pystr) \<Rightarrow> fault \<Rightarrow> bool \<Rightarrow> pystr option \<Rightarrow> pystr \<Rightarrow> rat \<Rightarrow> file_text place
     \<Rightarrow> file_text place \<times> bool outcome" where
  "validate sha f unl token gen now p =
     (case token of
        None \<Rightarrow> (p, Returns False)
      | Some [] \<Rightarrow> (p, Returns False)
      | Some t \<Rightarrow>
          (case load_sessions p of
             None \<Rightarrow> (p, Fails)
           | Some ss \<Rightarrow>
               (case token_digest sha t of
                  None \<Rightarrow> (p, Fails)
                | Some d \<Rightarrow>
                    (let record = dict_get ss d;
                         kept = filter (\<lambda>(k, r). \<not> stale gen (int_of_float now) r) ss;
                         valid = (record \<noteq> None \<and> dict_get kept d \<noteq> None)
                     in if length kept < length ss
                        then (let (p', e) = publish_sessions f unl kept p in (p', outcome_of valid e))
                        else (p, Returns valid)))))"

definition revoke ::
  "(pystr \<Rightarrow> pystr) \<Rightarrow> fault \<Rightarrow> bool \<Rightarrow> pystr option \<Rightarrow> file_text place \<Rightarrow> file_text place \<times> unit outcome" where
  "revoke sha f unl token p =
     (case token of
        None \<Rightarrow> (p, Returns ())
      | Some [] \<Rightarrow> (p, Returns ())
      | Some t \<Rightarrow>
          if target p = NoFile then (p, Returns ())
          else (case load_sessions p of
             None \<Rightarrow> (p, Fails)
           | Some ss \<Rightarrow>
               (case token_digest sha t of
                  None \<Rightarrow> (p, Fails)
                | Some d \<Rightarrow>
                    if dict_get ss d \<noteq> None
                    then (let (p', e) = publish_sessions f unl (dict_pop d ss) p in (p', outcome_of () e))
                    else (p, Returns ()))))"

section \<open>Login throttling\<close>

text \<open>
  \<open>LoginThrottle\<close>: failures and the time of the last one, for each client address. Each
  reading of the clock is an argument.
\<close>

type_synonym throttle = "(pystr, nat \<times> rat) dict"

definition throttle_current :: "rat \<Rightarrow> pystr \<Rightarrow> throttle \<Rightarrow> throttle \<times> (nat \<times> rat) option" where
  "throttle_current now addr th =
     (case dict_get th addr of
        None \<Rightarrow> (th, None)
      | Some (n, t) \<Rightarrow> if now - t \<ge> 15 * 60 then (dict_pop addr th, None) else (th, Some (n, t)))"

definition delay :: "nat \<Rightarrow> nat" where
  "delay n = min (5 * 2 ^ (n - 5)) 300"

definition retry_after :: "rat \<Rightarrow> rat \<Rightarrow> pystr \<Rightarrow> throttle \<Rightarrow> throttle \<times> int" where
  "retry_after now now' addr th =
     (case throttle_current now addr th of
        (th, None) \<Rightarrow> (th, 0)
      | (th, Some (n, t)) \<Rightarrow>
          (th, if n < 5 then 0 else max 0 \<lceil>of_nat (delay n) - (now' - t)\<rceil>))"

definition failure :: "rat \<Rightarrow> rat \<Rightarrow> rat \<Rightarrow> rat \<Rightarrow> pystr \<Rightarrow> throttle \<Rightarrow> throttle \<times> int" where
  "failure t1 t2 t3 t4 addr th =
     (let (th, item) = throttle_current t1 addr th;
          failures = (case item of None \<Rightarrow> 1 | Some (n, t) \<Rightarrow> n + 1)
      in retry_after t3 t4 addr (dict_set addr (failures, t2) th))"

definition success :: "pystr \<Rightarrow> throttle \<Rightarrow> throttle" where
  "success addr th = dict_pop addr th"

end
