(* ===== verification/Http_Guard.thy ===== *)
theory Http_Guard
  imports Session_Store Config
begin

text \<open>
  What stands before every route (\<open>main.py\<close>): the body-size middleware, which runs first, the
  session and CSRF middleware, and the check of a WebSocket request. A reply says which status was
  produced, or that the request reached its route and whether a CSRF cookie was added; the headers
  and the cookies themselves are in \<open>Response_Headers\<close>, the routes in \<open>Site\<close>, \<open>Login_Route\<close>,
  \<open>Device_Api\<close> and \<open>Ssh_Routes\<close>.
\<close>

record request =
  r_method :: string
  r_path :: pystr
  r_session :: "pystr option"
  r_csrf_cookie :: "pystr option"
  r_csrf_header :: "pystr option"
  r_content_length :: "pystr option"
  r_chunks :: "bytestr list"

datatype http_reply = Rejected nat | To_Login | Server_Error | Reached bool

definition PUBLIC_PATHS :: "pystr list" where
  "PUBLIC_PATHS = [lit ''/login'', lit ''/api/auth/login'', lit ''/api/auth/session'', lit ''/certificate-setup'',
     lit ''/certificate-setup/caddy-root-ca.crt'']"

definition UNSAFE_METHODS :: "string list" where
  "UNSAFE_METHODS = [''POST'', ''PUT'', ''PATCH'', ''DELETE'']"

definition LOGIN_PATH :: pystr where "LOGIN_PATH = lit ''/api/auth/login''"

definition starts_with :: "pystr \<Rightarrow> pystr \<Rightarrow> bool" where
  "starts_with p s \<longleftrightarrow> take (length p) s = p"

definition is_public_path :: "pystr \<Rightarrow> bool" where
  "is_public_path path \<longleftrightarrow> path \<in> set PUBLIC_PATHS \<or> starts_with (lit ''/static/'') path"

text \<open>\<open>hmac.compare_digest\<close> on two strings raises when one is not ASCII: None.\<close>

definition ascii :: "pystr \<Rightarrow> bool" where
  "ascii s \<longleftrightarrow> list_all (\<lambda>c. c < 128) s"

definition compare_digest :: "pystr \<Rightarrow> pystr \<Rightarrow> bool option" where
  "compare_digest a b = (if ascii a \<and> ascii b then Some (a = b) else None)"

definition csrf_is_valid :: "request \<Rightarrow> bool option" where
  "csrf_is_valid req =
     (case (r_csrf_cookie req, r_csrf_header req) of
        (Some (c # cs), Some (h # hs)) \<Rightarrow> compare_digest (c # cs) (h # hs)
      | _ \<Rightarrow> Some False)"

section \<open>The body\<close>

fun read_body :: "bytestr \<Rightarrow> bytestr list \<Rightarrow> bytestr option" where
  "read_body body [] = Some body"
| "read_body body (c # cs) =
     (if length (body @ c) > MAX_REQUEST_BODY_BYTES then None else read_body (body @ c) cs)"

definition limit_request_body_size :: "request \<Rightarrow> bytestr option" where
  "limit_request_body_size req =
     (case Option.bind (r_content_length req) py_int of
        Some n \<Rightarrow> if n > int MAX_REQUEST_BODY_BYTES then None else read_body [] (r_chunks req)
      | None \<Rightarrow> read_body [] (r_chunks req))"

section \<open>Sessions and CSRF\<close>

text \<open>
  \<open>_session_token_is_valid\<close>: every failure to read the password state (\<open>gen\<close> is None) or the
  session store counts as not signed in. Gone is a power loss while the store is written.
\<close>

definition session_token_is_valid ::
  "(pystr \<Rightarrow> pystr) \<Rightarrow> fault \<Rightarrow> bool \<Rightarrow> pystr option \<Rightarrow> pystr option \<Rightarrow> rat \<Rightarrow> file_text place
     \<Rightarrow> file_text place \<times> bool outcome" where
  "session_token_is_valid sha f unl gen token now p =
     (case gen of
        None \<Rightarrow> (p, Returns False)
      | Some g \<Rightarrow>
          (case validate sha f unl token g now p of
             (p', Fails) \<Rightarrow> (p', Returns False)
           | (p', out) \<Rightarrow> (p', out)))"

definition check_csrf :: "request \<Rightarrow> http_reply option" where
  "check_csrf req =
     (if r_method req \<in> set UNSAFE_METHODS
      then (case csrf_is_valid req of None \<Rightarrow> Some Server_Error | Some False \<Rightarrow> Some (Rejected 403) | Some True \<Rightarrow> None)
      else None)"

definition needs_csrf_cookie :: "request \<Rightarrow> bool" where
  "needs_csrf_cookie req \<longleftrightarrow> r_method req = ''GET'' \<and> (r_csrf_cookie req = None \<or> r_csrf_cookie req = Some [])
     \<and> (r_path req = lit ''/login'' \<or> \<not> is_public_path (r_path req))"

definition protect_http_requests ::
  "(pystr \<Rightarrow> pystr) \<Rightarrow> fault \<Rightarrow> bool \<Rightarrow> pystr option \<Rightarrow> rat \<Rightarrow> request \<Rightarrow> file_text place
     \<Rightarrow> file_text place \<times> http_reply outcome" where
  "protect_http_requests sha f unl gen now req p =
     (let reach = Returns (Reached (needs_csrf_cookie req));
          checked = (case check_csrf req of Some r \<Rightarrow> Returns r | None \<Rightarrow> reach)
      in if r_path req = LOGIN_PATH then (p, checked)
         else if \<not> is_public_path (r_path req)
         then (case session_token_is_valid sha f unl gen (r_session req) now p of
                 (p', Returns True) \<Rightarrow> (p', checked)
               | (p', Returns False) \<Rightarrow>
                   (p', Returns (if starts_with (lit ''/api/'') (r_path req) then Rejected 401 else To_Login))
               | (p', Fails) \<Rightarrow> (p', Fails)
               | (p', Gone) \<Rightarrow> (p', Gone))
         else (p, reach))"

text \<open>The two middlewares in the order they run.\<close>

definition http_guard ::
  "(pystr \<Rightarrow> pystr) \<Rightarrow> fault \<Rightarrow> bool \<Rightarrow> pystr option \<Rightarrow> rat \<Rightarrow> request \<Rightarrow> file_text place
     \<Rightarrow> file_text place \<times> http_reply outcome" where
  "http_guard sha f unl gen now req p =
     (case limit_request_body_size req of
        None \<Rightarrow> (p, Returns (Rejected 413))
      | Some body \<Rightarrow> protect_http_requests sha f unl gen now req p)"

section \<open>WebSocket requests\<close>

definition websocket_request_is_valid ::
  "(pystr \<Rightarrow> pystr) \<Rightarrow> fault \<Rightarrow> bool \<Rightarrow> pystr option \<Rightarrow> pystr option \<Rightarrow> pystr list \<Rightarrow> pystr option \<Rightarrow> rat
     \<Rightarrow> file_text place \<Rightarrow> file_text place \<times> bool outcome" where
  "websocket_request_is_valid sha f unl gen trusted origins token now p =
     (case (trusted, origins) of
        (Some (c # cs), [o1]) \<Rightarrow>
          if compare_digest o1 (c # cs) = Some True then session_token_is_valid sha f unl gen token now p
          else (p, Returns False)
      | _ \<Rightarrow> (p, Returns False))"

end
