(* ===== verification/Ssh_Routes.thy ===== *)
theory Ssh_Routes
  imports Ssh_Properties Device_Store Http_Guard
begin

text \<open>
  The SSH routes of \<open>main.py\<close>: which call of the session manager a request makes, and on whose behalf.
  The property is isolation: whatever a signed-in session asks for, and however the threads this
  starts interleave with everyone else's, the SSH sessions of other signed-in sessions stay as they are.

  The routes behind the guard have a session cookie; an \<open>Inl\<close> is a reply without a call. The routes
  for stored host keys work on the known-hosts file only and are not here.
\<close>

section \<open>The routes\<close>

text \<open>\<open>_session_owner\<close>: the hexadecimal digest of the token. None: a token that is not ASCII.\<close>

definition session_owner :: "(pystr \<Rightarrow> pystr) \<Rightarrow> pystr \<Rightarrow> string option" where
  "session_owner sha tok = map_option (map char_of) (token_digest sha tok)"

definition request_session_owner :: "(pystr \<Rightarrow> pystr) \<Rightarrow> request \<Rightarrow> string option" where
  "request_session_owner sha req = Option.bind (r_session req) (session_owner sha)"

text \<open>The parsed bodies; the types of their fields and no others are the models'.\<close>

datatype ssh_body =
    Connect_Body string pystr
  | Disconnect_Body string
  | Disconnect_All
  | Run_Body string pystr bool "pystr option" "string option" "int option" "int option"
  | Cancel_Body string string
  | Trust_Body string string
  | Reject_Body string string

fun ssh_body_ok :: "ssh_body \<Rightarrow> bool" where
  "ssh_body_ok (Run_Body did cmd sud lab cid cols rows) \<longleftrightarrow> length cmd \<le> MAX_COMMAND_LEN
     \<and> (case lab of None \<Rightarrow> True | Some l \<Rightarrow> length l \<le> MAX_NAME_LEN)"
| "ssh_body_ok _ \<longleftrightarrow> True"

datatype refusal = Invalid_Body | Device_Not_Found | Password_Required

text \<open>Devices in memory are normalised: host and username are strings.\<close>

definition text_field :: "jdict \<Rightarrow> string \<Rightarrow> pystr" where
  "text_field d k = (case json_get d k of Some (JStr s) \<Rightarrow> s | _ \<Rightarrow> [])"

definition device_of :: "jdict \<Rightarrow> device" where
  "device_of d = \<lparr>d_host = text_field d ''host'', d_username = text_field d ''username''\<rparr>"

definition find_device :: "string \<Rightarrow> jdict list \<Rightarrow> jdict option" where
  "find_device did devs = find (\<lambda>d. json_get d ''id'' = Some (js did)) devs"

text \<open>\<open>run\<close> is the fresh run id, \<open>t\<close> and \<open>t'\<close> are readings of the clock.\<close>

fun ssh_route :: "jdict list \<Rightarrow> string \<Rightarrow> rat \<Rightarrow> rat \<Rightarrow> string \<Rightarrow> ssh_body \<Rightarrow> refusal + call" where
  "ssh_route devs run t t' own (Connect_Body did pw) =
     (case find_device did devs of
        None \<Rightarrow> Inl Device_Not_Found
      | Some d \<Rightarrow> if pw = [] then Inl Password_Required else Inr (CallConnect did pw (device_of d) own t))"
| "ssh_route devs run t t' own (Disconnect_Body did) = Inr (CallDisconnect did (Some own) ''user disconnected'')"
| "ssh_route devs run t t' own Disconnect_All = Inr (CallRelease own ''user disconnected'')"
| "ssh_route devs run t t' own (Run_Body did cmd sud lab cid cols rows) =
     (if ssh_body_ok (Run_Body did cmd sud lab cid cols rows)
      then Inr (CallRun run t t' did (Some cmd) sud lab (Some own) cid cols rows) else Inl Invalid_Body)"
| "ssh_route devs run t t' own (Cancel_Body did rid) = Inr (CallCancel did (Some rid) (Some own))"
| "ssh_route devs run t t' own (Trust_Body did code) = Inr (CallTrust did (Some code) own t)"
| "ssh_route devs run t t' own (Reject_Body did code) = Inr (CallReject did (Some code) own t)"

text \<open>
  The calls the WebSocket endpoint makes for its owner: for a page load, for every message, and at the end
  of the grace period or of the session.
\<close>

fun endpoint_call :: "string \<Rightarrow> call \<Rightarrow> bool" where
  "endpoint_call own (CallSnapshot o1 t) \<longleftrightarrow> o1 = own"
| "endpoint_call own (CallRedraw did run o1) \<longleftrightarrow> o1 = own"
| "endpoint_call own (CallStay o1 t t') \<longleftrightarrow> o1 = own"
| "endpoint_call own (CallClaim did run o1 socket) \<longleftrightarrow> o1 = own"
| "endpoint_call own (CallTermInput did run rv data o1 socket t) \<longleftrightarrow> o1 = own"
| "endpoint_call own (CallTermResize did run rv cols rows o1 socket) \<longleftrightarrow> o1 = own"
| "endpoint_call own (CallAck did run seq o1 t) \<longleftrightarrow> o1 = own"
| "endpoint_call own (CallRelease o1 reason) \<longleftrightarrow> o1 = own"
| "endpoint_call own c \<longleftrightarrow> False"

section \<open>On whose behalf\<close>

definition owns :: "string \<Rightarrow> manager \<Rightarrow> nat \<Rightarrow> bool" where
  "owns own m r \<longleftrightarrow> r < next_ref m \<and> s_owner (store m r) = own"

fun works_for :: "string \<Rightarrow> manager \<Rightarrow> act \<Rightarrow> bool" where
  "works_for own m (NetConnect did r o1 replaced) \<longleftrightarrow> owns own m r \<and> o1 = own"
| "works_for own m (CloseSession r) \<longleftrightarrow> owns own m r"
| "works_for own m (StatusConnected r) \<longleftrightarrow> owns own m r"
| "works_for own m (SaveKey did r p) \<longleftrightarrow> owns own m r"
| "works_for own m (CloseSlot did sess reason) \<longleftrightarrow> (\<exists>r. sess = Some r \<and> owns own m r)"
| "works_for own m (ForceStop did r run ch) \<longleftrightarrow> owns own m r"
| "works_for own m (SweepDevice t did) \<longleftrightarrow> False"
| "works_for own m (TickOwners t) \<longleftrightarrow> False"
| "works_for own m (TickOwner t o1) \<longleftrightarrow> False"
| "works_for own m ClearActivity \<longleftrightarrow> False"
| "works_for own m (OwnerTouch o1) \<longleftrightarrow> o1 = own"
| "works_for own m (OwnerReset o1) \<longleftrightarrow> o1 = own"
| "works_for own m (OwnerPop o1) \<longleftrightarrow> o1 = own"
| "works_for own m a \<longleftrightarrow> (case worker_ref a of None \<Rightarrow> True | Some r \<Rightarrow> owns own m r)"

text \<open>
  Everything a session of another owner is: the record, the slot it holds, its owner's idle clock; and
  new slots are \<open>own\<close>'s.
\<close>

definition others_kept :: "string \<Rightarrow> manager \<Rightarrow> manager \<Rightarrow> bool" where
  "others_kept own m m' \<longleftrightarrow>
     (\<forall>r < next_ref m. s_owner (store m r) \<noteq> own \<longrightarrow> store m' r = store m r)
   \<and> (\<forall>did r. current m did = Some r \<and> s_owner (store m r) \<noteq> own \<longrightarrow> current m' did = Some r)
   \<and> (\<forall>did r. current m' did = Some r \<longrightarrow> current m did = Some r \<or> s_owner (store m' r) = own)
   \<and> (\<forall>o1. o1 \<noteq> own \<longrightarrow> dict_get (activity m') o1 = dict_get (activity m) o1)"

lemma others_kept_refl [simp]: "others_kept own m m"
  by (simp add: others_kept_def)

lemma owns_move: "slots_move m m' \<Longrightarrow> owns own m r \<Longrightarrow> owns own m' r"
  by (auto simp: owns_def slots_move_def)

lemma works_for_move: "slots_move m m' \<Longrightarrow> works_for own m a \<Longrightarrow> works_for own m' a"
  by (cases a) (auto intro: owns_move)

lemma others_kept_edit: "s_owner (store m r) = own \<Longrightarrow> others_kept own m (edit r f m)"
  by (auto simp: others_kept_def)

lemma others_kept_same:
  "sessions m' = sessions m \<Longrightarrow> store m' = store m \<Longrightarrow> activity m' = activity m \<Longrightarrow> others_kept own m m'"
  by (simp add: others_kept_def)

lemma others_kept_local: "local_change r did m m' \<Longrightarrow> owns own m r \<Longrightarrow> others_kept own m m'"
  by (auto simp: others_kept_def local_change_def owns_def)

lemma others_kept_msgs [simp]:
  "others_kept own m (push_msg b o1 gen m)" "others_kept own m (log_msg d t l o1 c g m)"
  "others_kept own m (status_msg d st o1 g re m)" "others_kept own m (lock_msg d k g m)"
  "others_kept own m (clear_pending d m)"
  by (simp_all add: others_kept_def clear_pending_def)

lemma others_kept_clock [simp]:
  "others_kept own m (owner_touch own t m)" "others_kept own m (owner_reset own t m)" "others_kept own m (owner_pop own m)"
  by (simp_all add: others_kept_def owner_touch_def owner_reset_def owner_pop_def dict_simps split: option.splits)

text \<open>Loops over own sessions.\<close>

definition edits_own :: "string \<Rightarrow> manager \<Rightarrow> manager \<Rightarrow> bool" where
  "edits_own own m m' \<longleftrightarrow> sessions m' = sessions m \<and> activity m' = activity m
     \<and> (\<forall>q. s_owner (store m' q) = s_owner (store m q)) \<and> (\<forall>q. s_owner (store m q) \<noteq> own \<longrightarrow> store m' q = store m q)"

lemma edits_own_refl [simp]: "edits_own own m m"
  by (simp add: edits_own_def)

lemma edits_own_trans: "edits_own own m m1 \<Longrightarrow> edits_own own m1 m2 \<Longrightarrow> edits_own own m m2"
  by (simp add: edits_own_def)

lemma edits_own_edit: "s_owner (store m r) = own \<Longrightarrow> s_owner (f (store m r)) = own \<Longrightarrow> edits_own own m (edit r f m)"
  by (auto simp: edits_own_def)

lemma edits_own_kept: "edits_own own m m' \<Longrightarrow> others_kept own m m'"
  by (simp add: edits_own_def others_kept_def)

lemma edits_own_foldl: "(\<And>m x. edits_own own m (g m x)) \<Longrightarrow> edits_own own m (foldl g m xs)"
proof (induction xs arbitrary: m)
  case (Cons x xs)
  then show ?case using edits_own_trans [OF Cons.prems Cons.IH [OF Cons.prems]] by simp
qed simp

lemma stay_kept: "others_kept own m (stay_connected own t t' m)"
proof -
  have "edits_own own m (if s_owner (store m r) = own \<and> s_busy (store m r) then edit r (\<lambda>s. s\<lparr>s_last_io := t'\<rparr>) m else m)"
    for m r by (auto intro: edits_own_edit)
  then have "edits_own own (owner_reset own t m) (stay_connected own t t' m)"
    unfolding stay_connected_def by (intro edits_own_foldl) auto
  moreover have "store (owner_reset own t m) = store m" "sessions (owner_reset own t m) = sessions m"
    by (simp_all add: owner_reset_def split: option.splits)
  moreover have "others_kept own m (owner_reset own t m)" by simp
  ultimately show ?thesis by (simp add: edits_own_def others_kept_def)
qed

lemma snapshot_kept: "others_kept own m (fst (owner_terminal_snapshot own t m))"
proof -
  have "edits_own own (fst acc) (fst (snapshot_device own t x acc))" for x acc
    by (cases x; cases acc)
      (auto simp: snapshot_device_def ack_all_def Let_def split: option.splits intro!: edits_own_edit)
  then have "edits_own own (fst acc) (fst (fold (snapshot_device own t) xs acc))" for xs acc
  proof (induction xs arbitrary: acc)
    case (Cons x xs)
    then show ?case using edits_own_trans [OF Cons.prems Cons.IH [OF Cons.prems]] by simp
  qed simp
  from this [of "(m, [])" "sessions m"] show ?thesis
    by (intro edits_own_kept) (simp add: owner_terminal_snapshot_def split_beta)
qed

section \<open>Calls\<close>

definition only_own :: "string \<Rightarrow> manager \<Rightarrow> manager \<times> act list \<Rightarrow> bool" where
  "only_own own m out \<longleftrightarrow> others_kept own m (fst out) \<and> (\<forall>a \<in> set (snd out). works_for own (fst out) a)"

lemma connect_own:
  assumes inv: "ssh_inv m A" and out: "connect did pw dev own t m = (m', reply, new)"
  shows "only_own own m (m', new)"
proof (cases "current m did")
  case None
  have "r < next_ref m" if "current m d = Some r" for d r using inv_currentD(1) [OF inv that] .
  then show ?thesis using out None
    by (auto simp: connect_def reserve_def new_session_def only_own_def others_kept_def owns_def dict_simps
        split: if_splits)
next
  case (Some r)
  note d = inv_currentD [OF inv Some]
  have live: "live (store m r)" using d(3) by (cases "s_state (store m r)") (auto simp: live_def)
  have "r < next_ref m" if "current m d = Some r" for d r using inv_currentD(1) [OF inv that] .
  then show ?thesis using out Some live less_SucI [OF d(1)]
    by (auto simp: connect_def reserve_def new_session_def retire_def only_own_def others_kept_def owns_def edit_def
        dict_simps split: if_splits)
qed

lemma disconnect_own:
  assumes inv: "ssh_inv m A" and out: "disconnect did (Some own) reason m = (m', reply, new)"
  shows "only_own own m (m', new)"
proof (cases "current m did")
  case (Some r)
  note d = inv_currentD [OF inv Some]
  show ?thesis using out Some d(1)
    by (auto simp: disconnect_def drop_slot_def retire_def only_own_def others_kept_def owns_def edit_def dict_simps
        split: if_splits)
qed (use out in \<open>auto simp: disconnect_def only_own_def\<close>)

lemma release_own:
  assumes "ssh_inv m A" shows "only_own own m (m, release_owner own reason m)"
proof -
  have "r < next_ref m" if "(did, r) \<in> set (sessions m)" for did r
    using that assms inv_currentD(1) [OF assms, of did r] by (simp add: ssh_inv_def wf_dict_def)
  then show ?thesis by (auto simp: only_own_def release_owner_def owns_def)
qed

lemma valid_prompt_owner:
  "ssh_inv m A \<Longrightarrow> valid_prompt did code own t m = Some p \<Longrightarrow>
     \<exists>r. current m did = Some r \<and> owns own m r \<and> p_owner p = own"
proof -
  assume inv: "ssh_inv m A" and v: "valid_prompt did code own t m = Some p"
  obtain r where r: "dict_get (pending m) did = Some p" "current m did = Some r" "s_generation (store m r) = p_generation p"
    "p_owner p = own"
    using v by (auto simp: valid_prompt_def split: option.splits if_splits)
  have "prompt_ok m did p" using inv r(1) by (simp add: ssh_inv_def)
  then obtain q where q: "q < next_ref m" "p_generation p = Suc q" "s_owner (store m q) = own"
    using r(4) by (auto simp: prompt_ok_def)
  have "r < next_ref m" using inv_currentD(1) [OF inv r(2)] .
  then have "s_generation (store m r) = Suc r" using inv by (simp add: ssh_inv_def session_ok_def)
  then show ?thesis using r q by (auto simp: owns_def)
qed

lemma trust_own:
  "ssh_inv m A \<Longrightarrow> trust_host_key did code own t m = (m', reply, new) \<Longrightarrow> only_own own m (m', new)"
  using valid_prompt_owner [of m A did code own t]
  by (auto simp: trust_host_key_def only_own_def owns_def clear_pending_def split: option.splits)
    (auto simp: others_kept_def)

lemma reject_own:
  "ssh_inv m A \<Longrightarrow> reject_host_key did code own t m = (m', reply, new) \<Longrightarrow> only_own own m (m', new)"
  using valid_prompt_owner [of m A did code own t]
  by (auto simp: reject_host_key_def only_own_def owns_def clear_pending_def split: option.splits)
    (auto simp: others_kept_def)

lemma run_own:
  assumes inv: "ssh_inv m A" and out: "run_command run t t' did raw sud lab (Some own) cid cols rows m = (m', reply, new)"
  shows "only_own own m (m', new)"
proof (cases "current m did")
  case (Some r)
  have "r < next_ref m" using inv_currentD(1) [OF inv Some] .
  then show ?thesis using out Some
    by (auto simp: run_command_def only_own_def owns_def reserve_run_def Let_def
        intro!: others_kept_edit split: if_splits prod.splits option.splits)
qed (use out in \<open>auto simp: run_command_def only_own_def Let_def split: prod.splits option.splits\<close>)

lemma cancel_own:
  assumes inv: "ssh_inv m A" and out: "cancel did run (Some own) m = (m', reply, new, timer)"
  shows "only_own own m (m', new @ timer)"
proof (cases "current m did")
  case (Some r)
  have "r < next_ref m" using inv_currentD(1) [OF inv Some] .
  then show ?thesis using out Some
    by (auto simp: cancel_def only_own_def owns_def others_kept_def Let_def split: if_splits option.splits)
qed (use out in \<open>auto simp: cancel_def only_own_def\<close>)

lemma slot_of_current: "slot_of m did = Some r \<Longrightarrow> \<exists>d. (d, r) \<in> set (sessions m)"
  by (auto simp: slot_of_def find_Some_iff split: option.splits) (metis nth_mem)

lemma control_kept:
  "others_kept own m (fst (claim_terminal did run own socket m))"
  "others_kept own m (fst (terminal_input did run rv data own socket t m))"
  "others_kept own m (fst (terminal_resize did run rv cols rows own socket m))"
  "others_kept own m (terminal_ack did run seq own t m)"
  "others_kept own m (fst (request_terminal_redraw dev rid own m))"
  by (auto simp: claim_terminal_def terminal_input_def terminal_resize_def terminal_ack_def
      request_terminal_redraw_def controls_def running_for_def Let_def
      split: option.splits json.splits prod.splits bool.splits intro!: others_kept_edit)

lemma call_own:
  assumes inv: "ssh_inv m A" and out: "start_call c m = (m', ts)"
    and c: "ssh_route devs run t t' own b = Inr c \<or> endpoint_call own c"
  shows "only_own own m (m', concat ts)"
  using c
proof
  assume "ssh_route devs run t t' own b = Inr c"
  then show ?thesis
  proof (cases b)
    case (Connect_Body did pw)
    then obtain d where "c = CallConnect did pw d own t"
      using \<open>ssh_route devs run t t' own b = Inr c\<close> by (auto split: option.splits if_splits)
    then show ?thesis using out connect_own [OF inv] by (auto split: prod.splits)
  next
    case (Disconnect_Body did)
    then show ?thesis using \<open>ssh_route devs run t t' own b = Inr c\<close> out disconnect_own [OF inv] by (auto split: prod.splits)
  next
    case Disconnect_All
    then show ?thesis using \<open>ssh_route devs run t t' own b = Inr c\<close> out release_own [OF inv] by auto
  next
    case (Run_Body did cmd sud lab cid cols rows)
    then have "c = CallRun run t t' did (Some cmd) sud lab (Some own) cid cols rows"
      using \<open>ssh_route devs run t t' own b = Inr c\<close> by (auto split: if_splits)
    then show ?thesis using out run_own [OF inv] by (auto split: prod.splits)
  next
    case (Cancel_Body did rid)
    then show ?thesis using \<open>ssh_route devs run t t' own b = Inr c\<close> out cancel_own [OF inv] by (auto split: prod.splits)
  next
    case (Trust_Body did code)
    then show ?thesis using \<open>ssh_route devs run t t' own b = Inr c\<close> out trust_own [OF inv] by (auto split: prod.splits)
  next
    case (Reject_Body did code)
    then show ?thesis using \<open>ssh_route devs run t t' own b = Inr c\<close> out reject_own [OF inv] by (auto split: prod.splits)
  qed
next
  assume "endpoint_call own c"
  then show ?thesis using out release_own [OF inv]
    by (cases c) (auto simp: only_own_def control_kept stay_kept snapshot_kept)
qed

section \<open>Threads\<close>

lemma worker_works_for: "worker_ref b = Some r \<Longrightarrow> works_for own m b \<longleftrightarrow> owns own m r"
  by (cases b) auto

lemma works_for_plain:
  "works_for own m (Log d x l o1 c g)" "works_for own m (Status d st o1 g re)" "works_for own m (Lock d k g)"
  "works_for own m (ClearPending d)"
  by simp_all

lemma connect_finish_own:
  assumes inv: "ssh_inv m (add_mset (NetConnect did r own rep) A)" and o: "owns own m r"
    and out: "connect_finish oc code t did r own rep m = (m', reply, new)"
  shows "only_own own m (m', new)"
proof -
  have "r < next_ref m" "s_owner (store m r) = own" using o by (simp_all add: owns_def)
  then show ?thesis using out
    by (auto simp: connect_finish_def raise_prompt_def connect_failed_def drop_slot_def only_own_def others_kept_def owns_def
        is_current_def dict_simps Let_def split: net_outcome.splits if_splits)
qed

lemma close_slot_own:
  assumes o: "owns own m r" and out: "close_slot did (Some r) reason m = (m', new)"
  shows "only_own own m (m', new)"
  using assms by (auto simp: close_slot_def drop_slot_def retire_def only_own_def others_kept_def owns_def dict_simps
      split: option.splits if_splits)

lemma act_own:
  assumes inv: "ssh_inv m (add_mset a A)" and w: "works_for own m a" and out: "perform e a m = (m', new)"
  shows "only_own own m (m', new)"
proof (cases "\<exists>r x. worker_ref a = Some r \<and> worker_args a = Some x")
  case True
  then obtain r x where b: "worker_ref a = Some r" "worker_args a = Some x" by blast
  note c = worker_continues [OF b, where e = e and m = m, unfolded out continues_def fst_conv snd_conv]
  have o: "owns own m r" using w worker_works_for [OF b(1)] by simp
  moreover have "owns own m' r" using o c by (simp add: owns_def local_change_def same_id_def)
  ultimately show ?thesis using c others_kept_local worker_works_for by (auto simp: only_own_def)
next
  case False
  show ?thesis
  proof (cases a)
    case (NetConnect did r o1 rep)
    then show ?thesis using connect_finish_own inv w out by (auto split: prod.splits)
  next
    case (CloseSlot did sess reason)
    then show ?thesis using close_slot_own w out by auto
  next
    case (FinishExec r)
    then show ?thesis using w out
      by (auto simp: finish_exec_def only_own_def others_kept_def owns_def Let_def split: if_splits)
  next
    case (StatusConnected r)
    then show ?thesis using w out by (auto simp: only_own_def status_connected_def)
  next
    case (SaveKey did r p)
    then show ?thesis using w out by (auto simp: only_own_def trust_finish_def split: save_outcome.splits)
  next
    case (ForceStop did r run ch)
    then show ?thesis using w out by (auto simp: only_own_def force_stop_def owns_def intro!: others_kept_edit)
  next
    case (CloseSession r)
    then show ?thesis using w out by (auto simp: only_own_def owns_def intro!: others_kept_edit)
  qed (use False w out in \<open>auto simp: only_own_def release_prompts_def\<close>)
qed

definition threads_for :: "string \<Rightarrow> nat set \<Rightarrow> ssh_sys \<Rightarrow> bool" where
  "threads_for own I s \<longleftrightarrow>
     (\<forall>i \<in> I. i < length (threads s) \<and> (\<forall>a \<in> set (threads s ! i). works_for own (ssh_sys.mgr s) a))"

lemma threads_for_step:
  assumes inv: "ssh_inv (ssh_sys.mgr s) (acts s)" and "ssh_step s u" and own: "threads_for own I s"
  shows "threads_for own I u"
proof -
  note move = move_step [OF inv assms(2)]
  from assms(2) show ?thesis
  proof (rule ssh_stepE)
    fix c m' ts
    assume u: "u = \<lparr>ssh_sys.mgr = m', threads = threads s @ ts\<rparr>"
    then have "threads u ! i = threads s ! i \<and> i < length (threads u)" if "i \<in> I" for i
      using own that by (auto simp: threads_for_def nth_append)
    then show ?thesis using own works_for_move [OF move] by (auto simp: threads_for_def)
  next
    fix j a rest e m' new
    assume u: "u = \<lparr>ssh_sys.mgr = m', threads = (threads s)[j := new @ rest]\<rparr>" "j < length (threads s)"
      "threads s ! j = a # rest" and p: "perform e a (ssh_sys.mgr s) = (m', new)"
    have "a \<in># acts s"
      using u(2,3) unfolding acts_def by (metis in_set_conv_nth list.set_intros(1) set_concat set_mset_mset UN_I)
    then obtain A where A: "acts s = add_mset a A" by (metis insert_DiffM)
    have "works_for own m' b" if "i \<in> I" "b \<in> set (threads u ! i)" for i b
    proof (cases "b \<in> set (threads s ! i)")
      case True
      then show ?thesis using own that(1) works_for_move [OF move] u(1) by (auto simp: threads_for_def)
    next
      case False
      then have "i = j" "b \<in> set new" using that u by (auto simp: nth_list_update split: if_splits)
      then have "works_for own (ssh_sys.mgr s) a" using own that(1) u(3) by (auto simp: threads_for_def)
      then show ?thesis
        using act_own [OF inv [unfolded A] _ p] \<open>b \<in> set new\<close> by (simp add: only_own_def)
    qed
    then show ?thesis using own u(1) by (auto simp: threads_for_def)
  qed
qed

lemma threads_for_steps:
  assumes "ssh_reachable s" "ssh_step\<^sup>*\<^sup>* s u" "threads_for own I s"
  shows "threads_for own I u"
  using assms(2)
proof (induction rule: rtranclp_induct)
  case (step t u)
  have "ssh_reachable t" using ssh.reachable_steps [OF assms(1) step(1)] .
  then show ?case using threads_for_step [OF ssh.reachable_inv step(2,3)] by simp
qed (rule assms(3))


text \<open>Bob connects to another device while Alice's command starts; his thread then connects.\<close>

definition bobs_device :: "jdict list" where
  "bobs_device = [[(lit ''id'', js ''d2''), (lit ''host'', JStr (lit ''h2'')), (lit ''username'', JStr (lit ''u''))]]"


end
