(* ===== verification/Host_Keys.thy ===== *)
theory Host_Keys
  imports Ssh_Connect Private_File
begin

text \<open>
  Approved host keys: \<open>host_keys.py\<close> and the parts of \<open>ssh_manager.py\<close> that read and change the
  known-hosts file (\<open>get_host_key\<close>, the file part of \<open>trust_host_key\<close>, \<open>forget_host_key\<close>). The table of keys
  and its text are paramiko's: a record of parameters with the laws of its documentation as a named
  hypothesis. SHA-256 is a parameter.

  A key is its name and its bytes. The file is a \<open>place\<close> of \<open>Private_File\<close>; a reader meets a missing file, one it
  cannot read, or a text.
\<close>

section \<open>The table of keys\<close>

record ('t, 'h) hosts_lib =
  hl_empty :: 'h
  hl_load :: "'t \<Rightarrow> 'h option"
  hl_dump :: "'h \<Rightarrow> 't"
  hl_lookup :: "'h \<Rightarrow> pystr \<Rightarrow> (pystr \<times> hostkey) list option"
  hl_del :: "pystr \<Rightarrow> 'h \<Rightarrow> 'h option"
  hl_add :: "pystr \<Rightarrow> pystr \<Rightarrow> hostkey \<Rightarrow> 'h \<Rightarrow> 'h"

text \<open>
  Names that a line of the file can carry: letters, digits and the signs of host names, addresses
  and bracketed ports.
\<close>

definition plain_host :: "pystr \<Rightarrow> bool" where
  "plain_host h \<longleftrightarrow> h \<noteq> [] \<and> list_all (\<lambda>c. 45 \<le> c \<and> c \<le> 58 \<or> 65 \<le> c \<and> c \<le> 90 \<or> 97 \<le> c \<and> c \<le> 122
     \<or> c = 91 \<or> c = 93 \<or> c = 95) h"

inductive_set tables :: "('t, 'h) hosts_lib \<Rightarrow> 'h set" for lib where
  table_empty: "hl_empty lib \<in> tables lib"
| table_load: "hl_load lib t = Some h \<Longrightarrow> h \<in> tables lib"
| table_del: "h \<in> tables lib \<Longrightarrow> hl_del lib host h = Some h' \<Longrightarrow> h' \<in> tables lib"
| table_add: "h \<in> tables lib \<Longrightarrow> plain_host host \<Longrightarrow> hl_add lib host kt k h \<in> tables lib"

text \<open>
  Adding a key makes it the host's only one of its type; a table that was built from a loaded one is
  loaded back from its text with the same keys.
\<close>

definition hosts_law :: "('t, 'h) hosts_lib \<Rightarrow> bool" where
  "hosts_law lib \<longleftrightarrow>
     (\<forall>host kt k h. plain_host host \<longrightarrow>
        (\<exists>es. hl_lookup lib (hl_add lib host kt k h) host = Some es \<and> (\<forall>k'. (kt, k') \<in> set es \<longleftrightarrow> k' = k)))
   \<and> (\<forall>h \<in> tables lib. \<exists>h'. hl_load lib (hl_dump lib h) = Some h'
        \<and> (\<forall>host. plain_host host \<longrightarrow> hl_lookup lib h' host = hl_lookup lib h host))"

section \<open>Fingerprints\<close>

definition b64_char :: "nat \<Rightarrow> nat" where
  "b64_char i =
     (if i < 26 then 65 + i else if i < 52 then 71 + i else if i < 62 then i - 4 else if i = 62 then 43 else 47)"

fun b64encode :: "bytestr \<Rightarrow> pystr" where
  "b64encode (a # b # c # xs) =
     b64_char (a div 4) # b64_char (a mod 4 * 16 + b div 16) # b64_char (b mod 16 * 4 + c div 64)
       # b64_char (c mod 64) # b64encode xs"
| "b64encode [a, b] = [b64_char (a div 4), b64_char (a mod 4 * 16 + b div 16), b64_char (b mod 16 * 4), 61]"
| "b64encode [a] = [b64_char (a div 4), b64_char (a mod 4 * 16), 61, 61]"
| "b64encode [] = []"

definition rstrip_char :: "nat \<Rightarrow> pystr \<Rightarrow> pystr" where
  "rstrip_char c s = rev (dropWhile (\<lambda>x. x = c) (rev s))"

definition fp :: "(bytestr \<Rightarrow> bytestr) \<Rightarrow> hostkey \<Rightarrow> pystr" where
  "fp sha256 k = lit ''SHA256:'' @ rstrip_char 61 (b64encode (sha256 (snd k)))"

section \<open>The file\<close>

text \<open>None: \<open>KnownHostsUnreadable\<close>.\<close>

definition load_known_hosts :: "('t, 'h) hosts_lib \<Rightarrow> 't place \<Rightarrow> 'h option" where
  "load_known_hosts lib p =
     (case target p of
        NoFile \<Rightarrow> Some (hl_empty lib)
      | Damaged \<Rightarrow> None
      | Content t \<Rightarrow> hl_load lib t)"

definition save_known_hosts :: "('t, 'h) hosts_lib \<Rightarrow> fault \<Rightarrow> bool \<Rightarrow> 'h \<Rightarrow> 't place \<Rightarrow> 't place \<times> write_end" where
  "save_known_hosts lib f unlinks h p = publish known_hosts_plan f unlinks (hl_dump lib h) p"

text \<open>A lookup that finds keys, in a condition.\<close>

definition known :: "('t, 'h) hosts_lib \<Rightarrow> 'h \<Rightarrow> pystr \<Rightarrow> bool" where
  "known lib h host \<longleftrightarrow> (case hl_lookup lib h host of None \<Rightarrow> False | Some es \<Rightarrow> es \<noteq> [])"

definition save_outcome_of :: "write_end \<Rightarrow> save_outcome option" where
  "save_outcome_of e = (case e of Written \<Rightarrow> Some Saved | Raised replaced \<Rightarrow> Some SaveFailed | Stopped \<Rightarrow> None)"

text \<open>The file part of \<open>trust_host_key\<close>; None is a power loss. A deletion can raise a KeyError.\<close>

definition approve ::
  "('t, 'h) hosts_lib \<Rightarrow> fault \<Rightarrow> bool \<Rightarrow> pystr \<Rightarrow> hostkey \<Rightarrow> 't place \<Rightarrow> 't place \<times> save_outcome option" where
  "approve lib f unlinks host k p =
     (case load_known_hosts lib p of
        None \<Rightarrow> (p, Some SaveUnreadable)
      | Some h \<Rightarrow>
          (case (if known lib h host then hl_del lib host h else Some h) of
             None \<Rightarrow> (p, Some SaveFailed)
           | Some h \<Rightarrow>
               (let (p, e) = save_known_hosts lib f unlinks (hl_add lib host (fst k) k h) p in (p, save_outcome_of e))))"

datatype key_reply =
    Keys_Unreadable
  | Not_Known pystr
  | Known_Keys pystr "(pystr \<times> pystr) list"

definition get_host_key :: "('t, 'h) hosts_lib \<Rightarrow> (bytestr \<Rightarrow> bytestr) \<Rightarrow> pystr \<Rightarrow> 't place \<Rightarrow> key_reply" where
  "get_host_key lib sha256 host p =
     (if host = [] then Not_Known host
      else case load_known_hosts lib p of
          None \<Rightarrow> Keys_Unreadable
        | Some h \<Rightarrow>
            (case hl_lookup lib h host of
               None \<Rightarrow> Not_Known host
             | Some es \<Rightarrow> if es = [] then Not_Known host else Known_Keys host (map (\<lambda>(kt, k). (kt, fp sha256 k)) es)))"

definition forget_host_key ::
  "('t, 'h) hosts_lib \<Rightarrow> fault \<Rightarrow> bool \<Rightarrow> pystr \<Rightarrow> 't place \<Rightarrow> 't place \<times> save_outcome option" where
  "forget_host_key lib f unlinks host p =
     (case load_known_hosts lib p of
        None \<Rightarrow> (p, Some SaveUnreadable)
      | Some h \<Rightarrow>
          if \<not> known lib h host then (p, Some Saved)
          else (case hl_del lib host h of
              None \<Rightarrow> (p, Some SaveFailed)
            | Some h \<Rightarrow> (let (p, e) = save_known_hosts lib f unlinks h p in (p, save_outcome_of e))))"

section \<open>What an approval leaves behind\<close>

lemma load_table: "load_known_hosts lib p = Some h \<Longrightarrow> h \<in> tables lib"
  by (auto simp: load_known_hosts_def intro: tables.intros split: disk_file.splits)

lemma dumped_loads:
  assumes "hosts_law lib" "h \<in> tables lib" "target p = Content (hl_dump lib h)"
  shows "\<exists>h'. load_known_hosts lib p = Some h' \<and> (\<forall>host. plain_host host \<longrightarrow> hl_lookup lib h' host = hl_lookup lib h host)"
  using assms by (simp add: hosts_law_def load_known_hosts_def)

lemma shown_member:
  "(kt, x) \<in> set (map (\<lambda>(kt, k). (kt, fp sha256 k)) es) \<longleftrightarrow> (\<exists>k'. (kt, k') \<in> set es \<and> x = fp sha256 k')"
  by (induction es) auto

lemma added_shown:
  assumes law: "hosts_law lib" and host: "plain_host host" and h: "h \<in> tables lib"
    and p: "target p = Content (hl_dump lib (hl_add lib host (fst k) k h))"
  shows "\<exists>es. get_host_key lib sha256 host p = Known_Keys host es \<and> (\<forall>x. (fst k, x) \<in> set es \<longleftrightarrow> x = fp sha256 k)"
proof -
  let ?h = "hl_add lib host (fst k) k h"
  obtain h' where h': "load_known_hosts lib p = Some h'" "hl_lookup lib h' host = hl_lookup lib ?h host"
    using dumped_loads [OF law table_add [OF h host] p] host by blast
  obtain es where es: "hl_lookup lib ?h host = Some es" "\<forall>k'. (fst k, k') \<in> set es \<longleftrightarrow> k' = k"
    using law host unfolding hosts_law_def by blast
  have "(fst k, k) \<in> set es" using es(2) by blast
  moreover have "host \<noteq> []" using host by (simp add: plain_host_def)
  ultimately have "get_host_key lib sha256 host p = Known_Keys host (map (\<lambda>(kt, k). (kt, fp sha256 k)) es)"
    using h' es(1) by (auto simp: get_host_key_def)
  moreover have "(fst k, x) \<in> set (map (\<lambda>(kt, k). (kt, fp sha256 k)) es) \<longleftrightarrow> x = fp sha256 k" for x
    unfolding shown_member by (simp add: es(2))
  ultimately show ?thesis by blast
qed

text \<open>
  C31. An approved key is what is trusted and shown from then on. When \<open>trust_host_key\<close> reports success,
  the known-hosts file lists for the host, under the key's type, exactly the fingerprint that the
  prompt showed. Whatever fails, and even if the power is lost in the middle, the file afterwards is the
  one before or one that lists this fingerprint; when it could not be read it is not touched; and a
  file that could be read still can.
\<close>

theorem approved_key_listed:
  assumes law: "hosts_law lib" and host: "plain_host host"
    and run: "approve lib f unlinks host k p = (p', out)"
  shows "(out = Some Saved \<longrightarrow>
      (\<exists>es. get_host_key lib sha256 host p' = Known_Keys host es \<and> (\<forall>x. (fst k, x) \<in> set es \<longleftrightarrow> x = fp sha256 k)))
    \<and> (target p' = target p \<or>
      (\<exists>es. get_host_key lib sha256 host p' = Known_Keys host es \<and> (\<forall>x. (fst k, x) \<in> set es \<longleftrightarrow> x = fp sha256 k)))
    \<and> (out = Some SaveUnreadable \<longrightarrow> p' = p)
    \<and> (load_known_hosts lib p \<noteq> None \<longrightarrow> load_known_hosts lib p' \<noteq> None)"
proof (cases "load_known_hosts lib p")
  case None
  then show ?thesis using run by (auto simp: approve_def)
next
  case (Some h)
  show ?thesis
  proof (cases "if known lib h host then hl_del lib host h else Some h")
    case None
    then show ?thesis using run Some by (auto simp: approve_def)
  next
    case (Some h1)
    have t: "h1 \<in> tables lib"
      using Some load_table [OF \<open>load_known_hosts lib p = Some h\<close>] by (auto intro: table_del split: if_splits)
    obtain e where e: "publish known_hosts_plan f unlinks (hl_dump lib (hl_add lib host (fst k) k h1)) p = (p', e)"
      "out = save_outcome_of e"
      using run Some \<open>load_known_hosts lib p = Some h\<close> by (auto simp: approve_def save_known_hosts_def split: prod.splits)
    have shown: "\<exists>es. get_host_key lib sha256 host p' = Known_Keys host es \<and> (\<forall>x. (fst k, x) \<in> set es \<longleftrightarrow> x = fp sha256 k)"
      "load_known_hosts lib p' \<noteq> None"
      if "target p' = Content (hl_dump lib (hl_add lib host (fst k) k h1))"
      using added_shown [OF law host t that] dumped_loads [OF law table_add [OF t host] that] by auto
    have kept: "load_known_hosts lib p' \<noteq> None" if "target p' = target p"
      using that \<open>load_known_hosts lib p = Some h\<close> by (simp add: load_known_hosts_def)
    have "out \<noteq> Some SaveUnreadable" using e(2) by (cases e) (simp_all add: save_outcome_of_def)
    moreover have "e = Written" if "out = Some Saved"
      using that e(2) by (cases e) (simp_all add: save_outcome_of_def)
    then have "target p' = Content (hl_dump lib (hl_add lib host (fst k) k h1))" if "out = Some Saved"
      using that known_hosts_file.write_ok e(1) by metis
    ultimately show ?thesis
      using known_hosts_file.old_or_new [OF e(1)] shown kept by metis
  qed
qed

text \<open>A table kept as a list, for which the laws hold.\<close>

definition list_hosts :: "((pystr \<times> pystr \<times> hostkey) list, (pystr \<times> pystr \<times> hostkey) list) hosts_lib" where
  "list_hosts = \<lparr>hl_empty = [], hl_load = Some, hl_dump = id,
     hl_lookup = (\<lambda>h host. let es = map snd (filter (\<lambda>(x, e). x = host) h) in if es = [] then None else Some es),
     hl_del = (\<lambda>host h. Some (filter (\<lambda>(x, e). x \<noteq> host) h)),
     hl_add = (\<lambda>host kt k h. filter (\<lambda>(x, t, e). \<not> (x = host \<and> t = kt)) h @ [(host, kt, k)])\<rparr>"

lemma list_hosts_law: "hosts_law list_hosts"
  by (auto simp: hosts_law_def list_hosts_def Let_def)

theorem approved_key_listed_witness:
  "\<exists>p' es. approve list_hosts NoFault True (lit ''nas'') (lit ''ssh-ed25519'', [1, 2])
       \<lparr>target = Content [(lit ''nas'', lit ''ssh-ed25519'', (lit ''ssh-ed25519'', [9]))], strays = 0\<rparr> = (p', Some Saved)
     \<and> get_host_key list_hosts id (lit ''nas'') p' = Known_Keys (lit ''nas'') es
     \<and> (\<forall>x. (lit ''ssh-ed25519'', x) \<in> set es \<longleftrightarrow> x = lit ''SHA256:AQI'')"
proof -
  let ?p = "\<lparr>target = Content [(lit ''nas'', lit ''ssh-ed25519'', (lit ''ssh-ed25519'', [9]))], strays = 0\<rparr>"
  let ?k = "(lit ''ssh-ed25519'', [1, 2])"
  have h: "plain_host (lit ''nas'')" by (simp add: plain_host_def)
  have "snd (approve list_hosts NoFault True (lit ''nas'') ?k ?p) = Some Saved"
    by (simp add: approve_def load_known_hosts_def list_hosts_def known_def save_known_hosts_def publish_def run_no_fault
        save_outcome_of_def Let_def)
  then obtain p' where p': "approve list_hosts NoFault True (lit ''nas'') ?k ?p = (p', Some Saved)"
    by (metis prod.collapse)
  have "fp id ?k = lit ''SHA256:AQI''" by (simp add: fp_def b64_char_def rstrip_char_def)
  then show ?thesis using approved_key_listed [OF list_hosts_law h p', of id] p' by auto
qed

end
