(* ===== verification/Ssh_Teardown.thy ===== *)
theory Ssh_Teardown
  imports Ssh_Properties
begin

text \<open>
  What the teardown calls achieve: releasing an owner, the idle timeout, the expiry of
  host-key prompts. The first part runs a thread's actions to the end with nothing in between
  and gives the calls' contracts; the second shows two interleavings in which the end of one
  teardown disturbs the session that came after it.
\<close>

section \<open>A thread that is not interrupted\<close>

inductive runs :: "env \<Rightarrow> act list \<Rightarrow> manager \<Rightarrow> manager \<Rightarrow> bool" for e where
  runs_nil: "runs e [] m m"
| runs_cons: "perform e a m = (m', new) \<Longrightarrow> runs e (new @ rest) m' m'' \<Longrightarrow> runs e (a # rest) m m''"

inductive_cases runs_consE: "runs e (a # rest) m m''"
inductive_cases runs_nilE: "runs e [] m m''"

lemma runs_act: "runs e (a # rest) m m'' \<longleftrightarrow> runs e (snd (perform e a m) @ rest) (fst (perform e a m)) m''"
  by (auto elim: runs_consE intro: runs_cons [of e a m] simp: prod_eq_iff)

lemma runs_end: "runs e [] m m'' \<longleftrightarrow> m'' = m"
  by (auto elim: runs_nilE intro: runs_nil)

lemmas runs_simps = runs_act runs_end

text \<open>The sessions \<open>xs\<close> are torn down: gone from the slots, closed and wiped, their prompts dropped.\<close>

definition torn :: "(string \<times> nat) list \<Rightarrow> manager \<Rightarrow> manager \<Rightarrow> bool" where
  "torn xs m m' \<longleftrightarrow>
     (\<forall>d. current m' d = (if d \<in> fst ` set xs then None else current m d))
   \<and> (\<forall>d. dict_get (pending m') d = (if d \<in> fst ` set xs then None else dict_get (pending m) d))
   \<and> (\<forall>q. store m' q = (if q \<in> snd ` set xs then close_session (retire (store m q)) else store m q))
   \<and> activity m' = activity m \<and> next_ref m' = next_ref m
   \<and> (wf_dict (pending m) \<longrightarrow> wf_dict (pending m'))"

lemma torn_nil [simp]: "torn [] m m"
  by (simp add: torn_def)

lemma torn_cons:
  assumes "torn [(d, r)] m m1" "torn xs m1 m2" "r \<notin> snd ` set xs"
  shows "torn ((d, r) # xs) m m2"
  using assms unfolding torn_def by (auto split: if_splits)

text \<open>Closing one slot to the end, in front of any further actions.\<close>

lemma runs_close_slot:
  assumes cur: "current m d = Some r"
  shows "runs e (CloseSlot d (Some r) reason # rest) m m'' \<Longrightarrow> \<exists>m'. torn [(d, r)] m m' \<and> runs e rest m' m''"
    and "(\<And>m'. torn [(d, r)] m m' \<Longrightarrow> \<exists>m''. runs e rest m' m'') \<Longrightarrow>
          \<exists>m''. runs e (CloseSlot d (Some r) reason # rest) m m''"
proof -
  let ?m = "edit r close_session (clear_pending d (edit r retire (drop_slot d m)))"
  let ?m' = "lock_msg d False None (status_msg d ''idle'' (Some (s_owner (store m r))) None reason
      (log_msg d disconnected_text ''muted'' (Some (s_owner (store m r))) None None ?m))"
  have unroll: "runs e (CloseSlot d (Some r) reason # rest) m m'' \<longleftrightarrow> runs e rest ?m' m''" for m''
    by (simp add: runs_act close_slot_def cur)
  have "torn [(d, r)] m ?m'"
    by (simp add: torn_def clear_pending_def drop_slot_def dict_simps)
  then show "runs e (CloseSlot d (Some r) reason # rest) m m'' \<Longrightarrow> \<exists>m'. torn [(d, r)] m m' \<and> runs e rest m' m''"
    and "(\<And>m'. torn [(d, r)] m m' \<Longrightarrow> \<exists>m''. runs e rest m' m'') \<Longrightarrow>
          \<exists>m''. runs e (CloseSlot d (Some r) reason # rest) m m''"
    unfolding unroll by blast+
qed

text \<open>Any list of slots to close, each close perhaps announced by a log line first.\<close>

definition announced :: "bool \<Rightarrow> string \<Rightarrow> string \<Rightarrow> string \<times> nat \<Rightarrow> act list" where
  "announced b own reason x =
     (if b then [Log (fst x) (lit ''Disconnected due to idle timeout.'') ''warn'' (Some own) None None] else [])
     @ [CloseSlot (fst x) (Some (snd x)) reason]"

definition closable :: "(string \<times> nat) list \<Rightarrow> manager \<Rightarrow> bool" where
  "closable xs m \<longleftrightarrow> (\<forall>(d, r) \<in> set xs. current m d = Some r) \<and> distinct (map fst xs) \<and> distinct (map snd xs)"

lemma closable_tl: "closable ((d, r) # xs) m \<Longrightarrow> torn [(d, r)] m m' \<Longrightarrow> closable xs m'"
proof -
  assume c: "closable ((d, r) # xs) m" and t: "torn [(d, r)] m m'"
  have "current m' d' = Some r'" if "(d', r') \<in> set xs" for d' r'
  proof -
    have "d' \<noteq> d" using c that by (auto simp: closable_def image_iff)
    then show ?thesis using c t that by (auto simp: closable_def torn_def)
  qed
  then show "closable xs m'" using c by (auto simp: closable_def)
qed

lemma runs_announced:
  "runs e (concat (map (announced b own reason) ((d, r) # xs)) @ rest) m m'' \<longleftrightarrow>
     runs e (CloseSlot d (Some r) reason # concat (map (announced b own reason) xs) @ rest)
       (if b then log_msg d (lit ''Disconnected due to idle timeout.'') ''warn'' (Some own) None None m else m) m''"
proof -
  have "runs e (Log d x l o1 c g # as) m m'' \<longleftrightarrow> runs e as (log_msg d x l o1 c g m) m''" for x l o1 c g as
    by (simp add: runs_act)
  then show ?thesis by (simp add: announced_def del: lit_simps)
qed

lemma runs_closes:
  assumes "closable xs m" and "runs e (concat (map (announced b own reason) xs) @ rest) m m''"
  shows "\<exists>m'. torn xs m m' \<and> runs e rest m' m''"
  using assms
proof (induction xs arbitrary: m)
  case Nil
  then show ?case by (intro exI [of _ m]) simp
next
  case (Cons x xs)
  obtain d r where x: "x = (d, r)" by force
  let ?m = "if b then log_msg d (lit ''Disconnected due to idle timeout.'') ''warn'' (Some own) None None m else m"
  have same: "current ?m = current m" "pending ?m = pending m" "store ?m = store m" "activity ?m = activity m"
    "next_ref ?m = next_ref m" by simp_all
  have "runs e (CloseSlot d (Some r) reason # concat (map (announced b own reason) xs) @ rest) ?m m''"
    using Cons.prems(2) unfolding x runs_announced .
  moreover have cur: "current ?m d = Some r" using Cons.prems(1) by (auto simp: closable_def x)
  ultimately obtain m1 where m1: "torn [(d, r)] ?m m1" "runs e (concat (map (announced b own reason) xs) @ rest) m1 m''"
    using runs_close_slot(1) by blast
  have t: "torn [(d, r)] m m1" using m1(1) same by (simp add: torn_def)
  then obtain m2 where m2: "torn xs m1 m2" "runs e rest m2 m''"
    using Cons.IH [OF closable_tl m1(2)] Cons.prems(1) x by blast
  have "torn (x # xs) m m2"
    unfolding x by (rule torn_cons [OF t m2(1)]) (use Cons.prems(1) in \<open>auto simp: closable_def x\<close>)
  then show ?case using m2(2) by blast
qed

lemma runs_closes_exists:
  assumes "closable xs m" and "\<And>m'. torn xs m m' \<Longrightarrow> \<exists>m''. runs e rest m' m''"
  shows "\<exists>m''. runs e (concat (map (announced b own reason) xs) @ rest) m m''"
  using assms
proof (induction xs arbitrary: m)
  case Nil
  then show ?case by simp
next
  case (Cons x xs)
  obtain d r where x: "x = (d, r)" by force
  let ?m = "if b then log_msg d (lit ''Disconnected due to idle timeout.'') ''warn'' (Some own) None None m else m"
  have same: "current ?m = current m" "pending ?m = pending m" "store ?m = store m" "activity ?m = activity m"
    "next_ref ?m = next_ref m" by simp_all
  have cur: "current ?m d = Some r" using Cons.prems(1) by (auto simp: closable_def x)
  have "\<exists>m''. runs e (CloseSlot d (Some r) reason # concat (map (announced b own reason) xs) @ rest) ?m m''"
  proof (rule runs_close_slot(2) [OF cur])
    fix m1 assume "torn [(d, r)] ?m m1"
    then have t: "torn [(d, r)] m m1" using same by (simp add: torn_def)
    show "\<exists>m''. runs e (concat (map (announced b own reason) xs) @ rest) m1 m''"
    proof (rule Cons.IH)
      show "closable xs m1" using closable_tl Cons.prems(1) t x by blast
      show "\<exists>m''. runs e rest m2 m''" if "torn xs m1 m2" for m2
      proof (rule Cons.prems(2))
        show "torn (x # xs) m m2"
          unfolding x by (rule torn_cons [OF t that]) (use Cons.prems(1) in \<open>auto simp: closable_def x\<close>)
      qed
    qed
  qed
  then show ?case unfolding x runs_announced .
qed

text \<open>All slots can be closed one after the other, and so can the owner's.\<close>

lemma closable_all:
  assumes inv: "ssh_inv m A" shows "closable (sessions m) m"
proof -
  have wf: "distinct (map fst (sessions m))" using inv by (simp add: ssh_inv_def wf_dict_def)
  have mem: "current m d = Some r \<longleftrightarrow> (d, r) \<in> set (sessions m)" for d r
    by (rule wf_dict_get_iff) (use wf in \<open>simp add: wf_dict_def\<close>)
  have "inj_on snd (set (sessions m))"
    using inv_slot_unique [OF inv] mem by (intro inj_onI) (metis prod.collapse)
  then have "distinct (map snd (sessions m))"
    using wf by (simp add: distinct_map)
  then show ?thesis using wf mem by (auto simp: closable_def)
qed

lemma closable_owned: "ssh_inv m A \<Longrightarrow> closable (owned own m) m"
  using closable_all [of m A] by (auto simp: closable_def owned_def distinct_map_filter)

lemma owned_iff:
  assumes inv: "ssh_inv m A"
  shows "d \<in> fst ` set (owned own m) \<longleftrightarrow> (\<exists>r. current m d = Some r \<and> s_owner (store m r) = own)"
    and "r \<in> snd ` set (owned own m) \<longleftrightarrow> (\<exists>d. current m d = Some r) \<and> s_owner (store m r) = own"
proof -
  have "current m d = Some r \<longleftrightarrow> (d, r) \<in> set (sessions m)" for d r
    by (rule wf_dict_get_iff) (use inv in \<open>simp add: ssh_inv_def\<close>)
  then show "d \<in> fst ` set (owned own m) \<longleftrightarrow> (\<exists>r. current m d = Some r \<and> s_owner (store m r) = own)"
    and "r \<in> snd ` set (owned own m) \<longleftrightarrow> (\<exists>d. current m d = Some r) \<and> s_owner (store m r) = own"
    by (force simp: owned_def)+
qed

section \<open>Releasing an owner\<close>

lemma release_owner_eq:
  "release_owner own reason m = concat (map (announced False own reason) (owned own m)) @ [ReleasePrompts own, OwnerPop own]"
  by (induction "sessions m") (auto simp: release_owner_def owned_def announced_def concat_map_singleton split_beta)

lemma runs_clears:
  "runs e (map (\<lambda>(did, p). ClearPending did) xs @ rest) m m'' \<longleftrightarrow>
     runs e rest (m\<lparr>pending := fold (\<lambda>(did, p). dict_pop did) xs (pending m)\<rparr>) m''"
proof (induction xs arbitrary: m)
  case (Cons x xs)
  then show ?case by (cases x) (simp add: runs_act clear_pending_def)
qed simp

lemma get_fold_pop:
  "dict_get (fold (\<lambda>(did, p). dict_pop did) xs ps) d = (if d \<in> fst ` set xs then None else dict_get ps d)"
  by (induction xs arbitrary: ps) (auto simp: dict_simps)

text \<open>
  What is left of a manager when an owner's sessions are gone: no slot of theirs, each of their
  sessions closed and wiped, every other slot and session as it was.
\<close>

definition without_owner :: "string \<Rightarrow> manager \<Rightarrow> manager \<Rightarrow> bool" where
  "without_owner own m m' \<longleftrightarrow>
     (\<forall>d. current m' d = (case current m d of None \<Rightarrow> None
        | Some r \<Rightarrow> if s_owner (store m r) = own then None else Some r))
   \<and> (\<forall>d r. current m d = Some r \<longrightarrow>
        (if s_owner (store m r) = own
         then s_state (store m' r) = Closed \<and> s_password (store m' r) = None \<and> \<not> s_client (store m' r)
         else store m' r = store m r))"

lemma torn_without_owner:
  assumes inv: "ssh_inv m A" and t: "torn (owned own m) m m1"
    and same: "sessions m' = sessions m1" "store m' = store m1"
  shows "without_owner own m m'"
proof -
  note mem = owned_iff [OF inv, of _ own]
  have "current m' d = (case current m d of None \<Rightarrow> None
      | Some r \<Rightarrow> if s_owner (store m r) = own then None else Some r)" for d
    using t mem(1) [of d] by (auto simp: same torn_def split: option.splits)
  moreover have "if s_owner (store m r) = own
      then s_state (store m' r) = Closed \<and> s_password (store m' r) = None \<and> \<not> s_client (store m' r)
      else store m' r = store m r" if "current m d = Some r" for d r
    using t that mem(2) [of r] by (auto simp: same torn_def)
  ultimately show ?thesis by (simp add: without_owner_def)
qed

definition forget_owner :: "string \<Rightarrow> manager \<Rightarrow> manager" where
  "forget_owner own m = owner_pop own (m\<lparr>pending :=
     fold (\<lambda>(did, p). dict_pop did) (filter (\<lambda>(did, p). p_owner p = own) (pending m)) (pending m)\<rparr>)"

lemma runs_forget: "runs e [ReleasePrompts own, OwnerPop own] m m' \<longleftrightarrow> m' = forget_owner own m"
  using runs_clears [of e _ "[OwnerPop own]" m m']
  by (simp add: runs_act [of e "ReleasePrompts own"] release_prompts_def) (simp add: runs_simps forget_owner_def)

lemma forget_owner_pending:
  assumes "wf_dict (pending m)"
  shows "dict_get (pending (forget_owner own m)) d = Some p \<longleftrightarrow> dict_get (pending m) d = Some p \<and> p_owner p \<noteq> own"
proof -
  let ?own = "filter (\<lambda>(did, p). p_owner p = own) (pending m)"
  have "dict_get (pending (forget_owner own m)) d = (if d \<in> fst ` set ?own then None else dict_get (pending m) d)"
    by (simp add: forget_owner_def get_fold_pop)
  moreover have "d \<in> fst ` set ?own \<longleftrightarrow> (\<exists>q. dict_get (pending m) d = Some q \<and> p_owner q = own)"
    unfolding wf_dict_get_iff [OF assms] by force
  ultimately show ?thesis by auto
qed



section \<open>The idle clock\<close>

lemma owned_busy:
  assumes inv: "ssh_inv m A"
  shows "s \<in> set (filter s_busy (map (\<lambda>(did, r). store m r) (owned own m))) \<longleftrightarrow>
    (\<exists>d r. current m d = Some r \<and> s_owner (store m r) = own \<and> s_busy (store m r) \<and> s = store m r)"
proof -
  have "current m d = Some r \<longleftrightarrow> (d, r) \<in> set (sessions m)" for d r
    by (rule wf_dict_get_iff) (use inv in \<open>simp add: ssh_inv_def\<close>)
  then show ?thesis by (force simp: owned_def)
qed

text \<open>What the tick decides from the owner's clock.\<close>

lemma tick_owner_idle:
  assumes "owned own m \<noteq> []" "filter s_busy (map (\<lambda>(did, r). store m r) (owned own m)) = []"
    and "dict_get (activity m) own = Some info"
  shows "now - i_last_active info < 270 \<Longrightarrow> tick_owner now own m = (m, [])"
    and "270 \<le> now - i_last_active info \<Longrightarrow> now - i_last_active info < 300 \<Longrightarrow>
      tick_owner now own m = (if i_warned info then (m, [])
        else (push_msg (SshIdleWarning \<lfloor>300 - (now - i_last_active info)\<rfloor>) (Some own) None
               (m\<lparr>activity := dict_set own (info\<lparr>i_warned := True\<rparr>) (activity m)\<rparr>), []))"
    and "300 \<le> now - i_last_active info \<Longrightarrow> tick_owner now own m =
        (m, concat (map (announced True own ''idle timeout'') (owned own m)) @ [PushTo SshIdleTimeout own, OwnerPop own])"
proof -
  have ann: "(\<lambda>(did, r). [Log did (lit ''Disconnected due to idle timeout.'') ''warn'' (Some own) None None,
      CloseSlot did (Some r) ''idle timeout'']) = announced True own ''idle timeout''"
    by (simp add: fun_eq_iff announced_def del: lit_simps)
  have "idle_clock now own m = (m, False)" using assms(2) by (simp add: idle_clock_def)
  then have t: "tick_owner now own m = (let idle = now - i_last_active info
               in if IDLE_TIMEOUT_SECONDS \<le> idle
                  then (m, concat (map (announced True own ''idle timeout'') (owned own m))
                        @ [PushTo SshIdleTimeout own, OwnerPop own])
                  else if IDLE_WARN_SECONDS \<le> idle \<and> \<not> i_warned info
                  then (push_msg (SshIdleWarning \<lfloor>IDLE_TIMEOUT_SECONDS - idle\<rfloor>) (Some own) None
                          (m\<lparr>activity := dict_set own (info\<lparr>i_warned := True\<rparr>) (activity m)\<rparr>), [])
                  else (m, []))"
    unfolding ann [symmetric] using assms(1,3) by (simp add: tick_owner_def del: lit_simps)
  show "now - i_last_active info < 270 \<Longrightarrow> tick_owner now own m = (m, [])"
    by (simp add: t IDLE_TIMEOUT_SECONDS_def IDLE_WARN_SECONDS_def Let_def)
  show "270 \<le> now - i_last_active info \<Longrightarrow> now - i_last_active info < 300 \<Longrightarrow>
      tick_owner now own m = (if i_warned info then (m, [])
        else (push_msg (SshIdleWarning \<lfloor>300 - (now - i_last_active info)\<rfloor>) (Some own) None
               (m\<lparr>activity := dict_set own (info\<lparr>i_warned := True\<rparr>) (activity m)\<rparr>), []))"
    by (simp add: t IDLE_TIMEOUT_SECONDS_def IDLE_WARN_SECONDS_def Let_def)
  show "300 \<le> now - i_last_active info \<Longrightarrow> tick_owner now own m =
        (m, concat (map (announced True own ''idle timeout'') (owned own m)) @ [PushTo SshIdleTimeout own, OwnerPop own])"
    by (simp add: t IDLE_TIMEOUT_SECONDS_def Let_def)
qed

text \<open>
  C14. An idle owner is warned once and then disconnected everywhere, and nobody else is. With
  no command running, a tick before 270 idle seconds changes nothing; from 270 to 300 it only
  pushes one warning; from 300 on, run to its end, it leaves the owner without any slot and
  without idle clock, their sessions closed and wiped, and every slot and session of the other
  owners as it was.
\<close>
theorem idle_owner_timeout:
  assumes "ssh_reachable s" and "dict_get (activity (mgr s)) own = Some info"
    and "current (mgr s) did = Some q" and "s_owner (store (mgr s) q) = own"
    and "\<forall>d r. current (mgr s) d = Some r \<and> s_owner (store (mgr s) r) = own \<longrightarrow> \<not> s_busy (store (mgr s) r)"
  shows "(now - i_last_active info < 270 \<longrightarrow> tick_owner now own (mgr s) = (mgr s, []))
    \<and> (270 \<le> now - i_last_active info \<and> now - i_last_active info < 300 \<longrightarrow>
         snd (tick_owner now own (mgr s)) = []
       \<and> pushes (fst (tick_owner now own (mgr s))) = pushes (mgr s) @
           (if i_warned info then [] else [\<lparr>m_body = SshIdleWarning \<lfloor>300 - (now - i_last_active info)\<rfloor>,
                                            m_owner = Some own, m_gen = None\<rparr>])
       \<and> (\<exists>info'. dict_get (activity (fst (tick_owner now own (mgr s)))) own = Some info' \<and> i_warned info'))
    \<and> (300 \<le> now - i_last_active info \<longrightarrow>
        (\<exists>m'. runs e (snd (tick_owner now own (mgr s))) (fst (tick_owner now own (mgr s))) m')
      \<and> (\<forall>m'. runs e (snd (tick_owner now own (mgr s))) (fst (tick_owner now own (mgr s))) m' \<longrightarrow>
          without_owner own (mgr s) m' \<and> dict_get (activity m') own = None))"
proof -
  let ?m = "mgr s" and ?xs = "owned own (mgr s)"
  note inv = ssh.reachable_inv [OF assms(1)]
  note cl = closable_owned [OF inv, of own] and mem = owned_iff [OF inv, of _ own]
  have ne: "?xs \<noteq> []" using mem(1) [of did] assms(3,4) by auto
  have idle: "filter s_busy (map (\<lambda>(did, r). store ?m r) ?xs) = []"
  proof (rule ccontr)
    assume "filter s_busy (map (\<lambda>(did, r). store ?m r) ?xs) \<noteq> []"
    then obtain x where "x \<in> set (filter s_busy (map (\<lambda>(did, r). store ?m r) ?xs))"
      by (metis list.set_sel(1))
    then show False using owned_busy [OF inv, of x own] assms(5) by blast
  qed
  note t = tick_owner_idle [OF ne idle assms(2), of now]
  define fin where "fin m1 = owner_pop own (push_msg SshIdleTimeout (Some own) None m1)" for m1
  have rest: "runs e [PushTo SshIdleTimeout own, OwnerPop own] m1 m2 \<longleftrightarrow> m2 = fin m1" for m1 m2
    by (simp add: runs_simps fin_def)
  have late: "(\<exists>m'. runs e (snd (tick_owner now own ?m)) (fst (tick_owner now own ?m)) m')
      \<and> (\<forall>m'. runs e (snd (tick_owner now own ?m)) (fst (tick_owner now own ?m)) m' \<longrightarrow>
          without_owner own ?m m' \<and> dict_get (activity m') own = None)" if "300 \<le> now - i_last_active info"
    unfolding t(3) [OF that] fst_conv snd_conv
  proof (intro conjI allI impI)
    show "\<exists>m'. runs e (concat (map (announced True own ''idle timeout'') ?xs) @ [PushTo SshIdleTimeout own, OwnerPop own]) ?m m'"
      by (rule runs_closes_exists [OF cl]) (simp add: rest)
    fix m' assume run: "runs e (concat (map (announced True own ''idle timeout'') ?xs) @ [PushTo SshIdleTimeout own, OwnerPop own]) ?m m'"
    obtain m1 where m1: "torn ?xs ?m m1" and m': "m' = fin m1"
      using runs_closes [OF cl run] rest by blast
    show "without_owner own ?m m'" by (rule torn_without_owner [OF inv m1]) (simp_all add: m' fin_def)
    show "dict_get (activity m') own = None" by (simp add: m' fin_def owner_pop_def dict_simps)
  qed
  show ?thesis using t(1,2) late assms(2) by (auto simp: dict_simps)
qed

definition alice_idle :: ssh_sys where
  "alice_idle = run_first any_env 0 alice_connected"

lemma alice_idle_simps:
  "ssh_reachable alice_idle" "current (mgr alice_idle) ''d1'' = Some 0" "s_owner (store (mgr alice_idle) 0) = ''alice''"
  "\<not> s_busy (store (mgr alice_idle) 0)" "current (mgr alice_idle) d = (if d = ''d1'' then Some 0 else None)"
  "dict_get (activity (mgr alice_idle)) ''alice'' = Some \<lparr>i_last_active = 1, i_warned = False, i_silent = False\<rparr>"
proof -
  show "ssh_reachable alice_idle" unfolding alice_idle_def by (intro run_first_reachable alice_reachable)
qed (simp_all add: alice_idle_def alice_connected_def alice_connects_def trace_defs owner_touch_def)

theorem idle_owner_timeout_witness:
  "tick_owner 200 ''alice'' (mgr alice_idle) = (mgr alice_idle, [])
   \<and> (\<exists>m'. runs any_env (snd (tick_owner 400 ''alice'' (mgr alice_idle))) (fst (tick_owner 400 ''alice'' (mgr alice_idle))) m'
        \<and> current m' ''d1'' = None)"
proof -
  note a = alice_idle_simps
  have nb: "\<forall>d r. current (mgr alice_idle) d = Some r \<and> s_owner (store (mgr alice_idle) r) = ''alice'' \<longrightarrow>
      \<not> s_busy (store (mgr alice_idle) r)"
    using a(4,5) by auto
  note h = idle_owner_timeout [OF a(1) a(6) a(2,3) nb]
  have 1: "tick_owner 200 ''alice'' (mgr alice_idle) = (mgr alice_idle, [])" using h [of 200] by simp
  note late = h [of 400 any_env, THEN conjunct2, THEN conjunct2, THEN mp]
  have 2: "\<exists>m'. runs any_env (snd (tick_owner 400 ''alice'' (mgr alice_idle))) (fst (tick_owner 400 ''alice'' (mgr alice_idle))) m'"
    by (rule late [THEN conjunct1]) simp
  then obtain m' where m': "runs any_env (snd (tick_owner 400 ''alice'' (mgr alice_idle))) (fst (tick_owner 400 ''alice'' (mgr alice_idle))) m'"
    by blast
  have "current m' ''d1'' = (case current (mgr alice_idle) ''d1'' of None \<Rightarrow> None
                 | Some r \<Rightarrow> if s_owner (store (mgr alice_idle) r) = ''alice'' then None else Some r)"
    using late [THEN conjunct2, THEN spec, THEN mp, OF _ m', THEN conjunct1] by (simp add: without_owner_def)
  then show ?thesis using 1 m' a(2,3) by auto
qed

text \<open>
  A running command keeps its owner connected while it is heard of, and a silent one does
  not. If one of the owner's commands sent or received something in the last 1800 seconds,
  the tick closes nothing and sets the idle clock to now; if all of them have been silent
  longer, the first such tick sets the clock back 270 seconds and warns at once, so that 30
  seconds later the owner times out.
\<close>
theorem running_command_idle:
  assumes "ssh_reachable s" and "dict_get (activity (mgr s)) own = Some info"
    and "current (mgr s) did = Some q" and "s_owner (store (mgr s) q) = own" and "s_busy (store (mgr s) q)"
  shows "((\<exists>d r. current (mgr s) d = Some r \<and> s_owner (store (mgr s) r) = own \<and> s_busy (store (mgr s) r)
             \<and> now - s_last_io (store (mgr s) r) < 1800) \<longrightarrow>
           tick_owner now own (mgr s) = ((mgr s)\<lparr>activity := dict_set own
             \<lparr>i_last_active = now, i_warned = False, i_silent = False\<rparr> (activity (mgr s))\<rparr>, []))
    \<and> ((\<forall>d r. current (mgr s) d = Some r \<and> s_owner (store (mgr s) r) = own \<and> s_busy (store (mgr s) r) \<longrightarrow>
             1800 \<le> now - s_last_io (store (mgr s) r)) \<and> \<not> i_silent info \<longrightarrow>
           snd (tick_owner now own (mgr s)) = []
         \<and> pushes (fst (tick_owner now own (mgr s))) = pushes (mgr s) @
             [\<lparr>m_body = SshIdleWarning 30, m_owner = Some own, m_gen = None\<rparr>]
         \<and> dict_get (activity (fst (tick_owner now own (mgr s)))) own =
             Some \<lparr>i_last_active = now - 270, i_warned = True, i_silent = True\<rparr>)"
proof -
  let ?m = "mgr s"
  let ?busy = "filter s_busy (map (\<lambda>(did, r). store ?m r) (owned own ?m))"
  note inv = ssh.reachable_inv [OF assms(1)]
  note mem = owned_busy [OF inv, of _ own]
  have q: "store ?m q \<in> set ?busy" using mem [of "store ?m q"] assms(3-5) by blast
  then have ne: "?busy \<noteq> []" by (metis empty_iff empty_set)
  then have ne: "?busy \<noteq> []" "owned own ?m \<noteq> []" by auto
  have info: "info\<lparr>i_last_active := x, i_warned := y, i_silent := z\<rparr> = \<lparr>i_last_active = x, i_warned = y, i_silent = z\<rparr>"
    "info\<lparr>i_silent := z, i_last_active := x, i_warned := y\<rparr> = \<lparr>i_last_active = x, i_warned = y, i_silent = z\<rparr>" for x y z
    by (cases info; simp)+
  have ex: "list_ex (\<lambda>s. now - s_last_io s < TERM_SILENCE_SECONDS) ?busy \<longleftrightarrow>
      (\<exists>d r. current ?m d = Some r \<and> s_owner (store ?m r) = own \<and> s_busy (store ?m r)
             \<and> now - s_last_io (store ?m r) < 1800)"
    using mem by (fastforce simp: list_ex_iff TERM_SILENCE_SECONDS_def)
  show ?thesis
  proof (intro conjI impI)
    assume "\<exists>d r. current ?m d = Some r \<and> s_owner (store ?m r) = own \<and> s_busy (store ?m r)
             \<and> now - s_last_io (store ?m r) < 1800"
    then have "idle_clock now own ?m = (?m\<lparr>activity := dict_set own
             \<lparr>i_last_active = now, i_warned = False, i_silent = False\<rparr> (activity ?m)\<rparr>, True)"
      using ex ne(1) assms(2) unfolding idle_clock_def Let_def by (simp add: info)
    then show "tick_owner now own ?m = (?m\<lparr>activity := dict_set own
             \<lparr>i_last_active = now, i_warned = False, i_silent = False\<rparr> (activity ?m)\<rparr>, [])"
      using ne(2) by (simp add: tick_owner_def)
  next
    assume a: "(\<forall>d r. current ?m d = Some r \<and> s_owner (store ?m r) = own \<and> s_busy (store ?m r) \<longrightarrow>
             1800 \<le> now - s_last_io (store ?m r)) \<and> \<not> i_silent info"
    then have "\<not> list_ex (\<lambda>s. now - s_last_io s < TERM_SILENCE_SECONDS) ?busy" unfolding ex by (metis not_le)
    then have c: "idle_clock now own ?m = (?m\<lparr>activity := dict_set own
             \<lparr>i_last_active = now - 270, i_warned = False, i_silent = True\<rparr> (activity ?m)\<rparr>, False)"
      using ne(1) assms(2) a unfolding idle_clock_def Let_def by (simp add: info IDLE_WARN_SECONDS_def)
    show "snd (tick_owner now own ?m) = []"
      "pushes (fst (tick_owner now own ?m)) = pushes ?m @
             [\<lparr>m_body = SshIdleWarning 30, m_owner = Some own, m_gen = None\<rparr>]"
      "dict_get (activity (fst (tick_owner now own ?m))) own =
             Some \<lparr>i_last_active = now - 270, i_warned = True, i_silent = True\<rparr>"
      using ne(2) by (simp_all add: tick_owner_def c dict_simps IDLE_TIMEOUT_SECONDS_def IDLE_WARN_SECONDS_def)
  qed
qed

definition alice_busy :: ssh_sys where
  "alice_busy = begin_call (CallRun ''r1'' 2 2 ''d1'' (Some [108, 115]) False None (Some ''alice'') None None None)
     alice_idle"

theorem running_command_idle_witness:
  "snd (tick_owner 100 ''alice'' (mgr alice_busy)) = []
   \<and> pushes (fst (tick_owner 2000 ''alice'' (mgr alice_busy))) = pushes (mgr alice_busy) @
       [\<lparr>m_body = SshIdleWarning 30, m_owner = Some ''alice'', m_gen = None\<rparr>]"
proof -
  have r: "ssh_reachable alice_busy" unfolding alice_busy_def by (intro begin_reachable alice_idle_simps)
  have a: "dict_get (activity (mgr alice_busy)) ''alice'' = Some \<lparr>i_last_active = 1, i_warned = False, i_silent = False\<rparr>"
    "current (mgr alice_busy) ''d1'' = Some 0" "s_owner (store (mgr alice_busy) 0) = ''alice''"
    "s_busy (store (mgr alice_busy) 0)" "s_last_io (store (mgr alice_busy) 0) = 2"
    "current (mgr alice_busy) d = (if d = ''d1'' then Some 0 else None)" for d
    by (simp_all add: alice_busy_def alice_idle_def alice_connected_def alice_connects_def trace_defs owner_touch_def)
  note h = running_command_idle [OF r a(1-4)]
  have "tick_owner 100 ''alice'' (mgr alice_busy) = ((mgr alice_busy)\<lparr>activity := dict_set ''alice''
             \<lparr>i_last_active = 100, i_warned = False, i_silent = False\<rparr> (activity (mgr alice_busy))\<rparr>, [])"
    by (rule h [THEN conjunct1, THEN mp]) (use a in auto)
  moreover have "pushes (fst (tick_owner 2000 ''alice'' (mgr alice_busy))) = pushes (mgr alice_busy) @
       [\<lparr>m_body = SshIdleWarning 30, m_owner = Some ''alice'', m_gen = None\<rparr>]"
    by (rule h [THEN conjunct2, THEN mp, THEN conjunct2, THEN conjunct1]) (use a in auto)
  ultimately show ?thesis by simp
qed

section \<open>Expired prompts\<close>

text \<open>What a sweep leaves of a prompt: it is gone, and its session with it if it holds the slot.\<close>

definition prompt_swept :: "string \<Rightarrow> prompt \<Rightarrow> manager \<Rightarrow> manager \<Rightarrow> bool" where
  "prompt_swept did p m m' \<longleftrightarrow>
     dict_get (pending m') did = None
   \<and> (\<forall>r. current m did = Some r \<longrightarrow>
        (if s_generation (store m r) = p_generation p
         then current m' did = None \<and> s_state (store m' r) = Closed
            \<and> s_password (store m' r) = None \<and> \<not> s_client (store m' r)
         else current m' did = Some r \<and> store m' r = store m r))
   \<and> (\<forall>d r. d \<noteq> did \<and> current m d = Some r \<longrightarrow> current m' d = Some r \<and> store m' r = store m r)"

lemma sweep_without_session:
  assumes "dict_get (pending m) did = Some p" "300 \<le> now - p_created_at p"
    and "\<forall>r. current m did = Some r \<longrightarrow> s_generation (store m r) \<noteq> p_generation p"
  shows "sweep_device now did m = (clear_pending did m, [])" "prompt_swept did p m (clear_pending did m)"
  using assms by (auto simp: sweep_device_def HOST_KEY_PENDING_SECONDS_def prompt_swept_def clear_pending_def
      dict_simps split: option.splits)

lemma prompt_waits:
  assumes "ssh_inv m A" "dict_get (pending m) did = Some p"
    and "current m did = Some r" "s_generation (store m r) = p_generation p"
  shows "s_state (store m r) = HostKeyPending"
proof -
  have "prompt_ok m did p" using assms(1,2) by (simp add: ssh_inv_def)
  then show ?thesis using assms(4) inv_currentD(3,4) [OF assms(1,3)] by (auto simp: prompt_ok_def session_ok_def)
qed

lemma torn_swept:
  assumes inv: "ssh_inv m A" and cur: "current m did = Some r" "s_generation (store m r) = p_generation p"
    and same: "sessions L = sessions m" "store L = store m" and t: "torn [(did, r)] L m'"
    and none: "dict_get (pending L) did = None"
  shows "prompt_swept did p m m'"
proof -
  have "q \<noteq> r" if "d \<noteq> did" "current m d = Some q" for d q
    using inv_slot_unique [OF inv cur(1)] that by blast
  then show ?thesis using t cur none by (auto simp: prompt_swept_def torn_def same)
qed

lemma sweep_own_session:
  assumes inv: "ssh_inv m A" and p: "dict_get (pending m) did = Some p" and late: "300 \<le> now - p_created_at p"
    and cur: "current m did = Some r" "s_generation (store m r) = p_generation p"
  shows "\<exists>m'. runs e (snd (sweep_device now did m)) (fst (sweep_device now did m)) m'"
    and "runs e (snd (sweep_device now did m)) (fst (sweep_device now did m)) m' \<Longrightarrow> prompt_swept did p m m'"
proof -
  define L where "L = log_msg did (lit ''Host-key prompt expired. Password cleared from memory.'') ''warn''
      (Some (p_owner p)) None None (clear_pending did m)"
  have L: "sessions L = sessions m" "store L = store m" "dict_get (pending L) did = None"
    by (simp_all add: L_def clear_pending_def dict_simps del: lit_simps)
  have sw: "sweep_device now did m = (clear_pending did m,
      [Log did (lit ''Host-key prompt expired. Password cleared from memory.'') ''warn'' (Some (p_owner p)) None None,
       CloseSlot did (Some r) ''host-key prompt expired''])"
    using p late cur prompt_waits [OF inv p cur] by (simp add: sweep_device_def HOST_KEY_PENDING_SECONDS_def del: lit_simps)
  have unroll: "runs e (snd (sweep_device now did m)) (fst (sweep_device now did m)) m' \<longleftrightarrow>
      runs e [CloseSlot did (Some r) ''host-key prompt expired''] L m'" for m'
    unfolding sw L_def by (simp add: runs_act [of e "Log x1 x2 x3 x4 x5 x6" for x1 x2 x3 x4 x5 x6] del: lit_simps)
  have cl: "current L did = Some r" using cur(1) L by simp
  show "\<exists>m'. runs e (snd (sweep_device now did m)) (fst (sweep_device now did m)) m'"
    unfolding unroll by (rule runs_close_slot(2) [OF cl]) (simp add: runs_end)
  show "prompt_swept did p m m'" if "runs e (snd (sweep_device now did m)) (fst (sweep_device now did m)) m'"
    using runs_close_slot(1) [OF cl that [unfolded unroll]] torn_swept [OF inv cur L(1,2) _ L(3)]
    by (auto simp: runs_end)
qed

text \<open>
  A host-key prompt lasts 300 seconds and then frees the device it held. Before that the
  sweep leaves it alone; from then on, run to its end, it removes the prompt, and if the slot
  still holds the session that raised it, that session is closed and wiped and the slot is
  free; a slot that meanwhile belongs to a newer session is not touched, nor is any other slot.
\<close>
theorem expired_prompt_frees_slot:
  assumes "ssh_reachable s" and "dict_get (pending (mgr s)) did = Some p"
  shows "(now - p_created_at p < 300 \<longrightarrow> sweep_device now did (mgr s) = (mgr s, []))
    \<and> (300 \<le> now - p_created_at p \<longrightarrow>
        (\<exists>m'. runs e (snd (sweep_device now did (mgr s))) (fst (sweep_device now did (mgr s))) m')
      \<and> (\<forall>m'. runs e (snd (sweep_device now did (mgr s))) (fst (sweep_device now did (mgr s))) m' \<longrightarrow>
          prompt_swept did p (mgr s) m'))"
proof -
  note inv = ssh.reachable_inv [OF assms(1)]
  have "(\<exists>m'. runs e (snd (sweep_device now did (mgr s))) (fst (sweep_device now did (mgr s))) m')
      \<and> (\<forall>m'. runs e (snd (sweep_device now did (mgr s))) (fst (sweep_device now did (mgr s))) m' \<longrightarrow>
          prompt_swept did p (mgr s) m')" if late: "300 \<le> now - p_created_at p"
  proof (cases "\<exists>r. current (mgr s) did = Some r \<and> s_generation (store (mgr s) r) = p_generation p")
    case True
    then show ?thesis using sweep_own_session [OF inv assms(2) late] by blast
  next
    case False
    then show ?thesis using sweep_without_session [OF assms(2) late] by (auto simp: runs_end)
  qed
  moreover have "sweep_device now did (mgr s) = (mgr s, [])" if "now - p_created_at p < 300"
    using that assms(2) by (simp add: sweep_device_def HOST_KEY_PENDING_SECONDS_def)
  ultimately show ?thesis by blast
qed

theorem expired_prompt_frees_slot_witness:
  "sweep_device 10 ''d1'' (mgr alice_prompted) = (mgr alice_prompted, [])
   \<and> (\<exists>m'. runs any_env (snd (sweep_device 400 ''d1'' (mgr alice_prompted))) (fst (sweep_device 400 ''d1'' (mgr alice_prompted))) m')"
proof -
  have "dict_get (pending (mgr alice_prompted)) ''d1'' = Some \<lparr>p_host = lit ''h'', p_key = ([1], [2]), p_code = ''c'',
      p_owner = ''alice'', p_generation = 1, p_created_at = 1\<rparr>"
    by (simp add: alice_prompted_def alice_connects_def trace_defs)
  note h = expired_prompt_frees_slot [OF alice_reachable(2) this]
  show ?thesis
    using h [of 10, THEN conjunct1] h [of 400 any_env, THEN conjunct2, THEN mp, THEN conjunct1] by simp
qed

section \<open>A late teardown and the session after it\<close>

text \<open>
  A close leaves its locked section before it drops the device's prompt, closes the client
  and announces the end; none of these later actions looks at the slot again. So another owner
  can take the freed device in between. Alice's session is being released while Bob connects.
\<close>

definition run_all :: "env \<Rightarrow> nat \<Rightarrow> nat \<Rightarrow> ssh_sys \<Rightarrow> ssh_sys" where
  "run_all e i n s = (run_first e i ^^ n) s"

lemma run_all_reachable: "ssh_reachable s \<Longrightarrow> ssh_reachable (run_all e i n s)"
  unfolding run_all_def by (induction n) (auto intro: run_first_reachable)

text \<open>Alice connected and announced; her release has emptied the slot and not yet gone on.\<close>

definition releasing :: ssh_sys where
  "releasing = run_first any_env 1 (begin_call (CallRelease ''alice'' ''signed out'') (run_all any_env 0 4 alice_connected))"

definition bob_connects :: ssh_sys where
  "bob_connects = begin_call (CallConnect ''d1'' [113] dev1 ''bob'' 5) releasing"

definition bob_prompted :: ssh_sys where
  "bob_prompted = run_all any_env 1 7 (run_first (any_env\<lparr>e_net := NetUnknownKey (lit ''h'') ([1], [2])\<rparr>) 2 bob_connects)"

definition bob_connected :: ssh_sys where
  "bob_connected = run_all any_env 1 7 (run_all any_env 2 5 bob_connects)"

lemmas race_defs = bob_connects_def releasing_def run_all_def release_owner_def close_slot_def retire_def
  drop_slot_def clear_pending_def close_session_def owner_touch_def owner_pop_def release_prompts_def
  log_msg_def status_msg_def lock_msg_def stamped_owner_def connected_text_def eval_nat_numeral
  alice_connected_def alice_connects_def trace_defs

lemma race_reachable: "ssh_reachable bob_prompted" "ssh_reachable bob_connected"
  unfolding bob_prompted_def bob_connected_def bob_connects_def releasing_def
  by (intro run_all_reachable run_first_reachable begin_reachable alice_reachable)+

lemma bob_prompted_state:
  "current (mgr bob_prompted) ''d1'' = Some 1" "s_state (store (mgr bob_prompted) 1) = HostKeyPending"
  "s_owner (store (mgr bob_prompted) 1) = ''bob''" "pending (mgr bob_prompted) = []"
  "activity (mgr bob_prompted) = []"
  by (simp_all add: bob_prompted_def race_defs del: lit_simps)

text \<open>
  The end of one teardown can drop another owner's host-key prompt. There is a reachable
  state in which Bob's session holds the device waiting for an answer that nobody can give:
  the prompt was dropped by the tail of Alice's release, Bob's answer with the right code is
  refused, and no idle tick, however late, will ever free the device.
\<close>
theorem late_teardown_drops_prompt:
  "\<exists>s r. ssh_reachable s \<and> current (mgr s) ''d1'' = Some r \<and> s_state (store (mgr s) r) = HostKeyPending
    \<and> s_owner (store (mgr s) r) = ''bob'' \<and> dict_get (pending (mgr s)) ''d1'' = None
    \<and> (\<forall>code now. trust_host_key ''d1'' code ''bob'' now (mgr s) = (mgr s, Some Expired, []))
    \<and> (\<forall>now e m'. runs e (tick_idle now (mgr s)) (mgr s) m' \<longrightarrow> m' = mgr s)"
proof (intro exI conjI allI impI)
  let ?s = bob_prompted
  note b = bob_prompted_state
  show "ssh_reachable ?s" by (rule race_reachable)
  show "current (mgr ?s) ''d1'' = Some 1" "s_state (store (mgr ?s) 1) = HostKeyPending"
    "s_owner (store (mgr ?s) 1) = ''bob''" "dict_get (pending (mgr ?s)) ''d1'' = None"
    using b by simp_all
  show "trust_host_key ''d1'' code ''bob'' now (mgr ?s) = (mgr ?s, Some Expired, [])" for code now
    using b by (simp add: trust_host_key_def valid_prompt_def)
  show "m' = mgr ?s" if "runs e (tick_idle now (mgr ?s)) (mgr ?s) m'" for now e m'
    using that b by (simp add: tick_idle_def sweep_expired_host_key_prompts_def runs_simps)
qed

theorem late_teardown_drops_prompt_witness:
  "\<exists>s. ssh_reachable s \<and> dict_get (pending (mgr s)) ''d1'' = None \<and> current (mgr s) ''d1'' \<noteq> None"
  using late_teardown_drops_prompt by blast

definition lock_events :: "manager \<Rightarrow> pushed list" where
  "lock_events m = filter (\<lambda>p. case m_body p of SshLock d b \<Rightarrow> True | _ \<Rightarrow> False) (pushes m)"

lemma bob_connected_state:
  "current (mgr bob_connected) ''d1'' = Some 1" "s_state (store (mgr bob_connected) 1) = Connected"
  "s_owner (store (mgr bob_connected) 1) = ''bob''" "s_generation (store (mgr bob_connected) 1) = 2"
  "lock_events (mgr bob_connected) = [\<lparr>m_body = SshLock ''d1'' True, m_owner = None, m_gen = Some 1\<rparr>,
     \<lparr>m_body = SshLock ''d1'' True, m_owner = None, m_gen = Some 2\<rparr>,
     \<lparr>m_body = SshLock ''d1'' False, m_owner = None, m_gen = None\<rparr>]"
  by (simp_all add: bob_connected_def race_defs lock_events_def del: lit_simps)

text \<open>
  C40. The end of one teardown can unlock a device that is in use. There is a reachable state
  in which Bob is connected to the device, Alice's release is done, and the last lock message
  pushed to all browsers, after the one that announced Bob's session, says the device is not
  locked; it carries no generation, so \<open>_deliver\<close> passes it on, while it drops the stamped
  one of Alice's session.
\<close>
theorem late_teardown_unlocks_device:
  "\<exists>s r old lock unlock. ssh_reachable s \<and> current (mgr s) ''d1'' = Some r
    \<and> s_state (store (mgr s) r) = Connected \<and> s_owner (store (mgr s) r) = ''bob''
    \<and> lock_events (mgr s) = [old, lock, unlock]
    \<and> deliver (mgr s) old = None
    \<and> deliver (mgr s) lock = Some (SshLock ''d1'' True, None)
    \<and> deliver (mgr s) unlock = Some (SshLock ''d1'' False, None)"
proof (intro exI conjI)
  let ?s = bob_connected
  note b = bob_connected_state
  show "ssh_reachable ?s" by (rule race_reachable)
  show "current (mgr ?s) ''d1'' = Some 1" "s_state (store (mgr ?s) 1) = Connected"
    "s_owner (store (mgr ?s) 1) = ''bob''"
    "lock_events (mgr ?s) = [\<lparr>m_body = SshLock ''d1'' True, m_owner = None, m_gen = Some 1\<rparr>,
     \<lparr>m_body = SshLock ''d1'' True, m_owner = None, m_gen = Some 2\<rparr>,
     \<lparr>m_body = SshLock ''d1'' False, m_owner = None, m_gen = None\<rparr>]"
    using b by simp_all
  show "deliver (mgr ?s) \<lparr>m_body = SshLock ''d1'' True, m_owner = None, m_gen = Some 1\<rparr> = None"
    "deliver (mgr ?s) \<lparr>m_body = SshLock ''d1'' True, m_owner = None, m_gen = Some 2\<rparr> = Some (SshLock ''d1'' True, None)"
    "deliver (mgr ?s) \<lparr>m_body = SshLock ''d1'' False, m_owner = None, m_gen = None\<rparr> = Some (SshLock ''d1'' False, None)"
    using b by (simp_all add: deliver_def)
qed

end
