(* ===== verification/Delivery_Queue.thy ===== *)
theory Delivery_Queue
  imports Prelude Config
begin

text \<open>
  \<open>delivery_queue.py\<close>: the FIFO that hands messages from SSH worker threads to the event
  loop. \<open>push\<close>, \<open>push_terminal\<close>, \<open>wake\<close> and \<open>shutdown\<close> run on any thread under
  the queue's condition; \<open>_drain\<close> is one coroutine on the loop. The first part translates
  the operations; the second interleaves them in every order and proves that messages leave
  in the order they were accepted, that no wake-up is lost, and that terminal output never
  enters the reserved capacity.
\<close>

section \<open>State\<close>

text \<open>
  \<open>self._loop\<close> is unset before \<open>start\<close>, then a loop that may later be closed.
  \<open>event.set\<close> is only ever scheduled with \<open>call_soon_threadsafe\<close>: \<open>wakes\<close> counts
  the scheduled calls that have not run yet, and \<open>cancel_pending\<close> says whether
  \<open>task.cancel\<close> is scheduled. \<open>task\<close> is where the drain coroutine stands.
\<close>

datatype loop_ref = NoLoop | OpenLoop | ClosedLoop

datatype 'm drain_pc =
    NotStarted
  | AwaitEvent
  | InnerLoop
  | Delivering 'm
  | TaskDone

record 'm delivery_queue =
  loop :: loop_ref
  queue :: "('m \<times> nat) list"
  bytes :: int
  event_set :: bool
  wakes :: nat
  task :: "'m drain_pc"
  cancel_pending :: bool
  shut :: bool

definition new_queue :: "'m delivery_queue" where
  "new_queue = \<lparr>loop = NoLoop, queue = [], bytes = 0, event_set = False, wakes = 0,
     task = NotStarted, cancel_pending = False, shut = False\<rparr>"

definition start :: "'m delivery_queue \<Rightarrow> 'm delivery_queue" where
  "start q = q\<lparr>loop := OpenLoop, event_set := False, task := AwaitEvent\<rparr>"

section \<open>Operations\<close>

definition wake :: "'m delivery_queue \<Rightarrow> 'm delivery_queue" where
  "wake q = (if loop q = OpenLoop then q\<lparr>wakes := Suc (wakes q)\<rparr> else q)"

text \<open>The append both producers share: the item, its size and the running byte count.\<close>

definition enqueue :: "'m \<times> nat \<Rightarrow> 'm delivery_queue \<Rightarrow> 'm delivery_queue" where
  "enqueue item q = q\<lparr>queue := queue q @ [item], bytes := bytes q + int (snd item)\<rparr>"

definition append_and_wake :: "'m \<times> nat \<Rightarrow> 'm delivery_queue \<Rightarrow> 'm delivery_queue" where
  "append_and_wake item q =
     (let was_empty = (queue q = []); q' = enqueue item q
      in if was_empty then wake q' else q')"

definition push :: "('m \<Rightarrow> pystr) \<Rightarrow> 'm \<Rightarrow> 'm delivery_queue \<Rightarrow> 'm delivery_queue" where
  "push dumps msg q =
     (let data = dumps msg
      in if shut q \<or> loop q = NoLoop \<or> loop q = ClosedLoop then q
         else append_and_wake (msg, length data) q)"

text \<open>
  One evaluation of the body of \<open>push_terminal\<close>'s loop: return False, return True with
  the message queued, or wait on the condition and try again.
\<close>

datatype 'm attempt = Refused | Queued "'m delivery_queue" | Wait

definition byte_limit :: rat where
  "byte_limit = of_nat DELIVERY_QUEUE_MAX_BYTES * (1 - DELIVERY_RESERVED_FRACTION)"

definition item_limit :: rat where
  "item_limit = of_nat DELIVERY_QUEUE_MAX_ITEMS * (1 - DELIVERY_RESERVED_FRACTION)"

definition push_terminal ::
  "('m \<Rightarrow> pystr) \<Rightarrow> 'm \<Rightarrow> bool \<Rightarrow> 'm delivery_queue \<Rightarrow> 'm attempt" where
  "push_terminal dumps msg should_continue q =
     (let sz = length (dumps msg)
      in if shut q \<or> \<not> should_continue then Refused
         else if rat_of_int (bytes q + int sz) \<le> byte_limit
                 \<and> rat_of_nat (length (queue q) + 1) \<le> item_limit
         then Queued (append_and_wake (msg, sz) q)
         else Wait)"

definition popleft :: "'m delivery_queue \<Rightarrow> 'm delivery_queue" where
  "popleft q = (case queue q of [] \<Rightarrow> q
     | (msg, sz) # rest \<Rightarrow> q\<lparr>queue := rest, bytes := bytes q - int sz\<rparr>)"

text \<open>
  One step of the drain coroutine, with the messages it handed to \<open>_deliver\<close>. It is
  blocked (None) while it awaits an event that is not set, and after it has been cancelled.
  A delivery that raises is logged and the loop goes on, exactly like one that succeeds.
\<close>

definition drain :: "'m delivery_queue \<Rightarrow> ('m delivery_queue \<times> 'm list) option" where
  "drain q = (case task q of
       AwaitEvent \<Rightarrow> if event_set q then Some (q\<lparr>task := InnerLoop\<rparr>, []) else None
     | InnerLoop \<Rightarrow>
         (case queue q of
            [] \<Rightarrow> Some (q\<lparr>event_set := False, task := AwaitEvent\<rparr>, [])
          | (msg, sz) # rest \<Rightarrow> Some ((popleft q)\<lparr>task := Delivering msg\<rparr>, []))
     | Delivering msg \<Rightarrow> Some (q\<lparr>task := InnerLoop\<rparr>, [msg])
     | NotStarted \<Rightarrow> None
     | TaskDone \<Rightarrow> None)"

definition run_wake :: "'m delivery_queue \<Rightarrow> 'm delivery_queue" where
  "run_wake q = q\<lparr>event_set := True, wakes := wakes q - 1\<rparr>"

text \<open>
  \<open>shutdown\<close> sets the flag under the condition and then schedules the task's cancellation;
  \<open>call_soon_threadsafe\<close> raises on a closed loop, after the flag was set (the flag's
  result: whether the call returned normally).
\<close>

definition shutdown :: "'m delivery_queue \<Rightarrow> 'm delivery_queue \<times> bool" where
  "shutdown q = (let q' = q\<lparr>shut := True\<rparr>
     in if task q' \<noteq> NotStarted \<and> task q' \<noteq> TaskDone
        then (if loop q' = ClosedLoop then (q', False) else (q'\<lparr>cancel_pending := True\<rparr>, True))
        else (q', True))"

definition run_cancel :: "'m delivery_queue \<Rightarrow> 'm delivery_queue" where
  "run_cancel q = q\<lparr>task := TaskDone, cancel_pending := False\<rparr>"

definition close_loop :: "'m delivery_queue \<Rightarrow> 'm delivery_queue" where
  "close_loop q = q\<lparr>loop := ClosedLoop\<rparr>"

interpretation dq: accounted_queue queue bytes snd enqueue popleft
  by unfold_locales (auto simp: enqueue_def popleft_def)

section \<open>Effect of each operation\<close>

lemma append_and_wake_simps [simp]:
  "queue (append_and_wake i q) = queue q @ [i]"
  "bytes (append_and_wake i q) = bytes q + int (snd i)"
  "task (append_and_wake i q) = task q"
  "loop (append_and_wake i q) = loop q"
  "shut (append_and_wake i q) = shut q"
  "event_set (append_and_wake i q) = event_set q"
  "cancel_pending (append_and_wake i q) = cancel_pending q"
  "wakes (append_and_wake i q) =
     (if queue q = [] \<and> loop q = OpenLoop then Suc (wakes q) else wakes q)"
  by (simp_all add: append_and_wake_def enqueue_def wake_def Let_def)

lemma popleft_simps [simp]:
  "queue q = i # rest \<Longrightarrow> queue (popleft q) = rest"
  "queue q = i # rest \<Longrightarrow> bytes (popleft q) = bytes q - int (snd i)"
  "task (popleft q) = task q" "loop (popleft q) = loop q" "shut (popleft q) = shut q"
  "event_set (popleft q) = event_set q" "wakes (popleft q) = wakes q"
  "cancel_pending (popleft q) = cancel_pending q"
  by (auto simp: popleft_def split: list.splits prod.splits)

lemma byte_limit_iff: "rat_of_int b \<le> byte_limit \<longleftrightarrow> 10 * b \<le> 9 * int DELIVERY_QUEUE_MAX_BYTES"
proof -
  have "rat_of_int b \<le> byte_limit \<longleftrightarrow> rat_of_int (10 * b) \<le> rat_of_int (9 * int DELIVERY_QUEUE_MAX_BYTES)"
    by (simp add: byte_limit_def DELIVERY_RESERVED_FRACTION_def field_simps)
  then show ?thesis by (simp only: of_int_le_iff)
qed

lemma item_limit_iff: "rat_of_nat n \<le> item_limit \<longleftrightarrow> 10 * n \<le> 9 * DELIVERY_QUEUE_MAX_ITEMS"
proof -
  have "rat_of_nat n \<le> item_limit \<longleftrightarrow> rat_of_nat (10 * n) \<le> rat_of_nat (9 * DELIVERY_QUEUE_MAX_ITEMS)"
    by (simp add: item_limit_def DELIVERY_RESERVED_FRACTION_def field_simps)
  then show ?thesis by (simp only: of_nat_le_iff)
qed

lemma push_terminal_Queued_iff:
  "push_terminal dumps m c q = Queued q' \<longleftrightarrow>
     \<not> shut q \<and> c \<and> q' = append_and_wake (m, length (dumps m)) q
     \<and> 10 * (bytes q + int (length (dumps m))) \<le> 9 * int DELIVERY_QUEUE_MAX_BYTES
     \<and> 10 * (length (queue q) + 1) \<le> 9 * DELIVERY_QUEUE_MAX_ITEMS"
  unfolding push_terminal_def Let_def byte_limit_iff item_limit_iff by auto

section \<open>Every interleaving\<close>

text \<open>
  A configuration is the queue with two history variables: the messages accepted so far and
  the messages handed to \<open>_deliver\<close> so far. The steps are the operations any thread may
  run under the condition, the loop's callbacks and the drain coroutine, in any order.
  \<open>push_accepts\<close> is the negation of the early return of \<open>push\<close>.
\<close>

record 'm dq_sys =
  dq :: "'m delivery_queue"
  accepted :: "'m list"
  delivered :: "'m list"

definition dq_init :: "'m dq_sys \<Rightarrow> bool" where
  "dq_init s \<longleftrightarrow> s = \<lparr>dq = start new_queue, accepted = [], delivered = []\<rparr>"

definition push_accepts :: "'m delivery_queue \<Rightarrow> bool" where
  "push_accepts q \<longleftrightarrow> \<not> shut q \<and> loop q = OpenLoop"

inductive dq_step :: "('m \<Rightarrow> pystr) \<Rightarrow> 'm dq_sys \<Rightarrow> 'm dq_sys \<Rightarrow> bool" for dumps where
  do_push: "dq_step dumps s
     (s\<lparr>dq := push dumps m (dq s),
        accepted := accepted s @ (if push_accepts (dq s) then [m] else [])\<rparr>)"
| do_push_terminal: "push_terminal dumps m c (dq s) = Queued q' \<Longrightarrow>
     dq_step dumps s (s\<lparr>dq := q', accepted := accepted s @ [m]\<rparr>)"
| do_wake: "0 < wakes (dq s) \<Longrightarrow> dq_step dumps s (s\<lparr>dq := run_wake (dq s)\<rparr>)"
| do_drain: "drain (dq s) = Some (q', out) \<Longrightarrow>
     dq_step dumps s (s\<lparr>dq := q', delivered := delivered s @ out\<rparr>)"
| do_shutdown: "dq_step dumps s (s\<lparr>dq := fst (shutdown (dq s))\<rparr>)"
| do_cancel: "cancel_pending (dq s) \<Longrightarrow> dq_step dumps s (s\<lparr>dq := run_cancel (dq s)\<rparr>)"
| do_close: "dq_step dumps s (s\<lparr>dq := close_loop (dq s)\<rparr>)"

inductive_cases dq_stepE: "dq_step dumps s t"

text \<open>What is between \<open>popleft\<close> and the return of \<open>_deliver\<close>.\<close>

definition in_flight :: "'m delivery_queue \<Rightarrow> 'm list" where
  "in_flight q = (case task q of Delivering m \<Rightarrow> [m] | _ \<Rightarrow> [])"

definition awake :: "'m delivery_queue \<Rightarrow> bool" where
  "awake q \<longleftrightarrow> task q = InnerLoop \<or> (\<exists>m. task q = Delivering m) \<or> event_set q \<or> 0 < wakes q"

text \<open>
  The invariant. While the task has not been cancelled nothing is lost or reordered, and a
  queue with a message in it has a drain that runs or will run.
\<close>

definition dq_inv :: "('m \<Rightarrow> pystr) \<Rightarrow> 'm dq_sys \<Rightarrow> bool" where
  "dq_inv dumps s \<longleftrightarrow>
     dq.balanced (dq s)
   \<and> (\<forall>i \<in> set (queue (dq s)). snd i = length (dumps (fst i)))
   \<and> loop (dq s) \<noteq> NoLoop \<and> task (dq s) \<noteq> NotStarted
   \<and> (task (dq s) \<noteq> TaskDone \<longrightarrow>
        accepted s = delivered s @ in_flight (dq s) @ map fst (queue (dq s)))
   \<and> (task (dq s) = TaskDone \<longrightarrow> shut (dq s))
   \<and> (cancel_pending (dq s) \<longrightarrow> shut (dq s))
   \<and> (loop (dq s) = OpenLoop \<and> queue (dq s) \<noteq> [] \<and> task (dq s) \<noteq> TaskDone \<longrightarrow> awake (dq s))"

text \<open>One preservation lemma per kind of step.\<close>

lemmas dq_inv_unfold = dq_inv_def in_flight_def awake_def dq.balanced_def

lemma dq_inv_init: "dq_init s \<Longrightarrow> dq_inv dumps s"
  by (simp add: dq_init_def dq_inv_unfold start_def new_queue_def)

lemma dq_inv_append:
  assumes "dq_inv dumps s"
  shows "dq_inv dumps (s\<lparr>dq := append_and_wake (m, length (dumps m)) (dq s), accepted := accepted s @ [m]\<rparr>)"
  using assms by (auto simp: dq_inv_unfold split: drain_pc.splits)

lemma push_open [simp]: "\<not> shut q \<Longrightarrow> loop q = OpenLoop \<Longrightarrow>
    push dumps m q = append_and_wake (m, length (dumps m)) q"
  by (simp add: push_def)

lemma push_effect: "dq_inv dumps s \<Longrightarrow>
    push dumps m (dq s) =
      (if push_accepts (dq s) then append_and_wake (m, length (dumps m)) (dq s) else dq s)"
  by (cases "loop (dq s)") (auto simp: push_def push_accepts_def dq_inv_def)

lemma dq_inv_push:
  assumes "dq_inv dumps s"
  shows "dq_inv dumps (s\<lparr>dq := push dumps m (dq s),
           accepted := accepted s @ (if push_accepts (dq s) then [m] else [])\<rparr>)"
  using dq_inv_append [OF assms, of m] assms by (simp add: push_effect [OF assms])

lemma dq_inv_push_terminal:
  "dq_inv dumps s \<Longrightarrow> push_terminal dumps m c (dq s) = Queued q' \<Longrightarrow>
     dq_inv dumps (s\<lparr>dq := q', accepted := accepted s @ [m]\<rparr>)"
  by (simp add: push_terminal_Queued_iff dq_inv_append)

lemma dq_inv_wake: "dq_inv dumps s \<Longrightarrow> 0 < wakes (dq s) \<Longrightarrow> dq_inv dumps (s\<lparr>dq := run_wake (dq s)\<rparr>)"
  by (auto simp: dq_inv_unfold run_wake_def split: drain_pc.splits)

lemma dq_inv_drain:
  assumes inv: "dq_inv dumps s" and step: "drain (dq s) = Some (q', out)"
  shows "dq_inv dumps (s\<lparr>dq := q', delivered := delivered s @ out\<rparr>)"
  using assms by (auto simp: dq_inv_unfold drain_def split: drain_pc.splits list.splits if_splits)

lemma dq_inv_shutdown: "dq_inv dumps s \<Longrightarrow> dq_inv dumps (s\<lparr>dq := fst (shutdown (dq s))\<rparr>)"
  by (auto simp: dq_inv_unfold shutdown_def Let_def split: drain_pc.splits)

lemma dq_inv_cancel: "dq_inv dumps s \<Longrightarrow> cancel_pending (dq s) \<Longrightarrow> dq_inv dumps (s\<lparr>dq := run_cancel (dq s)\<rparr>)"
  by (auto simp: dq_inv_unfold run_cancel_def)

lemma dq_inv_close: "dq_inv dumps s \<Longrightarrow> dq_inv dumps (s\<lparr>dq := close_loop (dq s)\<rparr>)"
  by (auto simp: dq_inv_unfold close_loop_def split: drain_pc.splits)

lemmas dq_inv_steps = dq_inv_push dq_inv_push_terminal dq_inv_wake dq_inv_drain dq_inv_shutdown
  dq_inv_cancel dq_inv_close

interpretation dqs: invariant_system dq_init "dq_step dumps" "dq_inv dumps" for dumps
  by unfold_locales (auto intro: dq_inv_init elim!: dq_stepE intro!: dq_inv_steps)

section \<open>The loop running alone\<close>

text \<open>
  What the event loop does when no other thread moves: the drain when it can, otherwise one
  scheduled \<open>event.set\<close>. The fuel counts these steps.
\<close>

fun run_loop :: "nat \<Rightarrow> 'm dq_sys \<Rightarrow> 'm dq_sys" where
  "run_loop 0 s = s"
| "run_loop (Suc n) s =
     (case drain (dq s) of
        Some (q', out) \<Rightarrow> run_loop n (s\<lparr>dq := q', delivered := delivered s @ out\<rparr>)
      | None \<Rightarrow> if 0 < wakes (dq s) then run_loop n (s\<lparr>dq := run_wake (dq s)\<rparr>) else s)"

lemma run_loop_steps: "(dq_step dumps)\<^sup>*\<^sup>* s (run_loop n s)"
proof (induction n arbitrary: s)
  case 0
  then show ?case by simp
next
  case (Suc n)
  show ?case
  proof (cases "drain (dq s)")
    case None
    then show ?thesis
      using Suc [of "s\<lparr>dq := run_wake (dq s)\<rparr>"]
      by (auto intro: converse_rtranclp_into_rtranclp do_wake)
  next
    case (Some r)
    obtain q' out where r: "r = (q', out)" by force
    with Some have "dq_step dumps s (s\<lparr>dq := q', delivered := delivered s @ out\<rparr>)"
      by (auto intro: do_drain)
    then show ?thesis
      using Some r Suc [of "s\<lparr>dq := q', delivered := delivered s @ out\<rparr>"]
      by (simp add: converse_rtranclp_into_rtranclp)
  qed
qed

lemma run_loop_idle:
  "queue (dq s) = [] \<Longrightarrow> task (dq s) = AwaitEvent \<or> task (dq s) = InnerLoop \<Longrightarrow>
     delivered (run_loop n s) = delivered s"
  by (induction n arbitrary: s) (auto simp: drain_def run_wake_def)

lemma run_loop_inner:
  "task (dq s) = InnerLoop \<Longrightarrow> length (queue (dq s)) = k \<Longrightarrow> 2 * k \<le> n \<Longrightarrow>
     delivered (run_loop n s) = delivered s @ map fst (queue (dq s))"
proof (induction k arbitrary: s n)
  case 0
  then show ?case by (simp add: run_loop_idle)
next
  case (Suc k)
  then obtain m sz rest where q: "queue (dq s) = (m, sz) # rest"
    by (metis length_Suc_conv surj_pair)
  obtain n' where n: "n = Suc (Suc n')" "2 * k \<le> n'"
    using Suc.prems by (metis Suc_le_D add_2_eq_Suc mult_Suc_right not_less_eq_eq)
  define s' where "s' = s\<lparr>dq := (popleft (dq s))\<lparr>task := InnerLoop\<rparr>, delivered := delivered s @ [m]\<rparr>"
  have "run_loop n s = run_loop n' s'"
    using Suc.prems q n by (simp add: drain_def s'_def)
  moreover have "delivered (run_loop n' s') = delivered s' @ map fst (queue (dq s'))"
    by (rule Suc.IH) (use Suc.prems q n in \<open>auto simp: s'_def\<close>)
  ultimately show ?case using q by (simp add: s'_def)
qed


lemma run_loop_woken:
  assumes "task (dq s) = AwaitEvent" "event_set (dq s)" "2 * length (queue (dq s)) < n"
  shows "delivered (run_loop n s) = delivered s @ map fst (queue (dq s))"
proof -
  obtain n' where n: "n = Suc n'" "2 * length (queue (dq s)) \<le> n'"
    using assms(3) by (cases n) auto
  have "run_loop n s = run_loop n' (s\<lparr>dq := (dq s)\<lparr>task := InnerLoop\<rparr>, delivered := delivered s @ []\<rparr>)"
    using assms(1,2) n by (simp add: drain_def)
  then show ?thesis using n(2) by (simp add: run_loop_inner)
qed

lemma run_loop_scheduled:
  assumes "task (dq s) = AwaitEvent" "event_set (dq s) \<or> 0 < wakes (dq s)"
    "2 * length (queue (dq s)) + 1 < n"
  shows "delivered (run_loop n s) = delivered s @ map fst (queue (dq s))"
proof (cases "event_set (dq s)")
  case True
  then show ?thesis using assms by (simp add: run_loop_woken)
next
  case False
  obtain n' where n: "n = Suc n'" "2 * length (queue (dq s)) < n'"
    using assms(3) by (cases n) auto
  have "run_loop n s = run_loop n' (s\<lparr>dq := run_wake (dq s)\<rparr>)"
    using assms False n by (simp add: drain_def)
  then show ?thesis using n(2) assms(1) by (simp add: run_loop_woken run_wake_def)
qed

lemma run_loop_delivering:
  assumes "task (dq s) = Delivering m" "2 * length (queue (dq s)) < n"
  shows "delivered (run_loop n s) = delivered s @ m # map fst (queue (dq s))"
proof -
  obtain n' where n: "n = Suc n'" "2 * length (queue (dq s)) \<le> n'"
    using assms(2) by (cases n) auto
  have "run_loop n s = run_loop n' (s\<lparr>dq := (dq s)\<lparr>task := InnerLoop\<rparr>, delivered := delivered s @ [m]\<rparr>)"
    using assms(1) n by (simp add: drain_def)
  then show ?thesis using n(2) by (simp add: run_loop_inner)
qed

text \<open>
  From every reachable configuration whose loop is open and whose drain has not been
  cancelled, \<open>2 * length queue + 2\<close> loop steps deliver everything accepted: one for a
  scheduled wake-up, one to leave the wait (or to finish the message being delivered), and
  two for each message still queued.
\<close>

lemma run_loop_delivers:
  assumes inv: "dq_inv dumps s" and "open": "loop (dq s) = OpenLoop" and live: "task (dq s) \<noteq> TaskDone"
    and n: "2 * length (queue (dq s)) + 2 \<le> n"
  shows "delivered (run_loop n s) = accepted s"
proof -
  from inv live have acc: "accepted s = delivered s @ in_flight (dq s) @ map fst (queue (dq s))"
    by (simp add: dq_inv_def)
  show ?thesis
  proof (cases "task (dq s)")
    case AwaitEvent
    show ?thesis
    proof (cases "queue (dq s) = []")
      case True
      then show ?thesis using AwaitEvent acc by (simp add: run_loop_idle in_flight_def)
    next
      case False
      then have "event_set (dq s) \<or> 0 < wakes (dq s)"
        using AwaitEvent inv "open" by (auto simp: dq_inv_def awake_def)
      then show ?thesis using AwaitEvent acc n by (simp add: run_loop_scheduled in_flight_def)
    qed
  next
    case InnerLoop
    then show ?thesis using acc n by (simp add: run_loop_inner in_flight_def)
  next
    case (Delivering m)
    then show ?thesis using acc n by (simp add: run_loop_delivering in_flight_def)
  qed (use inv live in \<open>auto simp: dq_inv_def\<close>)
qed

lemma run_loop_frame:
  "accepted (run_loop n s) = accepted s"
  "loop (dq (run_loop n s)) = loop (dq s)"
  "shut (dq (run_loop n s)) = shut (dq s)"
  "task (dq s) \<noteq> TaskDone \<Longrightarrow> task (dq (run_loop n s)) \<noteq> TaskDone"
  by (induction n arbitrary: s)
    (auto simp: drain_def run_wake_def split: drain_pc.splits list.splits if_splits option.splits prod.splits)

lemma run_loop_reachable:
  "reachable dq_init (dq_step dumps) s \<Longrightarrow> reachable dq_init (dq_step dumps) (run_loop n s)"
  by (rule dqs.reachable_steps [OF _ run_loop_steps])

declare run_loop.simps(2) [simp del]

lemma run_loop_drained:
  assumes reach: "reachable dq_init (dq_step dumps) s"
    and "open": "loop (dq s) = OpenLoop" and live: "task (dq s) \<noteq> TaskDone"
  defines "s' \<equiv> run_loop (2 * length (queue (dq s)) + 2) s"
  shows "queue (dq s') = []" "bytes (dq s') = 0"
proof -
  have inv: "dq_inv dumps s'"
    unfolding s'_def by (rule dqs.reachable_inv [OF run_loop_reachable [OF reach]])
  have "delivered s' = accepted s'"
    unfolding s'_def run_loop_frame
    by (rule run_loop_delivers [OF dqs.reachable_inv [OF reach] "open" live order_refl])
  with inv live show "queue (dq s') = []"
    by (simp add: dq_inv_def s'_def run_loop_frame)
  with inv show "bytes (dq s') = 0"
    by (simp add: dq_inv_def dq.balanced_empty)
qed

text \<open>A reachable configuration with one message in the queue, for the witnesses.\<close>

definition one_message :: "nat dq_sys" where
  "one_message = \<lparr>dq = append_and_wake (7, 1) (start new_queue), accepted = [7], delivered = []\<rparr>"

lemma one_message_reachable: "reachable dq_init (dq_step (\<lambda>m. [m])) one_message"
proof -
  let ?s = "\<lparr>dq = start new_queue, accepted = [], delivered = []\<rparr> :: nat dq_sys"
  have "reachable dq_init (dq_step (\<lambda>m. [m])) ?s"
    by (rule reach_init) (simp add: dq_init_def)
  then have "reachable dq_init (dq_step (\<lambda>m. [m]))
      (?s\<lparr>dq := push (\<lambda>m. [m]) 7 (dq ?s), accepted := accepted ?s @ (if push_accepts (dq ?s) then [7] else [])\<rparr>)"
    by (rule reach_step) (rule do_push)
  then show ?thesis by (simp add: one_message_def push_accepts_def start_def new_queue_def)
qed

section \<open>Properties\<close>

text \<open>
  C10: in every reachable interleaving of pushes, terminal pushes, wake-ups, drain steps,
  shutdown and cancellation, and until the drain is cancelled, the messages handed to
  delivery, the one in flight and the ones still queued are together exactly the messages
  accepted, in the order they were accepted: none is lost, duplicated or reordered; and the
  byte count is the total size of the queued messages.
\<close>
theorem delivery_fifo:
  assumes "reachable dq_init (dq_step dumps) s"
  shows "(task (dq s) \<noteq> TaskDone \<longrightarrow>
            accepted s = delivered s @ in_flight (dq s) @ map fst (queue (dq s)))
       \<and> bytes (dq s) = int (\<Sum>m \<leftarrow> map fst (queue (dq s)). length (dumps m))"
proof -
  have inv: "dq_inv dumps s" using assms by (rule dqs.reachable_inv)
  then have "map snd (queue (dq s)) = map (\<lambda>m. length (dumps m)) (map fst (queue (dq s)))"
    by (auto simp: dq_inv_def)
  then have "sum_list (map snd (queue (dq s))) = (\<Sum>m \<leftarrow> map fst (queue (dq s)). length (dumps m))"
    by (rule arg_cong)
  with inv show ?thesis
    by (simp add: dq_inv_def dq.balanced_def)
qed

theorem delivery_fifo_witness:
  "accepted one_message = delivered one_message @ in_flight (dq one_message) @ map fst (queue (dq one_message))
   \<and> bytes (dq one_message) = 1"
  using delivery_fifo [OF one_message_reachable]
  by (simp add: one_message_def start_def new_queue_def)

text \<open>
  C9: no wake-up is lost. From every reachable configuration with an open loop and a drain
  that was not cancelled, the event loop alone, in at most \<open>2 * length queue + 2\<close> of its
  steps, delivers every message accepted so far.
\<close>
theorem delivery_no_lost_wakeup:
  assumes "reachable dq_init (dq_step dumps) s"
    and "loop (dq s) = OpenLoop" and "task (dq s) \<noteq> TaskDone"
  shows "delivered (run_loop (2 * length (queue (dq s)) + 2) s) = accepted s"
  by (rule run_loop_delivers [OF dqs.reachable_inv [OF assms(1)] assms(2,3) order_refl])

theorem delivery_no_lost_wakeup_witness: "delivered (run_loop 4 one_message) = [7]"
  using delivery_no_lost_wakeup [OF one_message_reachable]
  by (simp add: one_message_def start_def new_queue_def)

text \<open>
  Terminal output never enters the reserved tenth of the queue, and the back-pressure
  that keeps it out always ends. A terminal message that is queued leaves at most nine
  tenths of the byte and item capacity in use; a message is never refused while the run
  continues and the queue is not shut down; and once the loop has drained a reachable queue,
  a message of at most nine tenths of the byte capacity is queued at its next attempt.
\<close>
theorem terminal_backpressure:
  assumes "reachable dq_init (dq_step dumps) s"
    and "loop (dq s) = OpenLoop" and "task (dq s) \<noteq> TaskDone" and "\<not> shut (dq s)"
    and "10 * length (dumps m) \<le> 9 * DELIVERY_QUEUE_MAX_BYTES"
  shows "(case push_terminal dumps m True (dq s) of
            Queued q' \<Rightarrow> 10 * bytes q' \<le> 9 * int DELIVERY_QUEUE_MAX_BYTES
                      \<and> 10 * length (queue q') \<le> 9 * DELIVERY_QUEUE_MAX_ITEMS
          | Wait \<Rightarrow> queue (dq s) \<noteq> []
          | Refused \<Rightarrow> False)
       \<and> (\<exists>n q'. push_terminal dumps m True (dq (run_loop n s)) = Queued q')"
proof (intro conjI exI)
  have inv: "dq_inv dumps s" using assms(1) by (rule dqs.reachable_inv)
  have bytes0: "bytes (dq s) = 0" if "queue (dq s) = []"
    using inv that by (simp add: dq_inv_def dq.balanced_empty)
  show "case push_terminal dumps m True (dq s) of
            Queued q' \<Rightarrow> 10 * bytes q' \<le> 9 * int DELIVERY_QUEUE_MAX_BYTES
                      \<and> 10 * length (queue q') \<le> 9 * DELIVERY_QUEUE_MAX_ITEMS
          | Wait \<Rightarrow> queue (dq s) \<noteq> []
          | Refused \<Rightarrow> False"
  proof (cases "push_terminal dumps m True (dq s)")
    case Refused
    then show ?thesis using assms(4) by (simp add: push_terminal_def Let_def split: if_splits)
  next
    case (Queued q')
    then have "10 * bytes q' \<le> 9 * int DELIVERY_QUEUE_MAX_BYTES
        \<and> 10 * length (queue q') \<le> 9 * DELIVERY_QUEUE_MAX_ITEMS"
      by (auto simp: push_terminal_Queued_iff)
    with Queued show ?thesis by simp
  next
    case Wait
    moreover have "push_terminal dumps m True (dq s) = Queued (append_and_wake (m, length (dumps m)) (dq s))"
      if "queue (dq s) = []"
      using that bytes0 assms(4,5) by (simp add: push_terminal_Queued_iff DELIVERY_QUEUE_MAX_ITEMS_def)
    ultimately show ?thesis by auto
  qed
  let ?s' = "run_loop (2 * length (queue (dq s)) + 2) s"
  show "push_terminal dumps m True (dq ?s') = Queued (append_and_wake (m, length (dumps m)) (dq ?s'))"
    using run_loop_drained [OF assms(1-3)] assms(4,5)
    by (simp add: push_terminal_Queued_iff run_loop_frame DELIVERY_QUEUE_MAX_ITEMS_def)
qed

theorem terminal_backpressure_witness:
  "\<exists>n q'. push_terminal (\<lambda>m. [m]) (9::nat) True (dq (run_loop n one_message)) = Queued q'"
  using terminal_backpressure [OF one_message_reachable, of 9]
  by (simp add: one_message_def start_def new_queue_def DELIVERY_QUEUE_MAX_BYTES_def)

text \<open>
  \<open>push\<close> has no bound of its own. However many non-terminal messages are pushed before
  the drain runs, all of them are held, whatever their size; the module's description of a
  queue "bounded by bytes and items" is true of terminal output only.
\<close>
theorem push_unbounded:
  "queue ((push dumps m ^^ n) (start new_queue)) = replicate n (m, length (dumps m))
   \<and> bytes ((push dumps m ^^ n) (start new_queue)) = int (n * length (dumps m))"
proof (induction n)
  case 0
  show ?case by (simp add: start_def new_queue_def)
next
  case (Suc n)
  have "loop ((push dumps m ^^ n) (start new_queue)) = OpenLoop
      \<and> \<not> shut ((push dumps m ^^ n) (start new_queue))"
    by (induction n) (auto simp: start_def new_queue_def)
  then show ?case
    using Suc by (simp add: replicate_append_same algebra_simps)
qed

end
