(* ===== verification/Server_Stop.thy ===== *)
theory Server_Stop
  imports Ssh_Teardown Delivery_Queue Debug_Log
begin

text \<open>
  Stopping the server (\<open>lifespan\<close> of \<open>main.py\<close> after its \<open>yield\<close>): the delivery queue is shut down, every
  SSH session is disconnected, the debug log is closed. What starting does is in \<open>Device_Store\<close>.

  The code after the \<open>yield\<close> does not await: nothing else runs on the event loop meanwhile (the polling
  and idle tasks are cancelled first). The disconnects are run to the end without a step of a worker
  thread in between; what a worker that outlives its session can still do is in \<open>Ssh_Properties\<close>.
\<close>

record dashboard =
  d_queue :: "pushed delivery_queue"
  d_ssh :: manager
  d_log :: debug_state

text \<open>What the session manager pushed on its way from \<open>m\<close> to \<open>m'\<close> goes to the delivery queue.\<close>

definition hand_pushed :: "(pushed \<Rightarrow> pystr) \<Rightarrow> manager \<Rightarrow> manager \<Rightarrow> pushed delivery_queue \<Rightarrow> pushed delivery_queue" where
  "hand_pushed dumps m m' q = fold (push dumps) (drop (length (pushes m)) (pushes m')) q"

text \<open>\<open>d'\<close> is a state the shutdown can end in; \<open>ok\<close> says whether the log's last line can be written.\<close>

definition stops :: "env \<Rightarrow> (pushed \<Rightarrow> pystr) \<Rightarrow> bool \<Rightarrow> dashboard \<Rightarrow> dashboard \<Rightarrow> bool" where
  "stops e dumps ok d d' \<longleftrightarrow>
     (let q = fst (shutdown (d_queue d)); m = d_ssh d
      in \<exists>m'. runs e (disconnect_all ''server shutdown'' m) m m'
          \<and> d' = \<lparr>d_queue = hand_pushed dumps m m' q, d_ssh = m', d_log = close_on_shutdown ok (d_log d)\<rparr>)"

section \<open>Closing every slot\<close>

text \<open>A close that names no session closes the one in the slot.\<close>

lemma runs_close_any:
  assumes cur: "current m d = Some r"
  obtains m1 where "torn [(d, r)] m m1"
    "\<And>rest m''. runs e (CloseSlot d None reason # rest) m m'' \<longleftrightarrow> runs e rest m1 m''"
    "\<And>rest m''. runs e (CloseSlot d (Some r) reason # rest) m m'' \<longleftrightarrow> runs e rest m1 m''"
proof
  let ?m = "edit r close_session (clear_pending d (edit r retire (drop_slot d m)))"
  let ?m' = "lock_msg d False None (status_msg d ''idle'' (Some (s_owner (store m r))) None reason
      (log_msg d disconnected_text ''muted'' (Some (s_owner (store m r))) None None ?m))"
  show "torn [(d, r)] m ?m'" by (simp add: torn_def clear_pending_def drop_slot_def dict_simps)
  show "runs e (CloseSlot d None reason # rest) m m'' \<longleftrightarrow> runs e rest ?m' m''" for rest m''
    by (simp add: runs_act close_slot_def cur)
  show "runs e (CloseSlot d (Some r) reason # rest) m m'' \<longleftrightarrow> runs e rest ?m' m''" for rest m''
    by (simp add: runs_act close_slot_def cur)
qed

lemma runs_close_named:
  "closable xs m \<Longrightarrow> runs e (map (\<lambda>did. CloseSlot did None reason) (map fst xs) @ rest) m m''
     \<longleftrightarrow> runs e (concat (map (announced False [] reason) xs) @ rest) m m''"
proof (induction xs arbitrary: m)
  case (Cons x xs)
  obtain d r where x: "x = (d, r)" by force
  have cur: "current m d = Some r" using Cons.prems by (auto simp: closable_def x)
  obtain m1 where m1: "torn [(d, r)] m m1"
    "\<And>rest m''. runs e (CloseSlot d None reason # rest) m m'' \<longleftrightarrow> runs e rest m1 m''"
    "\<And>rest m''. runs e (CloseSlot d (Some r) reason # rest) m m'' \<longleftrightarrow> runs e rest m1 m''"
    using runs_close_any [OF cur] by blast
  have "closable xs m1" using closable_tl [of d r xs m m1] Cons.prems m1(1) x by simp
  then show ?case using Cons.IH [of m1] by (simp add: x m1 announced_def)
qed simp

lemma disconnect_all_runs:
  assumes inv: "ssh_inv m A"
  shows "runs e (disconnect_all reason m) m m'' \<longleftrightarrow>
    runs e (concat (map (announced False [] reason) (sessions m)) @ [ClearActivity]) m m''"
  using runs_close_named [OF closable_all [OF inv], of e reason "[ClearActivity]" m'']
  by (simp add: disconnect_all_def)

lemma torn_all:
  assumes inv: "ssh_inv m A" and t: "torn (sessions m) m m'"
  shows "current m' d = None"
    "current m d = Some r \<Longrightarrow> s_state (store m' r) = Closed \<and> s_password (store m' r) = None \<and> \<not> s_client (store m' r)"
proof -
  show "current m' d = None" using t by (auto simp: torn_def map_of_eq_None_iff)
  show "s_state (store m' r) = Closed \<and> s_password (store m' r) = None \<and> \<not> s_client (store m' r)"
    if "current m d = Some r"
    using t map_of_SomeD [OF that] by (force simp: torn_def)
qed

lemma shut_push: "shut q \<Longrightarrow> fold (push dumps) ps q = q"
  by (induction ps) (simp_all add: push_def)

lemma shutdown_simps [simp]: "shut (fst (shutdown q))" "queue (fst (shutdown q)) = queue q"
  by (simp_all add: shutdown_def Let_def)

text \<open>
  C15. Stopping the server leaves nothing behind. From every reachable state the shutdown, undisturbed by the
  worker threads, runs to its end; then no
  device is held any more, each session that held one is closed without its password and its connection, no idle
  clock runs, nothing new is queued for the browsers, whose delivery has been cancelled, and the debug log is
  off with its file closed, even when its last line cannot be written.
\<close>

theorem stop_complete:
  assumes "ssh_reachable s" and d: "d_ssh d = mgr s" "d_log d = debug_run ops" "loop (d_queue d) = OpenLoop"
  shows "(\<exists>d'. stops e dumps ok d d') \<and> snd (shutdown (d_queue d))
    \<and> (\<forall>d'. stops e dumps ok d d' \<longrightarrow>
        (\<forall>did. current (d_ssh d') did = None)
      \<and> (\<forall>did r. current (mgr s) did = Some r \<longrightarrow> s_state (store (d_ssh d') r) = Closed
            \<and> s_password (store (d_ssh d') r) = None \<and> \<not> s_client (store (d_ssh d') r))
      \<and> activity (d_ssh d') = []
      \<and> queue (d_queue d') = queue (d_queue d) \<and> shut (d_queue d')
      \<and> (task (d_queue d') \<notin> {NotStarted, TaskDone} \<longrightarrow> cancel_pending (d_queue d'))
      \<and> \<not> debug_enabled (d_log d') \<and> attached (d_log d') = [] \<and> open_files (d_log d') = [])"
proof -
  note inv = ssh.reachable_inv [OF assms(1)]
  note cl = closable_all [OF inv]
  have "\<exists>m'. runs e (disconnect_all reason (mgr s)) (mgr s) m'" for reason
    unfolding disconnect_all_runs [OF inv, of e reason]
    by (rule runs_closes_exists [OF cl]) (auto simp: runs_simps)
  moreover have "snd (shutdown (d_queue d))" using d(3) by (simp add: shutdown_def Let_def)
  moreover have "(\<forall>did. current m' did = None) \<and> (\<forall>did r. current (mgr s) did = Some r \<longrightarrow> s_state (store m' r) = Closed
            \<and> s_password (store m' r) = None \<and> \<not> s_client (store m' r)) \<and> activity m' = []"
    if "runs e (disconnect_all reason (mgr s)) (mgr s) m'" for m' reason
  proof -
    note run = that [unfolded disconnect_all_runs [OF inv, of e reason]]
    obtain m1 where t: "torn (sessions (mgr s)) (mgr s) m1" and m': "runs e [ClearActivity] m1 m'"
      using runs_closes [OF cl run] by blast
    have "m' = clear_activity m1" using m' by (simp add: runs_simps)
    then show ?thesis using torn_all [OF inv t] by (simp add: clear_activity_def)
  qed
  moreover have "task (fst (shutdown (d_queue d))) \<notin> {NotStarted, TaskDone} \<longrightarrow> cancel_pending (fst (shutdown (d_queue d)))"
    using d(3) by (simp add: shutdown_def Let_def)
  moreover have "\<not> debug_enabled (close_on_shutdown ok (d_log d)) \<and> attached (close_on_shutdown ok (d_log d)) = []
      \<and> open_files (close_on_shutdown ok (d_log d)) = []"
    using closed_on_shutdown [OF debug_run_inv] d(2) by (simp add: debug_enabled_def)
  ultimately show ?thesis
    unfolding stops_def Let_def d(1) by (auto simp: hand_pushed_def shut_push)
qed

definition running_dashboard :: dashboard where
  "running_dashboard = \<lparr>d_queue = start new_queue, d_ssh = mgr alice_connected,
     d_log = debug_run [Configure, Toggle True True True True]\<rparr>"

theorem stop_complete_witness:
  "\<exists>d'. stops any_env (\<lambda>p. [0]) False running_dashboard d' \<and> current (d_ssh d') ''d1'' = None
     \<and> s_password (store (d_ssh d') 0) = None \<and> queue (d_queue d') = [] \<and> open_files (d_log d') = []"
proof -
  have q: "loop (d_queue running_dashboard) = OpenLoop" "queue (d_queue running_dashboard) = []"
    by (simp_all add: running_dashboard_def start_def new_queue_def)
  have r: "d_ssh running_dashboard = mgr alice_connected"
    "d_log running_dashboard = debug_run [Configure, Toggle True True True True]"
    by (simp_all add: running_dashboard_def)
  have c: "current (mgr alice_connected) ''d1'' = Some 0"
    by (simp add: alice_connected_def alice_connects_def trace_defs)
  show ?thesis
    using stop_complete [OF alice_reachable(3) r q(1), of any_env "\<lambda>p. [0]" False] c q(2) by auto
qed

end
