(* ===== verification/Sudo_Gate.thy ===== *)
theory Sudo_Gate
  imports Prelude "HOL-Library.Sublist" "HOL-Library.Product_Lexorder"
begin

text \<open>
  The sudo half of \<open>terminal_run.py\<close>: \<open>build_command\<close> wraps a command so that sudo
  prints a random phrase when it wants the password and the wrapper prints a random mark
  once the password was accepted; \<open>SudoGate\<close> reads the channel's bytes, asks for the
  password at the first phrase, gives up at the second, and lets output through only after
  the mark. The reads may cut the phrase and the mark anywhere; the theorems say the cuts
  do not matter and give the gate's decision as a function of the whole stream.
\<close>

section \<open>The wrapped command\<close>

text \<open>\<open>shlex.quote\<close>: a string of safe characters stays, anything else is single-quoted.\<close>

definition shell_safe :: "nat \<Rightarrow> bool" where
  "shell_safe c \<longleftrightarrow> (48 \<le> c \<and> c \<le> 57) \<or> (65 \<le> c \<and> c \<le> 90) \<or> (97 \<le> c \<and> c \<le> 122)
     \<or> c \<in> set (lit ''_@%+=:,./-'')"

definition shlex_quote :: "pystr \<Rightarrow> pystr" where
  "shlex_quote s =
     (if s = [] then [39, 39]
      else if \<forall>c \<in> set s. shell_safe c then s
      else [39] @ concat (map (\<lambda>c. if c = 39 then [39, 34, 39, 34, 39] else [c]) s) @ [39])"

text \<open>The two \<open>secrets.token_hex(16)\<close> values are arguments.\<close>

definition build_command ::
  "pystr \<Rightarrow> pystr \<Rightarrow> pystr \<Rightarrow> bool \<Rightarrow> pystr \<times> pystr option \<times> pystr option" where
  "build_command token1 token2 raw_cmd use_sudo =
     (if \<not> use_sudo then (raw_cmd, None, None)
      else
        let phrase = lit ''SNDsudoprompt'' @ token1;
            mark = lit ''SNDtermmark'' @ token2;
            whole = (if prefix (lit ''sudo '') raw_cmd then raw_cmd
                     else lit ''sudo bash -c '' @ shlex_quote raw_cmd);
            command = lit ''set +x 2>/dev/null; sudo -S -p '' @ shlex_quote phrase
              @ lit '' -v || exit 97; printf '' @ [39] @ lit ''%s'' @ [39] @ lit '' '' @ shlex_quote mark
              @ lit ''; exec bash -c '' @ shlex_quote whole
        in (command, Some phrase, Some mark))"

section \<open>State\<close>

record sudo_gate =
  phrase :: bytestr
  mark :: bytestr
  pending :: bytestr
  asked :: bool
  refused :: bool
  passed :: bool

definition new_gate :: "bytestr \<Rightarrow> bytestr \<Rightarrow> sudo_gate" where
  "new_gate ph mk = \<lparr>phrase = ph, mark = mk, pending = [], asked = False, refused = False, passed = False\<rparr>"

record gate_event =
  send_password :: bool
  ev_refused :: bool
  ev_output :: bytestr

text \<open>
  The kind in a candidate \<open>(at, kind)\<close> is a string in the source, and \<open>min\<close> breaks a
  tie of positions on it: "mark" sorts before "phrase".
\<close>

datatype kind = Mark | Phrase

instantiation kind :: linorder
begin

definition less_eq_kind :: "kind \<Rightarrow> kind \<Rightarrow> bool" where
  "less_eq_kind a b \<longleftrightarrow> a = Mark \<or> b = Phrase"

definition less_kind :: "kind \<Rightarrow> kind \<Rightarrow> bool" where
  "less_kind a b \<longleftrightarrow> a = Mark \<and> b = Phrase"

instance
  by standard (auto simp: less_eq_kind_def less_kind_def intro: kind.exhaust)

end

section \<open>Operations\<close>

text \<open>\<open>bytes.find\<close>: the first position where the pattern stands.\<close>

fun find_sub :: "bytestr \<Rightarrow> bytestr \<Rightarrow> nat option" where
  "find_sub pat [] = (if pat = [] then Some 0 else None)"
| "find_sub pat (c # cs) =
     (if prefix pat (c # cs) then Some 0 else map_option Suc (find_sub pat cs))"

definition candidates :: "sudo_gate \<Rightarrow> bytestr \<Rightarrow> (nat \<times> kind) list" where
  "candidates g buf =
     (case find_sub (phrase g) buf of None \<Rightarrow> [] | Some i \<Rightarrow> [(i, Phrase)])
     @ (case find_sub (mark g) buf of None \<Rightarrow> [] | Some i \<Rightarrow> [(i, Mark)])"

text \<open>The loop over \<open>range(keep, 0, -1)\<close> in \<open>_suffix_prefix\<close>.\<close>

fun longest_kept :: "sudo_gate \<Rightarrow> bytestr \<Rightarrow> nat \<Rightarrow> bytestr" where
  "longest_kept g data 0 = []"
| "longest_kept g data (Suc n) =
     (let suff = last_n (Suc n) data
      in if prefix suff (phrase g) \<or> prefix suff (mark g) then suff else longest_kept g data n)"

definition suffix_prefix :: "sudo_gate \<Rightarrow> bytestr \<Rightarrow> bytestr" where
  "suffix_prefix g data =
     longest_kept g data (min (length data) (max (length (phrase g)) (length (mark g)) - 1))"

text \<open>
  The \<open>while buf\<close> loop of \<open>feed\<close>: it goes round again only after the first phrase, so
  it runs at most twice.
\<close>

function gate_loop :: "sudo_gate \<Rightarrow> bool \<Rightarrow> bytestr \<Rightarrow> sudo_gate \<times> gate_event" where
  "gate_loop g sp buf =
     (if buf = [] then (g, \<lparr>send_password = sp, ev_refused = False, ev_output = []\<rparr>)
      else case candidates g buf of
        [] \<Rightarrow> (g\<lparr>pending := suffix_prefix g buf\<rparr>,
               \<lparr>send_password = sp, ev_refused = False, ev_output = []\<rparr>)
      | c # cs \<Rightarrow>
          let (at, k) = fold min cs c
          in if k = Mark
             then (g\<lparr>passed := True\<rparr>, \<lparr>send_password = sp, ev_refused = False,
                     ev_output = drop (at + length (mark g)) buf\<rparr>)
             else if asked g
             then (g\<lparr>refused := True\<rparr>, \<lparr>send_password = sp, ev_refused = True, ev_output = []\<rparr>)
             else gate_loop (g\<lparr>asked := True\<rparr>) True (drop (at + length (phrase g)) buf))"
  by pat_completeness auto
termination
  by (relation "measure (\<lambda>(g, sp, buf). if asked g then 0 else 1)") auto

declare gate_loop.simps [simp del]

definition feed :: "bytestr \<Rightarrow> sudo_gate \<Rightarrow> sudo_gate \<times> gate_event" where
  "feed data g =
     (if passed g then (g, \<lparr>send_password = False, ev_refused = False, ev_output = data\<rparr>)
      else if refused g then (g, \<lparr>send_password = False, ev_refused = True, ev_output = []\<rparr>)
      else gate_loop (g\<lparr>pending := []\<rparr>) False (pending g @ data))"

text \<open>What the reader does with the events: ask for the password, pass bytes on.\<close>

datatype action = Ask | Byte nat

definition actions :: "gate_event \<Rightarrow> action list" where
  "actions e = (if send_password e then [Ask] else []) @ map Byte (ev_output e)"

definition feed_actions :: "bytestr \<Rightarrow> sudo_gate \<Rightarrow> sudo_gate \<times> action list" where
  "feed_actions data g = (let (g', e) = feed data g in (g', actions e))"

section \<open>Searching\<close>

lemma find_sub_first: "find_sub pat xs = Some i \<Longrightarrow> j < i \<Longrightarrow> \<not> prefix pat (drop j xs)"
proof (induction xs arbitrary: i j)
  case Nil
  then show ?case by (auto split: if_splits)
next
  case (Cons c cs)
  then show ?case by (cases j) (fastforce split: if_splits)+
qed

lemma find_sub_None: "find_sub pat xs = None \<Longrightarrow> \<not> prefix pat (drop j xs)"
proof (induction xs arbitrary: j)
  case Nil
  then show ?case by (auto split: if_splits)
next
  case (Cons c cs)
  then show ?case by (cases j) (auto split: if_splits)
qed

lemma find_sub_at: "find_sub pat xs = Some i \<Longrightarrow> prefix pat (drop i xs)"
  by (induction xs arbitrary: i) (auto split: if_splits)

lemma find_sub_le: "find_sub pat xs = Some i \<Longrightarrow> i \<le> length xs"
  by (induction xs arbitrary: i) (fastforce split: if_splits)+

lemma find_sub_end: "find_sub pat xs = Some i \<Longrightarrow> i + length pat \<le> length xs"
  using prefix_length_le [OF find_sub_at, of pat xs i] find_sub_le [of pat xs i] by simp

lemma find_sub_eqI:
  "prefix pat (drop i xs) \<Longrightarrow> (\<And>j. j < i \<Longrightarrow> \<not> prefix pat (drop j xs)) \<Longrightarrow> i \<le> length xs \<Longrightarrow> find_sub pat xs = Some i"
  by (cases "find_sub pat xs") (use find_sub_None find_sub_first find_sub_at in \<open>metis linorder_neqE_nat\<close>)+

lemma find_sub_NoneI:
  assumes "\<And>j. j \<le> length xs \<Longrightarrow> \<not> prefix pat (drop j xs)"
  shows "find_sub pat xs = None"
proof (cases "find_sub pat xs")
  case (Some i)
  then show ?thesis using assms [of i] find_sub_at find_sub_le by blast
qed simp

lemma find_sub_shift:
  "(\<And>j. j < length u \<Longrightarrow> \<not> prefix pat (drop j (u @ xs))) \<Longrightarrow>
     find_sub pat (u @ xs) = map_option ((+) (length u)) (find_sub pat xs)"
proof (induction u)
  case Nil
  then show ?case by (simp add: option.map_ident)
next
  case (Cons c u)
  have "\<not> prefix pat (c # u @ xs)" using Cons.prems [of 0] by simp
  moreover have "\<not> prefix pat (drop j (u @ xs))" if "j < length u" for j
    using Cons.prems [of "Suc j"] that by simp
  ultimately show ?case using Cons.IH by (simp add: option.map_comp comp_def)
qed

section \<open>What the kept suffix can still become\<close>

lemma longest_kept_cases:
  "n \<le> length data \<Longrightarrow> \<exists>k \<le> n. longest_kept g data n = last_n k data
     \<and> (\<forall>m. k < m \<and> m \<le> n \<longrightarrow> \<not> prefix (last_n m data) (phrase g) \<and> \<not> prefix (last_n m data) (mark g))"
proof (induction n)
  case 0
  then show ?case by (auto simp: last_n_def)
next
  case (Suc n)
  show ?case
  proof (cases "prefix (last_n (Suc n) data) (phrase g) \<or> prefix (last_n (Suc n) data) (mark g)")
    case True
    then show ?thesis by (intro exI [of _ "Suc n"]) (auto simp: Let_def)
  next
    case False
    then obtain k where "k \<le> n" "longest_kept g data (Suc n) = last_n k data"
      "\<forall>m. k < m \<and> m \<le> n \<longrightarrow> \<not> prefix (last_n m data) (phrase g) \<and> \<not> prefix (last_n m data) (mark g)"
      using Suc by (auto simp: Let_def)
    with False show ?thesis by (intro exI [of _ k]) (auto simp: le_Suc_eq)
  qed
qed

definition pattern :: "sudo_gate \<Rightarrow> kind \<Rightarrow> bytestr" where
  "pattern g k = (case k of Mark \<Rightarrow> mark g | Phrase \<Rightarrow> phrase g)"

lemma suffix_prefix_split:
  obtains u where "data = u @ suffix_prefix g data"
    and "\<And>j k. j < length u \<Longrightarrow> prefix (drop j data) (pattern g k) \<Longrightarrow>
           length (pattern g k) \<le> length data - j"
proof -
  let ?n = "min (length data) (max (length (phrase g)) (length (mark g)) - 1)"
  obtain k where k: "k \<le> ?n" "suffix_prefix g data = last_n k data"
    and longest: "\<And>m. k < m \<Longrightarrow> m \<le> ?n \<Longrightarrow>
        \<not> prefix (last_n m data) (phrase g) \<and> \<not> prefix (last_n m data) (mark g)"
    using longest_kept_cases [of ?n data g] unfolding suffix_prefix_def by auto
  let ?u = "take (length data - k) data"
  have "data = ?u @ suffix_prefix g data" using k by (simp add: last_n_def)
  moreover have "length (pattern g q) \<le> length data - j"
    if j: "j < length ?u" and pre: "prefix (drop j data) (pattern g q)" for j q
  proof (rule ccontr)
    assume short: "\<not> length (pattern g q) \<le> length data - j"
    let ?m = "length data - j"
    have "last_n ?m data = drop j data" using j by (simp add: last_n_def)
    moreover have "k < ?m" using j k by simp
    moreover have "?m \<le> ?n" using short by (cases q) (auto simp: pattern_def)
    ultimately show False using longest [of ?m] pre by (cases q) (auto simp: pattern_def)
  qed
  ultimately show ?thesis by (rule that)
qed

text \<open>Bytes before the kept suffix can never be the start of a match, whatever follows.\<close>

lemma no_match_before_kept:
  assumes none: "find_sub (pattern g k) buf = None" and split: "buf = u @ suffix_prefix g buf"
    and longest: "\<And>j k. j < length u \<Longrightarrow> prefix (drop j buf) (pattern g k) \<Longrightarrow>
           length (pattern g k) \<le> length buf - j"
    and j: "j < length u"
  shows "\<not> prefix (pattern g k) (drop j (buf @ b))"
proof
  assume "prefix (pattern g k) (drop j (buf @ b))"
  moreover have "j \<le> length buf" using split j by (metis length_append le_add1 less_imp_le order_trans)
  ultimately consider "prefix (pattern g k) (drop j buf)"
    | us where "pattern g k = drop j buf @ us"
    by (auto simp: prefix_append)
  then show False
  proof cases
    case 1
    then show False using find_sub_None [OF none] by blast
  next
    case (2 us)
    then have "length (pattern g k) \<le> length buf - j" using longest [OF j, of k] by simp
    moreover have "length (pattern g k) = (length buf - j) + length us" using 2 by simp
    ultimately have "us = []" by simp
    with 2 have "prefix (pattern g k) (drop j buf)" by simp
    then show False using find_sub_None [OF none] by blast
  qed
qed

lemma find_after_kept:
  assumes "find_sub (pattern g k) buf = None"
  shows "\<exists>u. buf = u @ suffix_prefix g buf
    \<and> find_sub (pattern g k) (buf @ b) = map_option ((+) (length u)) (find_sub (pattern g k) (suffix_prefix g buf @ b))"
proof -
  obtain u where u: "buf = u @ suffix_prefix g buf"
    and longest: "\<And>j k. j < length u \<Longrightarrow> prefix (drop j buf) (pattern g k) \<Longrightarrow>
           length (pattern g k) \<le> length buf - j"
    by (rule suffix_prefix_split [of buf g]) blast
  have "find_sub (pattern g k) (u @ (suffix_prefix g buf @ b))
      = map_option ((+) (length u)) (find_sub (pattern g k) (suffix_prefix g buf @ b))"
    by (rule find_sub_shift)
      (use no_match_before_kept [OF assms u longest] u in \<open>metis append.assoc\<close>)
  then show ?thesis using u by (metis append.assoc)
qed

section \<open>The first match\<close>

text \<open>
  The patterns of \<open>build_command\<close>: neither is a prefix of the other, and their first byte
  occurs nowhere else in them, so occurrences never overlap.
\<close>

definition patterns_ok :: "bytestr \<Rightarrow> bytestr \<Rightarrow> bool" where
  "patterns_ok ph mk \<longleftrightarrow> ph \<noteq> [] \<and> mk \<noteq> [] \<and> \<not> prefix ph mk \<and> \<not> prefix mk ph
     \<and> {hd ph, hd mk} \<inter> (set (tl ph) \<union> set (tl mk)) = {}"

definition gate_ok :: "sudo_gate \<Rightarrow> bool" where
  "gate_ok g \<longleftrightarrow> patterns_ok (phrase g) (mark g)"

lemma pattern_nonempty: "gate_ok g \<Longrightarrow> pattern g k \<noteq> []"
  by (cases k) (auto simp: gate_ok_def patterns_ok_def pattern_def)

lemma pattern_hd_tl: "gate_ok g \<Longrightarrow> hd (pattern g k) \<notin> set (tl (pattern g q))"
  by (cases k; cases q) (auto simp: gate_ok_def patterns_ok_def pattern_def)

lemma pattern_unique: "gate_ok g \<Longrightarrow> prefix (pattern g k) xs \<Longrightarrow> prefix (pattern g q) xs \<Longrightarrow> k = q"
  by (cases k; cases q) (auto simp: gate_ok_def patterns_ok_def pattern_def dest: prefix_same_cases)

lemma no_overlap:
  assumes ok: "gate_ok g" and i: "prefix (pattern g k) (drop i xs)"
    and j: "prefix (pattern g q) (drop j xs)" and ij: "i < j"
  shows "i + length (pattern g k) \<le> j"
proof (rule ccontr)
  assume "\<not> i + length (pattern g k) \<le> j"
  then have lt: "j - i < length (pattern g k)" using ij by simp
  obtain ys where ys: "drop i xs = pattern g k @ ys" using i by (auto elim: prefixE)
  have "drop j xs = drop (j - i) (drop i xs)" using ij by simp
  then have dj: "drop j xs = drop (j - i) (pattern g k) @ ys" using ys lt by simp
  obtain zs where "drop j xs = pattern g q @ zs" using j by (auto elim: prefixE)
  with dj have "hd (pattern g q) = hd (drop (j - i) (pattern g k))"
    using pattern_nonempty [OF ok, of q] lt by (metis drop_eq_Nil hd_append2 leD)
  also have "\<dots> = pattern g k ! (j - i)" using lt by (simp add: hd_drop_conv_nth)
  also have "\<dots> \<in> set (tl (pattern g k))"
    using lt ij by (cases "pattern g k") (auto simp: nth_Cons')
  finally show False using pattern_hd_tl [OF ok] by blast
qed

definition first_match :: "sudo_gate \<Rightarrow> bytestr \<Rightarrow> (nat \<times> kind) option" where
  "first_match g buf = (case candidates g buf of [] \<Rightarrow> None | c # cs \<Rightarrow> Some (fold min cs c))"

lemma first_match_None: "first_match g buf = None \<longleftrightarrow> (\<forall>k. find_sub (pattern g k) buf = None)"
  by (auto simp: first_match_def candidates_def pattern_def split: option.splits kind.splits)

text \<open>The minimum of the candidates: the earlier position, and the mark on a tie.\<close>

lemma min_candidates: "min (j, Mark) (i, Phrase) = (if j \<le> i then (j, Mark) else (i, Phrase))"
  for i j :: nat
  by (auto simp: min_def less_eq_prod_def less_eq_kind_def)

lemma first_match_both:
  "find_sub (phrase g) buf = Some i \<Longrightarrow> find_sub (mark g) buf = Some j \<Longrightarrow>
     first_match g buf = Some (if j \<le> i then (j, Mark) else (i, Phrase))"
  by (simp add: first_match_def candidates_def min_candidates)

lemma first_match_SomeD:
  assumes "first_match g buf = Some (at, k)"
  shows "find_sub (pattern g k) buf = Some at"
    and "find_sub (pattern g q) buf = Some i \<Longrightarrow> at \<le> i"
proof -
  have "find_sub (pattern g k) buf = Some at \<and> (\<forall>i. find_sub (pattern g q) buf = Some i \<longrightarrow> at \<le> i)"
  proof (cases "find_sub (phrase g) buf"; cases "find_sub (mark g) buf")
    fix i j
    assume *: "find_sub (phrase g) buf = Some i" "find_sub (mark g) buf = Some j"
    from assms first_match_both [OF *] show ?thesis
      by (cases "j \<le> i"; cases q) (auto simp: pattern_def *)
  qed (use assms in \<open>cases q; auto simp: first_match_def candidates_def pattern_def\<close>)+
  then show "find_sub (pattern g k) buf = Some at"
    and "find_sub (pattern g q) buf = Some i \<Longrightarrow> at \<le> i" by auto
qed

lemma first_match_Some:
  assumes ok: "gate_ok g"
  shows "first_match g buf = Some (at, k) \<longleftrightarrow>
    prefix (pattern g k) (drop at buf) \<and> (\<forall>j < at. \<forall>q. \<not> prefix (pattern g q) (drop j buf))"
    (is "?l \<longleftrightarrow> ?r")
proof
  assume ?l
  note d = first_match_SomeD [OF this]
  have "\<not> prefix (pattern g q) (drop j buf)" if "j < at" for j q
  proof (cases "find_sub (pattern g q) buf")
    case None
    then show ?thesis by (rule find_sub_None)
  next
    case (Some i)
    then have "j < i" using d(2) that by fastforce
    with Some show ?thesis by (rule find_sub_first)
  qed
  then show ?r using find_sub_at [OF d(1)] by blast
next
  assume r: ?r
  then have "find_sub (pattern g k) buf \<noteq> None" using find_sub_None by blast
  then obtain at' k' where l: "first_match g buf = Some (at', k')"
    using first_match_None [of g buf] by (cases "first_match g buf") auto
  note d = first_match_SomeD [OF l]
  have pre': "prefix (pattern g k') (drop at' buf)" using find_sub_at [OF d(1)] .
  have "\<not> at' < at" using r pre' by blast
  moreover have "\<not> at < at'"
  proof
    assume "at < at'"
    moreover obtain i where i: "find_sub (pattern g k) buf = Some i"
      using \<open>find_sub (pattern g k) buf \<noteq> None\<close> by auto
    ultimately have "at < i" using d(2) [OF i] by simp
    then show False using find_sub_first [OF i] r by blast
  qed
  ultimately have "at' = at" by simp
  moreover have "k' = k" using pattern_unique [OF ok, of k' _ k] pre' r \<open>at' = at\<close> by blast
  ultimately show ?l using l by simp
qed

lemma first_match_append:
  assumes ok: "gate_ok g" and fm: "first_match g buf = Some (at, k)"
  shows "first_match g (buf @ b) = Some (at, k)"
proof -
  from fm have pre: "prefix (pattern g k) (drop at buf)"
    and before: "\<And>j q. j < at \<Longrightarrow> \<not> prefix (pattern g q) (drop j buf)"
    by (auto simp: first_match_Some [OF ok])
  have at: "at \<le> length buf"
    using find_sub_le [OF first_match_SomeD(1) [OF fm]] .
  have pre': "prefix (pattern g k) (drop at (buf @ b))"
    using pre at by (auto simp: prefix_append)
  have "\<not> prefix (pattern g q) (drop j (buf @ b))" if j: "j < at" for j q
  proof
    assume p: "prefix (pattern g q) (drop j (buf @ b))"
    have len: "j + length (pattern g q) \<le> at" by (rule no_overlap [OF ok p pre' j])
    obtain ys where "drop j (buf @ b) = pattern g q @ ys" using p by (auto elim: prefixE)
    then have "take (length (pattern g q)) (drop j buf @ b) = pattern g q"
      using j at by simp
    then have "take (length (pattern g q)) (drop j buf) = pattern g q"
      using len at by simp
    then show False using before [OF j, of q] by (metis take_is_prefix)
  qed
  with pre' show ?thesis by (simp add: first_match_Some [OF ok])
qed

section \<open>Cutting the input anywhere\<close>

abbreviation event :: "bool \<Rightarrow> bool \<Rightarrow> bytestr \<Rightarrow> gate_event" where
  "event sp rf out \<equiv> \<lparr>send_password = sp, ev_refused = rf, ev_output = out\<rparr>"

lemma gate_ok_update [simp]:
  "gate_ok (g\<lparr>pending := p\<rparr>) = gate_ok g" "gate_ok (g\<lparr>asked := a\<rparr>) = gate_ok g"
  "gate_ok (g\<lparr>refused := r\<rparr>) = gate_ok g" "gate_ok (g\<lparr>passed := d\<rparr>) = gate_ok g"
  by (simp_all add: gate_ok_def)

lemma find_sub_nil: "gate_ok g \<Longrightarrow> find_sub (pattern g k) [] = None"
  by (simp add: pattern_nonempty)

lemma suffix_prefix_nil [simp]: "suffix_prefix g [] = []"
  by (simp add: suffix_prefix_def)

lemma pending_self: "pending g = [] \<Longrightarrow> g\<lparr>pending := []\<rparr> = g"
  by (cases g) simp

text \<open>The loop's body over the first match, the empty buffer included.\<close>

lemma gate_loop_eq:
  assumes ok: "gate_ok g" and fresh: "pending g = []"
  shows "gate_loop g sp buf = (case first_match g buf of
       None \<Rightarrow> (g\<lparr>pending := suffix_prefix g buf\<rparr>, event sp False [])
     | Some (at, Mark) \<Rightarrow> (g\<lparr>passed := True\<rparr>, event sp False (drop (at + length (mark g)) buf))
     | Some (at, Phrase) \<Rightarrow>
         if asked g then (g\<lparr>refused := True\<rparr>, event sp True [])
         else gate_loop (g\<lparr>asked := True\<rparr>) True (drop (at + length (phrase g)) buf))"
proof (cases "buf = []")
  case True
  have "first_match g [] = None"
    by (simp add: first_match_None pattern_nonempty ok)
  moreover have "g\<lparr>pending := []\<rparr> = g" using fresh by (cases g) simp
  ultimately show ?thesis using True by (simp add: gate_loop.simps [of g sp "[]"])
next
  case False
  show ?thesis
  proof (cases "candidates g buf")
    case Nil
    then show ?thesis using False
      by (simp add: gate_loop.simps [of g sp buf] first_match_def)
  next
    case (Cons c cs)
    obtain at k where fm: "fold min cs c = (at, k)" by force
    then show ?thesis using False Cons
      by (cases k) (simp_all add: gate_loop.simps [of g sp buf] first_match_def)
  qed
qed

lemma gate_loop_asked:
  "gate_ok g \<Longrightarrow> pending g = [] \<Longrightarrow> asked g \<Longrightarrow> gate_loop g sp buf = (case first_match g buf of
       None \<Rightarrow> (g\<lparr>pending := suffix_prefix g buf\<rparr>, event sp False [])
     | Some (at, Mark) \<Rightarrow> (g\<lparr>passed := True\<rparr>, event sp False (drop (at + length (mark g)) buf))
     | Some (at, Phrase) \<Rightarrow> (g\<lparr>refused := True\<rparr>, event sp True []))"
  by (subst gate_loop_eq) (auto split: option.splits kind.splits)

text \<open>Bytes that neither start a match nor are a match's beginning can be dropped.\<close>

lemma suffix_prefix_drop:
  assumes "\<And>j k. j < length u \<Longrightarrow> \<not> prefix (drop j (u @ xs)) (pattern g k)"
  shows "suffix_prefix g (u @ xs) = suffix_prefix g xs"
proof -
  let ?M = "max (length (phrase g)) (length (mark g)) - 1"
  have long: "longest_kept g (u @ xs) (length xs + d) = longest_kept g (u @ xs) (length xs)"
    if "d \<le> length u" for d
    using that
  proof (induction d)
    case (Suc d)
    let ?j = "length u - Suc d"
    have "last_n (Suc (length xs + d)) (u @ xs) = drop ?j (u @ xs)"
      using Suc.prems by (simp add: last_n_def)
    then show ?case
      using Suc assms [of ?j Phrase] assms [of ?j Mark] by (simp add: Let_def pattern_def)
  qed simp
  have short: "longest_kept g (u @ xs) n = longest_kept g xs n" if "n \<le> length xs" for n
    using that
  proof (induction n)
    case (Suc n)
    then have "last_n (Suc n) (u @ xs) = last_n (Suc n) xs" by (simp add: last_n_def)
    with Suc show ?case by (simp add: Let_def)
  qed simp
  show ?thesis
  proof (cases "?M \<le> length xs")
    case True
    then show ?thesis by (simp add: suffix_prefix_def min_def short)
  next
    case False
    define d where "d = min (length (u @ xs)) ?M - length xs"
    have d: "min (length (u @ xs)) ?M = length xs + d" "d \<le> length u"
      using False by (auto simp: d_def)
    have "suffix_prefix g (u @ xs) = longest_kept g (u @ xs) (length xs + d)"
      unfolding suffix_prefix_def d(1) ..
    also have "\<dots> = longest_kept g xs (length xs)"
      using long [OF d(2)] short by simp
    finally show ?thesis using False by (simp add: suffix_prefix_def min_def)
  qed
qed

lemma first_match_drop:
  assumes ok: "gate_ok g"
    and no: "\<And>j k. j < length u \<Longrightarrow> \<not> prefix (pattern g k) (drop j (u @ xs))"
  shows "first_match g (u @ xs) = map_option (map_prod ((+) (length u)) id) (first_match g xs)"
proof (cases "first_match g xs")
  case None
  have "find_sub (pattern g k) (u @ xs) = None" for k
    using find_sub_shift [of u "pattern g k" xs] no None by (auto simp: first_match_None)
  then have "first_match g (u @ xs) = None" by (simp add: first_match_None)
  with None show ?thesis by simp
next
  case (Some r)
  obtain at k where r: "r = (at, k)" by force
  with Some have "prefix (pattern g k) (drop at xs)"
    and before: "\<And>j q. j < at \<Longrightarrow> \<not> prefix (pattern g q) (drop j xs)"
    by (auto simp: first_match_Some [OF ok])
  moreover have "\<not> prefix (pattern g q) (drop j (u @ xs))" if "j < length u + at" for j q
    using no [of j q] before [of "j - length u" q] that by (cases "j < length u") auto
  ultimately have "first_match g (u @ xs) = Some (length u + at, k)"
    by (simp add: first_match_Some [OF ok])
  with Some r show ?thesis by simp
qed

lemma gate_loop_drop:
  assumes "gate_ok g" "pending g = []"
    and "\<And>j k. j < length u \<Longrightarrow>
      \<not> prefix (pattern g k) (drop j (u @ xs)) \<and> \<not> prefix (drop j (u @ xs)) (pattern g k)"
  shows "gate_loop g sp (u @ xs) = gate_loop g sp xs"
  using assms
  by (auto simp: gate_loop_eq [of g sp "u @ xs"] gate_loop_eq [of g sp xs] first_match_drop
      suffix_prefix_drop add.assoc split: option.splits kind.splits)

lemma first_match_None_append:
  assumes ok: "gate_ok g" and fresh: "pending g = []" and none: "first_match g buf = None"
  shows "gate_loop g sp (buf @ b) = gate_loop g sp (suffix_prefix g buf @ b)"
proof -
  obtain u where u: "buf = u @ suffix_prefix g buf"
    and longest: "\<And>j k. j < length u \<Longrightarrow> prefix (drop j buf) (pattern g k) \<Longrightarrow>
           length (pattern g k) \<le> length buf - j"
    by (rule suffix_prefix_split [of buf g]) blast
  have nf: "find_sub (pattern g k) buf = None" for k
    using none by (simp add: first_match_None)
  have "\<not> prefix (drop j (buf @ b)) (pattern g k)" if j: "j < length u" for j k
  proof
    assume "prefix (drop j (buf @ b)) (pattern g k)"
    moreover have "j \<le> length buf"
      using u j by (metis length_append le_add1 less_imp_le order_trans)
    ultimately have pre: "prefix (drop j buf) (pattern g k)"
      by (auto intro: append_prefixD)
    then have "length (pattern g k) \<le> length (drop j buf)" using longest [OF j] by simp
    with pre have "pattern g k = drop j buf"
      by (metis prefix_length_le prefix_order.antisym le_antisym prefix_length_prefix prefix_order.refl)
    then show False using find_sub_None [OF nf, of k j] by simp
  qed
  moreover have "\<not> prefix (pattern g k) (drop j (buf @ b))" if "j < length u" for j k
    by (rule no_match_before_kept [OF nf u longest that])
  ultimately have "gate_loop g sp (u @ (suffix_prefix g buf @ b)) = gate_loop g sp (suffix_prefix g buf @ b)"
    by (intro gate_loop_drop [OF ok fresh]) (metis append.assoc u)
  then show ?thesis using u by (metis append.assoc)
qed

text \<open>Joining the events of two consecutive pieces.\<close>

definition then_feed :: "bytestr \<Rightarrow> sudo_gate \<times> gate_event \<Rightarrow> sudo_gate \<times> gate_event" where
  "then_feed b r = (let (g', e) = r; (g'', e') = feed b g'
     in (g'', event (send_password e \<or> send_password e') (ev_refused e') (ev_output e @ ev_output e')))"

definition idle :: "sudo_gate \<Rightarrow> bool" where
  "idle g \<longleftrightarrow> gate_ok g \<and> \<not> passed g \<and> \<not> refused g"

lemma gate_loop_send:
  "idle g \<Longrightarrow> pending g = [] \<Longrightarrow>
     gate_loop g sp buf = (let (g', e) = gate_loop g False buf in (g', e\<lparr>send_password := sp \<or> send_password e\<rparr>))"
  by (auto simp: idle_def gate_loop_eq [of g] gate_loop_asked split: option.splits kind.splits)

lemma gate_loop_append_none:
  assumes g: "idle g" "pending g = []" and none: "first_match g buf = None"
  shows "gate_loop g sp (buf @ b) = then_feed b (gate_loop g sp buf)"
proof -
  let ?p = "suffix_prefix g buf"
  have eq: "gate_loop g sp (buf @ b) = gate_loop g sp (?p @ b)"
    using first_match_None_append g none by (simp add: idle_def)
  have "feed b (g\<lparr>pending := ?p\<rparr>) = gate_loop g False (?p @ b)"
    using g by (simp add: feed_def idle_def pending_self)
  moreover have "gate_loop g sp buf = (g\<lparr>pending := ?p\<rparr>, event sp False [])"
    using g none by (simp add: gate_loop_eq idle_def)
  ultimately show ?thesis
    using gate_loop_send [OF g, of sp "?p @ b"] unfolding eq
    by (simp add: then_feed_def split_beta)
qed

lemma gate_loop_append_asked:
  assumes g: "idle g" "pending g = []" and asked: "asked g"
  shows "gate_loop g sp (buf @ b) = then_feed b (gate_loop g sp buf)"
proof (cases "first_match g buf")
  case None
  then show ?thesis using gate_loop_append_none [OF g] by simp
next
  case (Some r)
  obtain at k where r: "r = (at, k)" by force
  have "at + length (pattern g k) \<le> length buf"
    using find_sub_end [OF first_match_SomeD(1)] Some r by blast
  then show ?thesis
    using g asked Some r first_match_append [of g buf at k b]
    by (cases k) (simp_all add: idle_def gate_loop_asked then_feed_def feed_def pattern_def)
qed

lemma gate_loop_append:
  assumes g: "idle g" "pending g = []"
  shows "gate_loop g sp (buf @ b) = then_feed b (gate_loop g sp buf)"
proof (cases "asked g")
  case True
  then show ?thesis using gate_loop_append_asked [OF g] by simp
next
  case unasked: False
  show ?thesis
  proof (cases "first_match g buf")
    case None
    then show ?thesis using gate_loop_append_none [OF g] by simp
  next
    case (Some r)
    obtain at k where r: "r = (at, k)" by force
    have "at + length (pattern g k) \<le> length buf"
      using find_sub_end [OF first_match_SomeD(1)] Some r by blast
    then show ?thesis
      using g unasked Some r first_match_append [of g buf at k b]
        gate_loop_append_asked [of "g\<lparr>asked := True\<rparr>" True "drop (at + length (phrase g)) buf" b]
      by (cases k) (simp_all add: idle_def gate_loop_eq [of g] then_feed_def feed_def pattern_def)
  qed
qed

lemma feed_append: "gate_ok g \<Longrightarrow> feed (a @ b) g = then_feed b (feed a g)"
  using gate_loop_append [of "g\<lparr>pending := []\<rparr>" False "pending g @ a" b]
  by (auto simp: feed_def idle_def then_feed_def)

lemma gate_loop_frame:
  "gate_ok g \<Longrightarrow> pending g = [] \<Longrightarrow>
     phrase (fst (gate_loop g sp buf)) = phrase g \<and> mark (fst (gate_loop g sp buf)) = mark g
   \<and> (asked g \<longrightarrow> asked (fst (gate_loop g sp buf)) \<and> send_password (snd (gate_loop g sp buf)) = sp)
   \<and> (\<not> sp \<and> send_password (snd (gate_loop g sp buf)) \<longrightarrow> asked (fst (gate_loop g sp buf)))"
  by (auto simp: gate_loop_eq [of g] gate_loop_asked split: option.splits kind.splits)

lemma feed_frame:
  assumes "gate_ok g"
  shows "gate_ok (fst (feed a g))"
    and "asked g \<Longrightarrow> asked (fst (feed a g)) \<and> \<not> send_password (snd (feed a g))"
    and "send_password (snd (feed a g)) \<Longrightarrow> asked (fst (feed a g))"
  using assms gate_loop_frame [of "g\<lparr>pending := []\<rparr>" False "pending g @ a"]
  by (auto simp: feed_def gate_ok_def split: if_splits)

text \<open>
  A gate as it stands between two reads: feeding nothing changes nothing. It holds at the
  start and after every feed.
\<close>

definition gate_inv :: "sudo_gate \<Rightarrow> bool" where
  "gate_inv g \<longleftrightarrow> gate_ok g \<and> feed_actions [] g = (g, [])"

lemma gate_inv_feed:
  assumes "gate_ok g" shows "gate_inv (fst (feed a g))"
proof -
  obtain g' e where f: "feed a g = (g', e)" by force
  obtain g'' e' where f': "feed [] g' = (g'', e')" by force
  have "then_feed [] (g', e) = (g', e)"
    using feed_append [OF assms, of a "[]"] f by simp
  then have eq: "g'' = g'" "ev_output e' = []" and s: "send_password e' \<Longrightarrow> send_password e"
    using f' by (auto simp: then_feed_def split_beta)
      (metis append_self_conv gate_event.select_convs(3), metis gate_event.select_convs(1))
  have g': "gate_ok g'" using feed_frame(1) [OF assms, of a] f by simp
  have "\<not> send_password e'"
    using s feed_frame(2) [OF g', of "[]"] feed_frame(3) [OF assms, of a] f f' by auto
  then show ?thesis using eq f f' g' by (simp add: gate_inv_def feed_actions_def actions_def)
qed

lemma gate_inv_new: "patterns_ok ph mk \<Longrightarrow> gate_inv (new_gate ph mk)"
proof -
  assume ok: "patterns_ok ph mk"
  let ?g = "new_gate ph mk"
  have g: "gate_ok ?g" using ok by (simp add: gate_ok_def new_gate_def)
  have "pending ?g = []" "\<not> passed ?g" "\<not> refused ?g" by (simp_all add: new_gate_def)
  then have "feed [] ?g = (?g, event False False [])"
    by (simp add: feed_def pending_self gate_loop.simps [of ?g False "[]"])
  with g show ?thesis by (simp add: gate_inv_def feed_actions_def actions_def)
qed

interpretation gate: stream_consumer feed_actions gate_inv
proof
  fix g xs ys
  assume inv: "gate_inv g"
  then have ok: "gate_ok g" by (simp add: gate_inv_def)
  show "feed_actions [] g = (g, [])" using inv by (simp add: gate_inv_def)
  show "gate_inv (fst (feed_actions xs g))"
    using gate_inv_feed [OF ok] by (simp add: feed_actions_def split_beta)
  have "\<not> send_password (snd (feed ys (fst (feed xs g))))" if "send_password (snd (feed xs g))"
    using that feed_frame [OF ok, of xs] feed_frame(2) [OF feed_frame(1) [OF ok]] by auto
  moreover have "ev_output (snd (feed xs g)) = []"
    if "send_password (snd (feed ys (fst (feed xs g))))"
  proof (rule ccontr)
    assume "ev_output (snd (feed xs g)) \<noteq> []"
    then have "passed (fst (feed xs g))"
      using ok by (auto simp: feed_def gate_loop_eq [of "g\<lparr>pending := []\<rparr>"] gate_loop_asked
          split: option.splits kind.splits if_splits)
    then show False using that by (simp add: feed_def)
  qed
  ultimately show "feed_actions (xs @ ys) g =
      (let (s', out) = feed_actions xs g; (s'', out') = feed_actions ys s' in (s'', out @ out'))"
    by (auto simp: feed_actions_def feed_append [OF ok] then_feed_def actions_def split_beta Let_def)
qed

section \<open>The decision on the whole stream\<close>

text \<open>
  What the gate should do, said without its state: \<open>before_mark\<close> is the stream up to the
  first mark (all of it when there is none) and \<open>prompts\<close> counts the password prompts in
  a stream.
\<close>

definition before_mark :: "bytestr \<Rightarrow> bytestr \<Rightarrow> bytestr" where
  "before_mark mk data = (case find_sub mk data of None \<Rightarrow> data | Some i \<Rightarrow> take i data)"

function prompts :: "bytestr \<Rightarrow> bytestr \<Rightarrow> nat" where
  "prompts ph data =
     (case find_sub ph data of
        None \<Rightarrow> 0
      | Some i \<Rightarrow> if ph = [] then 0 else Suc (prompts ph (drop (i + length ph) data)))"
  by pat_completeness auto
termination
proof (relation "measure (\<lambda>(ph, data). length data)")
  fix ph data :: bytestr and i
  assume "find_sub ph data = Some i" "ph \<noteq> []"
  then show "((ph, drop (i + length ph) data), ph, data) \<in> measure (\<lambda>(ph, data). length data)"
    using find_sub_end [of ph data i] by (cases ph) auto
qed simp

declare prompts.simps [simp del]

lemma prompts_none: "find_sub ph data = None \<Longrightarrow> prompts ph data = 0"
  by (simp add: prompts.simps)

text \<open>A stream whose first match is a prompt: the prompt, then the rest.\<close>

lemma prompt_first:
  assumes ok: "gate_ok g" and fm: "first_match g data = Some (at, Phrase)"
  defines "rest \<equiv> drop (at + length (phrase g)) data"
  shows "find_sub (mark g) data = map_option ((+) (at + length (phrase g))) (find_sub (mark g) rest)"
    and "prompts (phrase g) (before_mark (mark g) data)
           = Suc (prompts (phrase g) (before_mark (mark g) rest))"
proof -
  let ?n = "at + length (phrase g)"
  let ?u = "take ?n data"
  have n: "?n \<le> length data"
    using find_sub_end [OF first_match_SomeD(1) [OF fm]] by (simp add: pattern_def)
  have u: "data = ?u @ rest" by (simp add: rest_def)
  have pre: "prefix (phrase g) (drop at data)"
    and before: "\<And>j q. j < at \<Longrightarrow> \<not> prefix (pattern g q) (drop j data)"
    using fm by (auto simp: first_match_Some [OF ok] pattern_def)
  have no_mark: "\<not> prefix (mark g) (drop j data)" if "j < ?n" for j
  proof
    assume m: "prefix (mark g) (drop j data)"
    then have "\<not> j < at" using before [of j Mark] by (auto simp: pattern_def)
    moreover have "j \<noteq> at"
      using pattern_unique [OF ok, of Mark _ Phrase] m pre by (auto simp: pattern_def)
    ultimately have "?n \<le> j"
      using no_overlap [OF ok, of Phrase at data Mark j] m pre by (simp add: pattern_def)
    with that show False by simp
  qed
  then have "find_sub (mark g) (?u @ rest) = map_option ((+) (length ?u)) (find_sub (mark g) rest)"
    by (intro find_sub_shift) (use n u in simp)
  then show mark: "find_sub (mark g) data = map_option ((+) ?n) (find_sub (mark g) rest)"
    using n u by simp
  have bm: "before_mark (mark g) data = ?u @ before_mark (mark g) rest"
    using mark u n by (auto simp: before_mark_def rest_def take_add split: option.splits)
  have "drop at ?u = phrase g"
    using pre n by (auto simp: drop_take elim: prefixE)
  then have at: "prefix (phrase g) (drop at (before_mark (mark g) data))"
    using n by (simp add: bm)
  have "\<not> prefix (phrase g) (drop j (before_mark (mark g) data))" if "j < at" for j
  proof
    assume "prefix (phrase g) (drop j (before_mark (mark g) data))"
    moreover have "prefix (before_mark (mark g) data) data"
      by (auto simp: before_mark_def take_is_prefix split: option.splits)
    then obtain zs where "data = before_mark (mark g) data @ zs" by (auto elim: prefixE)
    then have "prefix (drop j (before_mark (mark g) data)) (drop j data)"
      by (metis drop_append prefixI)
    ultimately show False using before [OF that, of Phrase] by (auto simp: pattern_def)
  qed
  then have "find_sub (phrase g) (before_mark (mark g) data) = Some at"
    by (intro find_sub_eqI [OF at]) (use n in \<open>auto simp: bm\<close>)
  then show "prompts (phrase g) (before_mark (mark g) data)
           = Suc (prompts (phrase g) (before_mark (mark g) rest))"
    using pattern_nonempty [OF ok, of Phrase] n
    by (subst prompts.simps) (simp add: pattern_def bm)
qed

lemma mark_first:
  assumes ok: "gate_ok g" and fm: "first_match g data = Some (at, Mark)"
  shows "find_sub (mark g) data = Some at" "prompts (phrase g) (before_mark (mark g) data) = 0"
proof -
  show at: "find_sub (mark g) data = Some at"
    using first_match_SomeD(1) [OF fm] by (simp add: pattern_def)
  have before: "\<not> prefix (phrase g) (drop j data)" if "j < at" for j
    using fm that first_match_Some [OF ok, of data at Mark] by (metis kind.simps(4) pattern_def)
  have "\<not> prefix (phrase g) (drop j (take at data))" for j
  proof
    assume p: "prefix (phrase g) (drop j (take at data))"
    then have "j < at"
      using pattern_nonempty [OF ok, of Phrase] by (cases "j < at") (auto simp: pattern_def)
    moreover have "prefix (phrase g) (drop j data)"
      using p by (metis append_take_drop_id drop_append drop_take prefix_prefix take_is_prefix)
    ultimately show False using before by blast
  qed
  then have "find_sub (phrase g) (take at data) = None" by (intro find_sub_NoneI)
  then show "prompts (phrase g) (before_mark (mark g) data) = 0"
    using at by (simp add: before_mark_def prompts_none)
qed

lemma no_match_decision:
  assumes "first_match g data = None"
  shows "find_sub (mark g) data = None" "prompts (phrase g) (before_mark (mark g) data) = 0"
proof -
  have "find_sub (pattern g Mark) data = None" "find_sub (pattern g Phrase) data = None"
    using assms by (simp_all add: first_match_None)
  then show "find_sub (mark g) data = None" "prompts (phrase g) (before_mark (mark g) data) = 0"
    by (simp_all add: pattern_def before_mark_def prompts_none)
qed

text \<open>The verdict: at most one prompt before the mark.\<close>

definition verdict_actions :: "bytestr \<Rightarrow> bytestr \<Rightarrow> bytestr \<Rightarrow> action list" where
  "verdict_actions ph mk data =
     (if prompts ph (before_mark mk data) = 0 then [] else [Ask])
     @ (case find_sub mk data of
          None \<Rightarrow> []
        | Some i \<Rightarrow> if prompts ph (before_mark mk data) \<le> 1
                   then map Byte (drop (i + length mk) data) else [])"

lemma asked_verdict:
  assumes ok: "gate_ok g" and fresh: "pending g = []" "asked g" "\<not> passed g" "\<not> refused g"
  shows "actions (snd (gate_loop g True data)) = Ask # (case find_sub (mark g) data of
       None \<Rightarrow> [] | Some i \<Rightarrow> if prompts (phrase g) (before_mark (mark g) data) = 0
                   then map Byte (drop (i + length (mark g)) data) else [])"
    and "passed (fst (gate_loop g True data)) \<longleftrightarrow>
       find_sub (mark g) data \<noteq> None \<and> prompts (phrase g) (before_mark (mark g) data) = 0"
    and "refused (fst (gate_loop g True data)) \<longleftrightarrow> prompts (phrase g) (before_mark (mark g) data) \<noteq> 0"
proof -
  have "actions (snd (gate_loop g True data)) = Ask # (case find_sub (mark g) data of
       None \<Rightarrow> [] | Some i \<Rightarrow> if prompts (phrase g) (before_mark (mark g) data) = 0
                   then map Byte (drop (i + length (mark g)) data) else [])
     \<and> (passed (fst (gate_loop g True data)) \<longleftrightarrow>
       find_sub (mark g) data \<noteq> None \<and> prompts (phrase g) (before_mark (mark g) data) = 0)
     \<and> (refused (fst (gate_loop g True data)) \<longleftrightarrow> prompts (phrase g) (before_mark (mark g) data) \<noteq> 0)"
  proof (cases "first_match g data")
    case None
    then show ?thesis using assms no_match_decision [OF None]
      by (simp add: gate_loop_asked actions_def)
  next
    case (Some r)
    obtain at k where r: "r = (at, k)" by force
    show ?thesis
    proof (cases k)
      case Mark
      then show ?thesis using assms Some r mark_first [OF ok, of data at]
        by (simp add: gate_loop_asked actions_def)
    next
      case Phrase
      then show ?thesis using assms Some r prompt_first [OF ok, of data at]
        by (auto simp: gate_loop_asked actions_def split: option.splits)
    qed
  qed
  then show "actions (snd (gate_loop g True data)) = Ask # (case find_sub (mark g) data of
       None \<Rightarrow> [] | Some i \<Rightarrow> if prompts (phrase g) (before_mark (mark g) data) = 0
                   then map Byte (drop (i + length (mark g)) data) else [])"
    and "passed (fst (gate_loop g True data)) \<longleftrightarrow>
       find_sub (mark g) data \<noteq> None \<and> prompts (phrase g) (before_mark (mark g) data) = 0"
    and "refused (fst (gate_loop g True data)) \<longleftrightarrow> prompts (phrase g) (before_mark (mark g) data) \<noteq> 0"
    by blast+
qed

lemma feed_verdict:
  assumes "patterns_ok ph mk"
  shows "snd (feed_actions data (new_gate ph mk)) = verdict_actions ph mk data
    \<and> (passed (fst (feed_actions data (new_gate ph mk))) \<longleftrightarrow>
        find_sub mk data \<noteq> None \<and> prompts ph (before_mark mk data) \<le> 1)
    \<and> (refused (fst (feed_actions data (new_gate ph mk))) \<longleftrightarrow> 2 \<le> prompts ph (before_mark mk data))"
proof -
  let ?g = "new_gate ph mk"
  have g: "phrase ?g = ph" "mark ?g = mk" "pending ?g = []" "\<not> asked ?g" "\<not> passed ?g" "\<not> refused ?g"
    by (simp_all add: new_gate_def)
  have ok: "gate_ok ?g" using assms by (simp add: gate_ok_def g)
  have feed: "feed_actions data ?g = map_prod id actions (gate_loop ?g False data)"
    using g by (simp add: feed_actions_def feed_def pending_self split_beta map_prod_def)
  show ?thesis
  proof (cases "first_match ?g data")
    case None
    then show ?thesis using no_match_decision [OF None]
      by (simp add: feed gate_loop_eq ok g actions_def verdict_actions_def)
  next
    case (Some r)
    obtain at k where r: "r = (at, k)" by force
    show ?thesis
    proof (cases k)
      case Mark
      then show ?thesis using Some r mark_first [OF ok, of data at]
        by (simp add: feed gate_loop_eq ok g actions_def verdict_actions_def)
    next
      case Phrase
      let ?rest = "drop (at + length ph) data"
      have loop: "gate_loop ?g False data = gate_loop (?g\<lparr>asked := True\<rparr>) True ?rest"
        using Some r Phrase g by (simp add: gate_loop_eq [OF ok])
      note a = asked_verdict [of "?g\<lparr>asked := True\<rparr>" ?rest]
      show ?thesis
        using a ok g prompt_first [OF ok, of data at] Some r Phrase
        by (auto simp: feed loop verdict_actions_def ac_simps split: option.splits)
    qed
  qed
qed


section \<open>The gate of a wrapped command\<close>

text \<open>
  The reader feeds the gate one \<open>recv\<close> at a time. Both tokens are 32 hexadecimal digits, so
  the phrase and the mark meet \<open>patterns_ok\<close> and no earlier assumption on them is left.
\<close>

fun feed_chunks :: "bytestr list \<Rightarrow> sudo_gate \<Rightarrow> sudo_gate \<times> action list" where
  "feed_chunks [] g = (g, [])"
| "feed_chunks (c # cs) g =
     (let (g', a) = feed_actions c g; (g'', a') = feed_chunks cs g' in (g'', a @ a'))"

lemma feed_chunks_eq: "feed_chunks cs g = gate.feed_all cs g"
  by (induction cs arbitrary: g) (auto simp: Let_def split: prod.splits)

definition hex_token :: "pystr \<Rightarrow> bool" where
  "hex_token t \<longleftrightarrow> length t = 32 \<and> (\<forall>c \<in> set t. (48 \<le> c \<and> c \<le> 57) \<or> (97 \<le> c \<and> c \<le> 102))"

lemma build_command_patterns:
  assumes "hex_token t1" "hex_token t2" "build_command t1 t2 raw True = (cmd, Some ph, Some mk)"
  shows "patterns_ok ph mk"
proof -
  have "83 \<notin> set t1" "83 \<notin> set t2" using assms(1,2) by (auto simp: hex_token_def)
  then show ?thesis using assms(3) by (auto simp: build_command_def Let_def patterns_ok_def of_char_def)
qed

text \<open>
  C11. However the network cuts the channel's bytes, the gate built for a wrapped command asks
  for the password exactly when a prompt comes before the mark, and once; passes the bytes
  after the first mark and nothing else, unless a second prompt came before it; ends passed or
  refused accordingly.
\<close>

theorem gate_decides_stream:
  assumes "hex_token t1" "hex_token t2"
    and "build_command t1 t2 raw True = (cmd, Some ph, Some mk)"
  shows "snd (feed_chunks cs (new_gate ph mk)) = verdict_actions ph mk (concat cs)
    \<and> (passed (fst (feed_chunks cs (new_gate ph mk))) \<longleftrightarrow>
        find_sub mk (concat cs) \<noteq> None \<and> prompts ph (before_mark mk (concat cs)) \<le> 1)
    \<and> (refused (fst (feed_chunks cs (new_gate ph mk))) \<longleftrightarrow>
        2 \<le> prompts ph (before_mark mk (concat cs)))"
proof -
  have ok: "patterns_ok ph mk" by (rule build_command_patterns [OF assms])
  show ?thesis
    unfolding feed_chunks_eq gate.feed_all_concat [OF gate_inv_new [OF ok]] by (rule feed_verdict [OF ok])
qed

theorem gate_decides_stream_witness:
  "let t = replicate 32 48; ph = lit ''SNDsudoprompt'' @ t; mk = lit ''SNDtermmark'' @ t
   in snd (feed_chunks [take 20 ph, drop 20 ph @ [10, 83], tl mk @ [111], [107]] (new_gate ph mk))
        = verdict_actions ph mk (ph @ [10] @ mk @ [111, 107])"
proof -
  define t :: pystr where "t = replicate 32 48"
  define ph where "ph = lit ''SNDsudoprompt'' @ t"
  define mk where "mk = lit ''SNDtermmark'' @ t"
  define cs where "cs = [take 20 ph, drop 20 ph @ [10, 83], tl mk @ [111], [107]]"
  have t: "hex_token t" by (simp add: t_def hex_token_def)
  obtain cmd where b: "build_command t t [108, 115] True = (cmd, Some ph, Some mk)"
    by (simp add: build_command_def Let_def ph_def mk_def)
  have "take 20 ph @ drop 20 ph @ r = ph @ r" for r by (simp flip: append_assoc)
  then have "concat cs = ph @ [10] @ mk @ [111, 107]"
    by (simp add: cs_def mk_def of_char_def)
  then have "snd (feed_chunks cs (new_gate ph mk)) = verdict_actions ph mk (ph @ [10] @ mk @ [111, 107])"
    using gate_decides_stream [OF t t b, of cs] by (simp del: feed_chunks.simps)
  then show ?thesis unfolding Let_def cs_def ph_def mk_def t_def .
qed

section \<open>Quoting\<close>

text \<open>
  The POSIX rules for one shell word, as far as quoted text needs them: a bare blank, newline
  or operator ends the word, a bare or double-quoted character with another meaning is not
  accepted (None), and inside single quotes everything but the closing quote is itself.
\<close>

datatype quoting = Bare | Single | Double

fun sh_word :: "quoting \<Rightarrow> pystr \<Rightarrow> pystr \<Rightarrow> (pystr \<times> pystr) option" where
  "sh_word Bare acc [] = Some (acc, [])"
| "sh_word Bare acc (c # cs) =
     (if c = 39 then sh_word Single acc cs
      else if c = 34 then sh_word Double acc cs
      else if shell_safe c then sh_word Bare (acc @ [c]) cs
      else if c \<in> {32, 9, 10, 59, 38, 124} then Some (acc, c # cs)
      else None)"
| "sh_word Single acc [] = None"
| "sh_word Single acc (c # cs) =
     (if c = 39 then sh_word Bare acc cs else sh_word Single (acc @ [c]) cs)"
| "sh_word Double acc [] = None"
| "sh_word Double acc (c # cs) =
     (if c = 34 then sh_word Bare acc cs
      else if c \<in> {36, 92, 96} then None
      else sh_word Double (acc @ [c]) cs)"

lemma shell_safe_plain: "shell_safe c \<Longrightarrow> c \<noteq> 39 \<and> c \<noteq> 34"
  by (auto simp: shell_safe_def of_char_def)

lemma sh_word_safe: "\<forall>c \<in> set s. shell_safe c \<Longrightarrow> sh_word Bare acc (s @ r) = sh_word Bare (acc @ s) r"
  by (induction s arbitrary: acc) (auto dest: shell_safe_plain)

lemma sh_word_single:
  "sh_word Single acc (concat (map (\<lambda>c. if c = 39 then [39, 34, 39, 34, 39] else [c]) s) @ 39 # r)
     = sh_word Bare (acc @ s) r"
  by (induction s arbitrary: acc) auto

lemma sh_word_quote: "sh_word Bare acc (shlex_quote s @ r) = sh_word Bare (acc @ s) r"
  using sh_word_safe [of s acc r] sh_word_single [of acc s r] by (simp add: shlex_quote_def)

text \<open>
  Whatever the stored command contains (quotes, semicolons, newlines), the wrapper ends
  in one shell word whose value is the command to run, and when the command does not already
  start with sudo, that command's own last word is exactly the stored text: nothing of it is
  read by the outer shells.
\<close>

theorem wrapped_command_words:
  "\<exists>head arg whole.
     fst (build_command t1 t2 raw True) = head @ arg
   \<and> head = lit ''set +x 2>/dev/null; sudo -S -p '' @ shlex_quote (lit ''SNDsudoprompt'' @ t1)
       @ lit '' -v || exit 97; printf '' @ [39] @ lit ''%s'' @ [39] @ lit '' ''
       @ shlex_quote (lit ''SNDtermmark'' @ t2) @ lit ''; exec bash -c ''
   \<and> sh_word Bare [] arg = Some (whole, [])
   \<and> (if prefix (lit ''sudo '') raw then whole = raw
      else \<exists>inner. whole = lit ''sudo bash -c '' @ inner \<and> sh_word Bare [] inner = Some (raw, []))"
proof -
  have q: "sh_word Bare [] (shlex_quote s) = Some (s, [])" for s
    using sh_word_quote [of "[]" s "[]"] by simp
  let ?whole = "if prefix (lit ''sudo '') raw then raw else lit ''sudo bash -c '' @ shlex_quote raw"
  show ?thesis
    by (intro exI [of _ "shlex_quote ?whole"] exI [of _ ?whole] exI)
      (auto simp del: lit_simps simp: build_command_def Let_def q)
qed

end
