(* ===== verification/Device_Norm.thy ===== *)
theory Device_Norm
  imports Device_Store
begin

text \<open>
  What normalising guarantees: the shape of a normalised device, that normalising again never
  fails, and when it changes something. The crash lemmas about the mirrored save are in
  \<open>Device_Api\<close>.
\<close>

section \<open>Shapes\<close>

definition command_ok :: "jdict \<Rightarrow> bool" where
  "command_ok c =
     (case (str_of (json_get c ''name''), str_of (json_get c ''command''),
            bool_of (json_get c ''sudo''), str_of (json_get c ''confirm'')) of
        (Some n, Some m, Some b, Some f) \<Rightarrow>
          c = clean_command n m b f \<and> stripped n \<and> stripped m \<and> m \<noteq> [] \<and> stripped f
      | _ \<Rightarrow> False)"

definition command_value_ok :: "json \<Rightarrow> bool" where
  "command_value_ok v = (case v of JObj c \<Rightarrow> command_ok c | _ \<Rightarrow> False)"

definition device_ok :: "jdict \<Rightarrow> bool" where
  "device_ok d =
     (case (arr_of (json_get d ''commands''), int_of (json_get d ''metrics_port'')) of
        (Some cs, Some p) \<Rightarrow> list_all command_value_ok cs
      | _ \<Rightarrow> False)"

text \<open>A command without a name, and a device that a further normalisation would change.\<close>

definition blank_name :: "json \<Rightarrow> bool" where
  "blank_name v = (case v of JObj c \<Rightarrow> json_get c ''name'' = Some (JStr []) | _ \<Rightarrow> False)"

definition unsettled :: "jdict \<Rightarrow> bool" where
  "unsettled d =
     (json_get d ''metrics_port'' = Some (JInt 0)
      \<or> (case arr_of (json_get d ''commands'') of Some cs \<Rightarrow> list_ex blank_name cs | None \<Rightarrow> False))"

section \<open>Dictionaries with named fields\<close>

lemma clean_command_get:
  "json_get (clean_command n m b f) ''name'' = Some (JStr n)"
  "json_get (clean_command n m b f) ''command'' = Some (JStr m)"
  "json_get (clean_command n m b f) ''sudo'' = Some (JBool b)"
  "json_get (clean_command n m b f) ''confirm'' = Some (JStr f)"
  by (simp_all add: json_get_def clean_command_def)

lemma command_okI:
  "stripped n \<Longrightarrow> stripped m \<Longrightarrow> m \<noteq> [] \<Longrightarrow> stripped f \<Longrightarrow> command_ok (clean_command n m b f)"
  by (simp add: command_ok_def clean_command_get)

lemma command_okE:
  assumes "command_ok c"
  obtains n m b f where "c = clean_command n m b f" "stripped n" "stripped m" "m \<noteq> []" "stripped f"
  using assms by (auto simp: command_ok_def split: option.splits)

lemma text_or_stripped: "text_or v y = Some t \<Longrightarrow> stripped t"
  by (auto simp: text_or_def strip_stripped split: option.splits json.splits if_splits)

section \<open>Collecting\<close>

lemma collect_all:
  "collect f xs = Some ys \<Longrightarrow> (\<And>x zs. x \<in> set xs \<Longrightarrow> f x = Some zs \<Longrightarrow> list_all P zs) \<Longrightarrow> list_all P ys"
proof (induction xs arbitrary: ys)
  case (Cons x xs)
  then obtain zs ys' where "f x = Some zs" "collect f xs = Some ys'" "ys = zs @ ys'"
    by (auto split: option.splits)
  moreover have "list_all P zs" using calculation(1) by (rule Cons.prems(2) [rotated]) simp
  moreover have "list_all P ys'"
    using calculation(2) by (rule Cons.IH) (rule Cons.prems(2), simp_all)
  ultimately show ?case by simp
qed simp

lemma collect_map:
  "(\<And>x. x \<in> set xs \<Longrightarrow> f x = Some [g x]) \<Longrightarrow> collect f xs = Some (map g xs)"
  by (induction xs) auto

section \<open>Normalising commands\<close>

lemma norm_command_ok: "norm_command v = Some cs \<Longrightarrow> list_all command_ok cs"
  by (auto simp: norm_command_def split: json.splits option.splits list.splits
    intro!: command_okI dest: text_or_stripped)

text \<open>Normalising a clean command again only names it if it has no name.\<close>

definition renamed :: "jdict \<Rightarrow> jdict" where
  "renamed c =
     (case (json_get c ''name'', json_get c ''command'') of
        (Some (JStr []), Some (JStr m)) \<Rightarrow> json_set ''name'' (JStr (strip (take 24 m))) c
      | _ \<Rightarrow> c)"

lemma renamed_clean:
  "renamed (clean_command n m b f) = clean_command (if n = [] then strip (take 24 m) else n) m b f"
  by (auto simp: renamed_def clean_command_get) (auto simp: clean_command_def json_set_def split: list.splits)

lemma norm_command_again:
  assumes "command_ok c"
  shows "norm_command (JObj c) = Some [renamed c]"
proof -
  from assms obtain n m b f where c: "c = clean_command n m b f" "stripped n" "stripped m" "m \<noteq> []" "stripped f"
    by (rule command_okE)
  then show ?thesis
    by (cases m) (simp_all add: norm_command_def clean_command_get text_or_def strip_id renamed_clean)
qed

lemma renamed_ok:
  assumes "command_ok c"
  shows "command_ok (renamed c) \<and> \<not> blank_name (JObj (renamed c)) \<and> (renamed c = c \<longleftrightarrow> \<not> blank_name (JObj c))"
proof -
  from assms obtain n m b f where c: "c = clean_command n m b f" "stripped n" "stripped m" "m \<noteq> []" "stripped f"
    by (rule command_okE)
  have "strip (take 24 m) \<noteq> []" using c(3,4) by (rule strip_take) simp
  moreover have "clean_command n1 m b f = clean_command n2 m b f \<longleftrightarrow> n1 = n2" for n1 n2
    by (simp add: clean_command_def)
  ultimately show ?thesis
    using c by (auto simp: renamed_clean blank_name_def clean_command_get intro!: command_okI strip_stripped)
qed

section \<open>Normalising devices\<close>

lemma norm_device_ok:
  assumes "norm_device d = Some d'"
  shows "device_ok d'"
proof -
  from assms obtain clean p where
    clean: "collect norm_command (case json_get d ''commands'' of Some (JArr xs) \<Rightarrow> xs | _ \<Rightarrow> []) = Some clean"
    and d': "d' = json_set ''metrics_port'' (JInt p) (json_set ''commands'' (JArr (map JObj clean)) d)"
    by (auto simp: norm_device_def Let_def split: option.splits)
  have "list_all command_ok clean" using collect_all [OF clean] norm_command_ok by blast
  then show ?thesis
    by (simp add: device_ok_def d' json_get_set command_value_ok_def list_all_iff)
qed

lemma device_okE:
  assumes "device_ok d"
  obtains cs p where "json_get d ''commands'' = Some (JArr (map JObj cs))" "list_all command_ok cs"
    "json_get d ''metrics_port'' = Some (JInt p)"
proof -
  from assms obtain vs p where vs: "json_get d ''commands'' = Some (JArr vs)" "list_all command_value_ok vs"
    and p: "json_get d ''metrics_port'' = Some (JInt p)"
    by (auto simp: device_ok_def split: option.splits)
  have "\<exists>cs. vs = map JObj cs \<and> list_all command_ok cs"
    using vs(2)
  proof (induction vs)
    case (Cons v vs)
    then obtain cs c where "vs = map JObj cs" "list_all command_ok cs" "v = JObj c" "command_ok c"
      by (auto simp: command_value_ok_def split: json.splits)
    then have "v # vs = map JObj (c # cs) \<and> list_all command_ok (c # cs)" by simp
    then show ?case by (rule exI [of _ "c # cs"])
  qed simp
  then show ?thesis using that vs(1) p by blast
qed

lemma port_again: "port_of (Some (JInt p)) = Some (if p = 0 then 9100 else p)"
  by (simp add: port_of_def)

text \<open>
  A normalised device normalises again, to itself unless a command has no name or the port
  is 0, and the result is settled.
\<close>

lemma norm_again:
  assumes "device_ok d"
  shows "\<exists>d'. norm_device d = Some d' \<and> device_ok d' \<and> \<not> unsettled d' \<and> (d' = d \<longleftrightarrow> \<not> unsettled d)
    \<and> (\<forall>k. k \<notin> {lit ''commands'', lit ''metrics_port''} \<longrightarrow> dict_get d' k = dict_get d k)"
proof -
  from assms obtain cs p where cs: "json_get d ''commands'' = Some (JArr (map JObj cs))" "list_all command_ok cs"
    and p: "json_get d ''metrics_port'' = Some (JInt p)" by (rule device_okE)
  let ?p = "if p = 0 then 9100 else p"
  let ?d1 = "json_set ''commands'' (JArr (map JObj (map renamed cs))) d"
  let ?d = "json_set ''metrics_port'' (JInt ?p) ?d1"
  have "collect norm_command (map JObj cs) = Some (map (\<lambda>v. case v of JObj c \<Rightarrow> renamed c) (map JObj cs))"
    using cs(2) by (intro collect_map) (auto simp: norm_command_again list_all_iff)
  then have "collect norm_command (map JObj cs) = Some (map renamed cs)" by (simp add: comp_def)
  then have n: "norm_device d = Some ?d"
    using cs(1) p by (simp add: norm_device_def Let_def json_get_set port_again)
  have ok: "device_ok ?d" using n by (rule norm_device_ok)
  have r: "list_all (\<lambda>c. \<not> blank_name (JObj (renamed c))) cs" "map renamed cs = cs \<longleftrightarrow> \<not> list_ex blank_name (map JObj cs)"
    using cs(2) renamed_ok by (auto simp: list_all_iff list_ex_iff map_idI map_eq_conv) (metis map_eq_conv map_ident)+
  have u: "\<not> unsettled ?d" using r(1) by (simp add: unsettled_def json_get_set list_ex_iff list_all_iff)
  have get: "json_get ?d ''commands'' = Some (JArr (map JObj (map renamed cs)))" "json_get ?d ''metrics_port'' = Some (JInt ?p)"
    by (simp_all add: json_get_set)
  have "?d = d \<longleftrightarrow> \<not> unsettled d"
  proof
    assume "?d = d" then show "\<not> unsettled d" using u by simp
  next
    assume "\<not> unsettled d"
    then have "map renamed cs = cs" "?p = p" using cs(1) p r(2) by (auto simp: unsettled_def)
    then show "?d = d" using cs(1) p by (simp add: json_set_same)
  qed
  moreover have "\<forall>k. k \<notin> {lit ''commands'', lit ''metrics_port''} \<longrightarrow> dict_get ?d k = dict_get d k"
    by (auto simp: json_set_def dict_get_set simp del: lit_simps)
  ultimately show ?thesis using n ok u by blast
qed

text \<open>
  C38. Normalising always ends in a proper device, and a second pass settles it: every stored
  command has a non-empty trimmed text, a trimmed name and confirmation, and the port is an
  integer; normalising a normalised device never fails and changes it exactly when a command's
  name is blank or the port is 0, so a list read back after a restart can differ from the list
  that was shown only there; after that nothing changes any more.
\<close>

theorem norm_settles:
  assumes "norm_device d = Some d1"
  shows "device_ok d1 \<and> (\<exists>d2. norm_device d1 = Some d2 \<and> (d2 = d1 \<longleftrightarrow> \<not> unsettled d1) \<and> device_ok d2 \<and> norm_device d2 = Some d2)"
proof -
  have "device_ok d1" using assms by (rule norm_device_ok)
  from norm_again [OF this] obtain d2 where 2: "norm_device d1 = Some d2" "device_ok d2" "\<not> unsettled d2"
    "d2 = d1 \<longleftrightarrow> \<not> unsettled d1" by blast
  from norm_again [OF 2(2)] 2(3) have "norm_device d2 = Some d2" by blast
  then show ?thesis using 2 \<open>device_ok d1\<close> by blast
qed

definition nameless :: jdict where
  "nameless = [(lit ''id'', js ''dev_1''),
     (lit ''commands'', JArr [JObj [(lit ''name'', JStr [32]), (lit ''command'', js '' uptime '')]])]"

theorem norm_settles_witness:
  "\<exists>d1. norm_device nameless = Some d1 \<and> unsettled d1
     \<and> (\<exists>d2. norm_device d1 = Some d2 \<and> d2 \<noteq> d1 \<and> norm_device d2 = Some d2)"
proof -
  let ?d = "[(lit ''id'', js ''dev_1''),
     (lit ''commands'', JArr [JObj (clean_command [] (lit ''uptime'') False [])]), (lit ''metrics_port'', JInt 9100)]"
  have n: "norm_device nameless = Some ?d"
    by (simp add: nameless_def norm_device_def json_get_def js_def norm_command_def text_or_def strip_def
      py_space_def Let_def port_of_def clean_command_def json_set_def)
  moreover have "unsettled ?d" by (simp add: unsettled_def json_get_def blank_name_def clean_command_def)
  ultimately show ?thesis using norm_settles [OF n] by blast
qed

end
