(* ===== verification/Device_Api.thy ===== *)
theory Device_Api
  imports Device_Norm Config
begin

text \<open>
  The device routes of \<open>main.py\<close>: saving, deleting and editing devices, and retrying a failed
  recovery. Each route computes the list it wants (\<open>edited\<close>) and saves it; the replies and
  the broadcasts follow. A request body has passed its field limits (\<open>device_in_ok\<close>).
\<close>

section \<open>Request bodies\<close>

record command_item =
  ci_name :: pystr
  ci_command :: pystr
  ci_sudo :: bool
  ci_confirm :: pystr

record device_in =
  di_id :: "pystr option"
  di_name :: pystr
  di_host :: pystr
  di_username :: pystr
  di_metrics_port :: int
  di_commands :: "command_item list option"

definition command_item_ok :: "command_item \<Rightarrow> bool" where
  "command_item_ok c \<longleftrightarrow> length (ci_name c) \<le> MAX_NAME_LEN \<and> length (ci_command c) \<le> MAX_COMMAND_LEN
     \<and> length (ci_confirm c) \<le> MAX_CONFIRM_LEN"

definition commands_ok :: "command_item list \<Rightarrow> bool" where
  "commands_ok cs \<longleftrightarrow> length cs \<le> MAX_COMMANDS_PER_DEVICE \<and> list_all command_item_ok cs"

definition device_in_ok :: "device_in \<Rightarrow> bool" where
  "device_in_ok b \<longleftrightarrow> length (di_name b) \<le> MAX_NAME_LEN \<and> length (di_host b) \<le> MAX_HOST_LEN
     \<and> length (di_username b) \<le> MAX_USERNAME_LEN
     \<and> MIN_METRICS_PORT \<le> di_metrics_port b \<and> di_metrics_port b \<le> MAX_METRICS_PORT
     \<and> (case di_commands b of None \<Rightarrow> True | Some cs \<Rightarrow> commands_ok cs)"

text \<open>\<open>model_dump\<close>\<close>

definition dump_command :: "command_item \<Rightarrow> json" where
  "dump_command c = JObj [(lit ''name'', JStr (ci_name c)), (lit ''command'', JStr (ci_command c)),
     (lit ''sudo'', JBool (ci_sudo c)), (lit ''confirm'', JStr (ci_confirm c))]"

definition dump_device :: "device_in \<Rightarrow> jdict" where
  "dump_device b =
     [(lit ''id'', case di_id b of None \<Rightarrow> JNull | Some s \<Rightarrow> JStr s),
      (lit ''name'', JStr (di_name b)), (lit ''host'', JStr (di_host b)),
      (lit ''username'', JStr (di_username b)), (lit ''metrics_port'', JInt (di_metrics_port b)),
      (lit ''commands'', case di_commands b of None \<Rightarrow> JNull | Some cs \<Rightarrow> JArr (map dump_command cs))]"

section \<open>The wanted list\<close>

definition recovery_read_only_error :: pystr where
  "recovery_read_only_error = lit ''Configuration changes are unavailable while the dashboard is in recovery mode.''"

definition device_limit_error :: pystr where
  "device_limit_error = lit ''The device limit of 250 has been reached.''"

definition unknown_device_error :: pystr where
  "unknown_device_error = lit ''That device does not exist.''"

definition save_error :: pystr where
  "save_error = lit ''Server could not write devices.json (check file ownership/permissions on the server).''"

definition resolve_saved_commands :: "command_item list option \<Rightarrow> jdict option \<Rightarrow> json" where
  "resolve_saved_commands incoming existing =
     (case incoming of
        Some cs \<Rightarrow> JArr (map dump_command cs)
      | None \<Rightarrow>
          (case existing of
             None \<Rightarrow> JArr []
           | Some d \<Rightarrow> if d = [] then JArr []
               else (case json_get d ''commands'' of None \<Rightarrow> JArr [] | Some v \<Rightarrow> v)))"

text \<open>
  The loop that looks for a device by its id and replaces it: a device without an id raises a
  KeyError when the loop reaches it.
\<close>

datatype edit_result = EditRaises | EditRefused pystr | Edited "jdict list"

fun replace_device :: "pystr \<Rightarrow> (jdict \<Rightarrow> jdict option) \<Rightarrow> jdict list \<Rightarrow> edit_result" where
  "replace_device did f [] = EditRefused unknown_device_error"
| "replace_device did f (d # ds) =
     (case json_get d ''id'' of
        None \<Rightarrow> EditRaises
      | Some v \<Rightarrow>
          if v = JStr did
          then (case f d of None \<Rightarrow> EditRaises | Some d' \<Rightarrow> Edited (d' # ds))
          else (case replace_device did f ds of Edited ds' \<Rightarrow> Edited (d # ds') | r \<Rightarrow> r))"

datatype edit =
    Upsert device_in pystr
  | Delete pystr
  | UpdateCommands pystr "command_item list"

text \<open>\<open>fresh\<close> is the new id, \<open>"dev_"\<close> and twelve hexadecimal digits of a UUID.\<close>

definition upsert_devices :: "device_in \<Rightarrow> pystr \<Rightarrow> jdict list \<Rightarrow> edit_result" where
  "upsert_devices b fresh devs =
     (case di_id b of
        Some (c # cs) \<Rightarrow>
          replace_device (c # cs)
            (\<lambda>existing. norm_device (json_set ''commands'' (resolve_saved_commands (di_commands b) (Some existing)) (dump_device b)))
            devs
      | _ \<Rightarrow>
          if MAX_DEVICES \<le> length devs then EditRefused device_limit_error
          else (case norm_device (json_set ''commands'' (resolve_saved_commands (di_commands b) None)
                       (json_set ''id'' (JStr fresh) (dump_device b))) of
                  None \<Rightarrow> EditRaises
                | Some d \<Rightarrow> Edited (devs @ [d])))"

definition delete_device :: "pystr \<Rightarrow> jdict list \<Rightarrow> edit_result" where
  "delete_device did devs =
     (if list_ex (\<lambda>d. json_get d ''id'' = None) devs then EditRaises
      else let devs' = filter (\<lambda>d. json_get d ''id'' \<noteq> Some (JStr did)) devs
      in if length devs' = length devs then EditRefused unknown_device_error else Edited devs')"

definition command_devices :: "pystr \<Rightarrow> command_item list \<Rightarrow> jdict list \<Rightarrow> edit_result" where
  "command_devices did cs devs =
     replace_device did (\<lambda>d. norm_device (json_set ''commands'' (JArr (map dump_command cs)) d)) devs"

fun edited :: "edit \<Rightarrow> jdict list \<Rightarrow> edit_result" where
  "edited (Upsert b fresh) devs = upsert_devices b fresh devs"
| "edited (Delete did) devs = delete_device did devs"
| "edited (UpdateCommands did cs) devs = command_devices did cs devs"

section \<open>The routes\<close>

datatype api_reply = ApiOk "jdict list" | ApiError pystr | ApiRaises | ApiGone | ApiRecovered bool

datatype api_event = EvDevices "jdict list" | EvUnselect pystr | EvDisconnect pystr | EvRestored

fun after_save :: "edit \<Rightarrow> jdict list \<Rightarrow> api_event list" where
  "after_save (Delete did) devs = [EvUnselect did, EvDisconnect did, EvDevices devs]"
| "after_save _ devs = [EvDevices devs]"

definition device_route ::
  "save_env \<Rightarrow> edit \<Rightarrow> runtime \<Rightarrow> disk \<Rightarrow> runtime \<times> disk \<times> api_reply \<times> api_event list" where
  "device_route e ed rt dk =
     (if recovery_mode rt then (rt, dk, ApiError recovery_read_only_error, [])
      else case edited ed (devices_cache rt) of
          EditRaises \<Rightarrow> (rt, dk, ApiRaises, [])
        | EditRefused msg \<Rightarrow> (rt, dk, ApiError msg, [])
        | Edited devs \<Rightarrow>
            (case save e devs rt dk of
               (rt, dk, PowerLost) \<Rightarrow> (rt, dk, ApiGone, [])
             | (rt, dk, NotPersisted) \<Rightarrow> (rt, dk, ApiError save_error, [])
             | (rt, dk, Persisted) \<Rightarrow> (rt, dk, ApiOk devs, after_save ed devs)))"

definition retry_recovery ::
  "fault \<Rightarrow> bool \<Rightarrow> runtime \<Rightarrow> disk \<Rightarrow> runtime \<times> disk \<times> api_reply \<times> api_event list" where
  "retry_recovery f unl rt dk =
     (if \<not> recovery_mode rt then (rt, dk, ApiRecovered False, [])
      else case recovery_backup rt of
          None \<Rightarrow> (rt, dk, ApiError (lit ''No validated backup is available for automatic recovery.''), [])
        | Some t \<Rightarrow>
            (case restore_and_verify f unl t dk of
               (dk, Stopped) \<Rightarrow> (rt, dk, ApiGone, [])
             | (dk, Raised _) \<Rightarrow>
                 (rt, dk, ApiError (lit ''Recovery could not finish. Your saved data remains protected.''), [])
             | (dk, Written) \<Rightarrow>
                 (rt\<lparr>recovery_mode := False, storage_warning := False, recovery_backup := None\<rparr>, dk,
                  ApiRecovered True, [EvRestored])))"

section \<open>The server and its restarts\<close>

text \<open>
  The process is up with its runtime state, or down. Requests run one at a time on the event
  loop; a power loss can come at any moment, inside a save too.
\<close>

record server =
  up :: "runtime option"
  on_disk :: disk

definition fresh_install :: "server \<Rightarrow> bool" where
  "fresh_install s \<longleftrightarrow> up s = None \<and> target (primary (on_disk s)) = NoFile \<and> target (backup (on_disk s)) = NoFile"

definition down_if_gone :: "api_reply \<Rightarrow> runtime \<Rightarrow> runtime option" where
  "down_if_gone r rt = (if r = ApiGone then None else Some rt)"

fun edit_allowed :: "edit \<Rightarrow> jdict list \<Rightarrow> bool" where
  "edit_allowed (Upsert b fresh) devs =
     (device_in_ok b \<and> fresh \<noteq> [] \<and> list_all (\<lambda>d. json_get d ''id'' \<noteq> Some (JStr fresh)) devs)"
| "edit_allowed (Delete did) devs = True"
| "edit_allowed (UpdateCommands did cs) devs = commands_ok cs"

inductive server_step :: "server \<Rightarrow> server \<Rightarrow> bool" where
  step_edit: "up s = Some rt \<Longrightarrow> edit_allowed ed (devices_cache rt) \<Longrightarrow>
    device_route e ed rt (on_disk s) = (rt', dk', reply, evs) \<Longrightarrow>
    server_step s \<lparr>up = down_if_gone reply rt', on_disk = dk'\<rparr>"
| step_retry: "up s = Some rt \<Longrightarrow> retry_recovery f unl rt (on_disk s) = (rt', dk', reply, evs) \<Longrightarrow>
    server_step s \<lparr>up = down_if_gone reply rt', on_disk = dk'\<rparr>"
| step_crash: "server_step s (s\<lparr>up := None\<rparr>)"
| step_start: "up s = None \<Longrightarrow> lifespan f unl writable (on_disk s) = (dk', rt) \<Longrightarrow>
    server_step s \<lparr>up = rt, on_disk = dk'\<rparr>"

inductive_cases server_stepE: "server_step s t"

end
