(* ===== verification/Device_Recovery.thy ===== *)
theory Device_Recovery
  imports Device_Api
begin

text \<open>
  The saved devices under every sequence of requests, failed writes, power losses and
  restarts: what a list in memory and on disk satisfies, what a restart brings back, and what
  recovery mode protects.
\<close>

section \<open>Good lists\<close>

definition good_device :: "jdict \<Rightarrow> bool" where
  "good_device d \<longleftrightarrow> device_ok d \<and> (case str_of (json_get d ''id'') of None \<Rightarrow> False | Some i \<Rightarrow> i \<noteq> [])"

definition device_ids :: "jdict list \<Rightarrow> json option list" where
  "device_ids ds = map (\<lambda>d. json_get d ''id'') ds"

definition good_list :: "jdict list \<Rightarrow> bool" where
  "good_list ds \<longleftrightarrow> list_all good_device ds \<and> distinct (device_ids ds) \<and> length ds \<le> MAX_DEVICES"

lemma good_deviceE:
  assumes "good_device d"
  obtains i where "device_ok d" "json_get d ''id'' = Some (JStr i)" "i \<noteq> []"
  using assms by (auto simp: good_device_def split: option.splits)

lemma good_deviceI: "device_ok d \<Longrightarrow> json_get d ''id'' = Some (JStr i) \<Longrightarrow> i \<noteq> [] \<Longrightarrow> good_device d"
  by (simp add: good_device_def)

lemma norm_keeps: "norm_device d = Some d' \<Longrightarrow> k \<notin> {''commands'', ''metrics_port''} \<Longrightarrow> json_get d' k = json_get d k"
  by (auto simp: norm_device_def Let_def json_get_set split: option.splits)

section \<open>Edits keep lists good\<close>

lemma collect_total: "(\<And>x. x \<in> set xs \<Longrightarrow> f x \<noteq> None) \<Longrightarrow> collect f xs \<noteq> None"
  by (induction xs) (auto split: option.splits)

lemma norm_total:
  assumes "json_get d ''commands'' = Some (JArr vs)" "\<And>v. v \<in> set vs \<Longrightarrow> norm_command v \<noteq> None"
    and "json_get d ''metrics_port'' = Some (JInt p)"
  shows "norm_device d \<noteq> None"
proof -
  obtain cs where "collect norm_command vs = Some cs" using collect_total [of vs norm_command] assms(2) by blast
  then show ?thesis using assms(1,3) by (simp add: norm_device_def Let_def json_get_set port_again)
qed

lemma dump_command_total: "norm_command (dump_command c) \<noteq> None"
proof -
  have "\<exists>t. text_or (Some (JStr s)) y = Some t" for s y by (simp add: text_or_def)
  then show ?thesis
    by (auto simp: norm_command_def dump_command_def json_get_def split: option.splits list.splits)
       (metis option.distinct(1))+
qed

lemma dump_get:
  "json_get (dump_device b) ''id'' = Some (case di_id b of None \<Rightarrow> JNull | Some s \<Rightarrow> JStr s)"
  "json_get (dump_device b) ''metrics_port'' = Some (JInt (di_metrics_port b))"
  by (simp_all add: json_get_def dump_device_def)

lemma resolved_total:
  assumes "\<forall>d. existing = Some d \<longrightarrow> device_ok d"
  shows "\<exists>vs. resolve_saved_commands incoming existing = JArr vs \<and> (\<forall>v \<in> set vs. norm_command v \<noteq> None)"
proof (cases incoming)
  case (Some cs)
  then show ?thesis using dump_command_total by (auto simp: resolve_saved_commands_def)
next
  case None
  show ?thesis
  proof (cases existing)
    case e: (Some d)
    then obtain cs where "json_get d ''commands'' = Some (JArr (map JObj cs))" "list_all command_ok cs"
      using assms by (auto elim: device_okE)
    then show ?thesis using None e
      by (auto simp: resolve_saved_commands_def norm_command_again list_all_iff json_get_def)
  qed (simp add: resolve_saved_commands_def None)
qed

text \<open>Both ways of normalising an edited device succeed and keep its id.\<close>

lemma upserted_good:
  assumes "\<forall>d. existing = Some d \<longrightarrow> device_ok d" and "i \<noteq> []" and "json_get d0 ''id'' = Some (JStr i)"
    and "json_get d0 ''metrics_port'' = Some (JInt p)"
  shows "\<exists>d. norm_device (json_set ''commands'' (resolve_saved_commands incoming existing) d0) = Some d
    \<and> good_device d \<and> json_get d ''id'' = Some (JStr i)"
proof -
  let ?d = "json_set ''commands'' (resolve_saved_commands incoming existing) d0"
  obtain vs where vs: "resolve_saved_commands incoming existing = JArr vs" "\<forall>v \<in> set vs. norm_command v \<noteq> None"
    using resolved_total [OF assms(1)] by blast
  have "norm_device ?d \<noteq> None" using vs assms(4) by (intro norm_total [of _ vs p]) (simp_all add: json_get_set)
  then obtain d where d: "norm_device ?d = Some d" by blast
  have "json_get d ''id'' = Some (JStr i)" using norm_keeps [OF d, of "''id''"] assms(3) by (simp add: json_get_set)
  then show ?thesis using d norm_device_ok [OF d] assms(2) by (auto intro: good_deviceI)
qed

lemma replace_device_split:
  "replace_device did f ds = Edited ds' \<Longrightarrow>
     \<exists>xs d ys d'. ds = xs @ d # ys \<and> ds' = xs @ d' # ys \<and> json_get d ''id'' = Some (JStr did) \<and> f d = Some d'"
proof (induction ds arbitrary: ds')
  case (Cons d ds)
  show ?case
  proof (cases "json_get d ''id'' = Some (JStr did)")
    case True
    then obtain d' where "f d = Some d'" "ds' = d' # ds" using Cons.prems by (auto split: option.splits)
    then show ?thesis using True
      by (intro exI [of _ "[]"] exI [of _ d] exI [of _ ds] exI [of _ d']) simp
  next
    case False
    then obtain ds1 where "replace_device did f ds = Edited ds1" "ds' = d # ds1"
      using Cons.prems by (auto split: option.splits edit_result.splits if_splits)
    moreover from Cons.IH [OF this(1)] obtain xs e ys e' where "ds = xs @ e # ys" "ds1 = xs @ e' # ys"
      "json_get e ''id'' = Some (JStr did)" "f e = Some e'" by blast
    ultimately show ?thesis by (intro exI [of _ "d # xs"] exI [of _ e] exI [of _ ys] exI [of _ e']) simp
  qed
qed simp

lemma replace_device_runs:
  assumes "list_all good_device ds" "\<And>d. good_device d \<Longrightarrow> json_get d ''id'' = Some (JStr did) \<Longrightarrow> f d \<noteq> None"
  shows "replace_device did f ds \<noteq> EditRaises"
  using assms(1)
proof (induction ds)
  case (Cons d ds)
  then have g: "good_device d" and "replace_device did f ds \<noteq> EditRaises" by simp_all
  then show ?case using assms(2) [OF g]
    by (elim good_deviceE) (auto split: option.splits edit_result.splits)
qed simp

lemma replaced_good:
  assumes "good_list ds" "replace_device did f ds = Edited ds'"
    and "\<And>d d'. good_device d \<Longrightarrow> json_get d ''id'' = Some (JStr did) \<Longrightarrow> f d = Some d' \<Longrightarrow>
           good_device d' \<and> json_get d' ''id'' = Some (JStr did)"
  shows "good_list ds' \<and> device_ids ds' = device_ids ds"
proof -
  from replace_device_split [OF assms(2)] obtain xs d ys d' where
    ds: "ds = xs @ d # ys" "ds' = xs @ d' # ys" "json_get d ''id'' = Some (JStr did)" "f d = Some d'" by blast
  have "good_device d" using assms(1) ds(1) by (simp add: good_list_def)
  from assms(3) [OF this ds(3,4)] have "good_device d'" "json_get d' ''id'' = json_get d ''id''"
    using ds(3) by simp_all
  then show ?thesis using assms(1) ds(1,2) by (simp add: good_list_def device_ids_def)
qed

text \<open>The two callbacks of the loop.\<close>

lemma update_callback:
  assumes "good_device d" "json_get d ''id'' = Some (JStr did)"
  shows "\<exists>d'. norm_device (json_set ''commands'' (JArr (map dump_command cs)) d) = Some d'
    \<and> good_device d' \<and> json_get d' ''id'' = Some (JStr did)"
proof -
  from assms obtain p where "json_get d ''metrics_port'' = Some (JInt p)" and "did \<noteq> []"
    by (auto elim!: good_deviceE device_okE)
  then show ?thesis
    using upserted_good [of None did d p "Some cs"] assms(2) by (simp add: resolve_saved_commands_def)
qed

lemma upsert_callback:
  assumes "good_device d" "json_get d ''id'' = Some (JStr (c # cs))" "di_id b = Some (c # cs)"
  shows "\<exists>d'. norm_device (json_set ''commands'' (resolve_saved_commands (di_commands b) (Some d)) (dump_device b)) = Some d'
    \<and> good_device d' \<and> json_get d' ''id'' = Some (JStr (c # cs))"
  using assms by (intro upserted_good [of _ _ _ "di_metrics_port b"]) (auto simp: dump_get elim: good_deviceE)

lemma edited_good:
  assumes "good_list ds" "edit_allowed ed ds"
  shows "edited ed ds \<noteq> EditRaises \<and> (\<forall>ds'. edited ed ds = Edited ds' \<longrightarrow> good_list ds')"
proof (cases ed)
  case (Upsert b fresh)
  have all: "list_all good_device ds" using assms(1) by (simp add: good_list_def)
  show ?thesis
  proof (cases "di_id b = None \<or> di_id b = Some []")
    case True
    then have "json_get (json_set ''id'' (JStr fresh) (dump_device b)) ''metrics_port'' = Some (JInt (di_metrics_port b))"
      by (simp add: json_get_set dump_get)
    from upserted_good [of None fresh, OF _ _ _ this, of "di_commands b"] assms(2) Upsert
    obtain d where d: "norm_device (json_set ''commands'' (resolve_saved_commands (di_commands b) None)
        (json_set ''id'' (JStr fresh) (dump_device b))) = Some d" "good_device d" "json_get d ''id'' = Some (JStr fresh)"
      by (auto simp: json_get_set)
    have "good_list (ds @ [d])" if "length ds < MAX_DEVICES"
      using assms d(2,3) that Upsert by (auto simp: good_list_def device_ids_def list_all_iff)
    then show ?thesis using True d(1)
      by (auto simp: Upsert upsert_devices_def split: option.splits)
  next
    case False
    then obtain c cs where b: "di_id b = Some (c # cs)" by (cases "di_id b") (auto simp: neq_Nil_conv)
    let ?f = "\<lambda>existing. norm_device (json_set ''commands'' (resolve_saved_commands (di_commands b) (Some existing)) (dump_device b))"
    have f: "\<exists>d'. ?f d = Some d' \<and> good_device d' \<and> json_get d' ''id'' = Some (JStr (c # cs))"
      if "good_device d" "json_get d ''id'' = Some (JStr (c # cs))" for d
      using upsert_callback [OF that b] .
    have "replace_device (c # cs) ?f ds \<noteq> EditRaises" using all f by (intro replace_device_runs) auto
    moreover have "good_list ds'" if "replace_device (c # cs) ?f ds = Edited ds'" for ds'
    proof (rule replaced_good [OF assms(1) that, THEN conjunct1])
      fix d d' assume d: "good_device d" "json_get d ''id'' = Some (JStr (c # cs))" "?f d = Some d'"
      show "good_device d' \<and> json_get d' ''id'' = Some (JStr (c # cs))"
        using f [OF d(1,2)] d(3) by auto
    qed
    ultimately show ?thesis by (simp add: Upsert upsert_devices_def b)
  qed
next
  case (Delete did)
  have "good_list (filter P ds)" for P
    using assms(1) by (auto simp: good_list_def device_ids_def list_all_iff distinct_map_filter
        intro: order_trans [OF length_filter_le])
  moreover have "\<not> list_ex (\<lambda>d. json_get d ''id'' = None) ds"
    using assms(1) by (auto simp: good_list_def list_all_iff list_ex_iff elim!: good_deviceE)
  ultimately show ?thesis by (auto simp: Delete delete_device_def Let_def)
next
  case (UpdateCommands did cs)
  let ?f = "\<lambda>d. norm_device (json_set ''commands'' (JArr (map dump_command cs)) d)"
  have all: "list_all good_device ds" using assms(1) by (simp add: good_list_def)
  have f: "?f d \<noteq> None" if "good_device d" "json_get d ''id'' = Some (JStr did)" for d
    using update_callback [OF that, of cs] by auto
  have "replace_device did ?f ds \<noteq> EditRaises" using all f by (rule replace_device_runs)
  moreover have "good_list ds'" if "replace_device did ?f ds = Edited ds'" for ds'
  proof (rule replaced_good [OF assms(1) that, THEN conjunct1])
    fix d d' assume d: "good_device d" "json_get d ''id'' = Some (JStr did)" "?f d = Some d'"
    show "good_device d' \<and> json_get d' ''id'' = Some (JStr did)"
      using update_callback [OF d(1,2), of cs] d(3) by auto
  qed
  ultimately show ?thesis by (simp add: UpdateCommands command_devices_def)
qed

end
