(* ===== verification/Device_Crash.thy ===== *)
theory Device_Crash
  imports Device_Recovery
begin

text \<open>
  The device store as a system: edits with failing writes, power losses and restarts. The
  invariant, its consequences for what a restart brings back, and recovery mode.
\<close>

section \<open>Reading back a saved list\<close>

definition reloaded :: "jdict list \<Rightarrow> jdict list" where
  "reloaded ds = (case parse_devices (config_text ds) of None \<Rightarrow> [] | Some ds' \<Rightarrow> ds')"

lemma norm_entry_object: "norm_entry (JObj d) = map_option (\<lambda>x. [x]) (norm_device d)"
  by (simp add: norm_entry_def)

text \<open>A list whose elements come one by one from another's by a partial function.\<close>

abbreviation normed :: "jdict list \<Rightarrow> jdict list \<Rightarrow> bool" where
  "normed \<equiv> list_all2 (\<lambda>d d'. norm_device d = Some d')"

lemma normed_unique: "normed ds xs \<Longrightarrow> normed ds ys \<Longrightarrow> xs = ys"
  by (induction ds arbitrary: xs ys) (auto simp: list_all2_Cons1)

lemma normed_member: "normed ds xs \<Longrightarrow> x \<in> set xs \<Longrightarrow> \<exists>d \<in> set ds. norm_device d = Some x"
  by (induction rule: list_all2_induct) auto

lemma parse_config:
  assumes "list_all device_ok ds"
  shows "\<exists>ds'. parse_devices (config_text ds) = Some ds' \<and> list_all2 (\<lambda>d d'. norm_device d = Some d') ds ds'"
proof -
  have "\<exists>ds'. collect norm_entry (map JObj ds) = Some ds' \<and> list_all2 (\<lambda>d d'. norm_device d = Some d') ds ds'"
    using assms
  proof (induction ds)
    case (Cons d ds)
    then obtain ds' where ds': "collect norm_entry (map JObj ds) = Some ds'"
      "list_all2 (\<lambda>d d'. norm_device d = Some d') ds ds'" by auto
    obtain d' where "norm_device d = Some d'" using norm_again [of d] Cons.prems by auto
    then show ?case using ds' by (intro exI [of _ "d' # ds'"]) (simp add: norm_entry_object)
  qed simp
  then show ?thesis
    by (simp add: parse_devices_def config_text_def entries_of_def json_get_def)
qed

lemma parse_reloaded: "list_all device_ok ds \<Longrightarrow> parse_devices (config_text ds) = Some (reloaded ds)"
  using parse_config [of ds] by (auto simp: reloaded_def)

lemma good_ok: "good_list ds \<Longrightarrow> list_all device_ok ds"
  by (auto simp: good_list_def good_device_def list_all_iff)

lemma reloaded_good:
  assumes "good_list ds"
  shows "good_list (reloaded ds) \<and> device_ids (reloaded ds) = device_ids ds"
proof -
  from parse_config [OF good_ok [OF assms]] have l: "list_all2 (\<lambda>d d'. norm_device d = Some d') ds (reloaded ds)"
    by (auto simp: reloaded_def)
  have all: "list_all good_device ds" using assms by (simp add: good_list_def)
  have one: "good_device d' \<and> json_get d' ''id'' = json_get d ''id''"
    if "good_device d" "norm_device d = Some d'" for d d'
    using that norm_keeps [OF that(2), of "''id''"] norm_device_ok [OF that(2)]
    by (auto elim!: good_deviceE intro: good_deviceI)
  from l all have "list_all good_device (reloaded ds) \<and> device_ids (reloaded ds) = device_ids ds"
  proof (induction rule: list_all2_induct)
    case (Cons d ds d' ds')
    have "good_device d" using Cons.prems by simp
    from one [OF this Cons.hyps(1)] show ?case using Cons.IH Cons.prems by (simp add: device_ids_def)
  qed (simp add: device_ids_def)
  then show ?thesis using assms by (metis good_list_def device_ids_def length_map)
qed

text \<open>A list read back is settled: it reads back as itself.\<close>

lemma reloaded_settled:
  assumes "list_all device_ok ds"
  shows "reloaded (reloaded ds) = reloaded ds"
proof -
  from parse_config [OF assms] have l: "list_all2 (\<lambda>d d'. norm_device d = Some d') ds (reloaded ds)"
    by (auto simp: reloaded_def)
  have again: "norm_device d' = Some d'" if "device_ok d" "norm_device d = Some d'" for d d'
  proof -
    from norm_again [OF that(1)] that(2) have "device_ok d'" "\<not> unsettled d'" by auto
    then show ?thesis using norm_again [of d'] by auto
  qed
  have "norm_device d' = Some d' \<and> device_ok d'" if mem: "d' \<in> set (reloaded ds)" for d'
  proof -
    obtain d where "d \<in> set ds" "norm_device d = Some d'" using normed_member [OF l mem] by blast
    moreover then have "device_ok d" using assms by (simp add: list_all_iff)
    ultimately show ?thesis using again norm_device_ok by blast
  qed
  then have fixed: "normed (reloaded ds) (reloaded ds)" and ok: "list_all device_ok (reloaded ds)"
    by (auto simp: list_all2_same list_all_iff)
  from parse_config [OF ok] obtain ds2 where "parse_devices (config_text (reloaded ds)) = Some ds2"
    and l2: "list_all2 (\<lambda>d d'. norm_device d = Some d') (reloaded ds) ds2" by blast
  moreover have "ds2 = reloaded ds" using normed_unique [OF l2 fixed] .
  ultimately show ?thesis by (simp add: reloaded_def [of "reloaded ds"])
qed

section \<open>Saving\<close>

definition good_file :: "file_text disk_file \<Rightarrow> bool" where
  "good_file f \<longleftrightarrow> f = NoFile \<or> (\<exists>ds. good_list ds \<and> f = Content (config_text ds))"

definition holds :: "file_text disk_file \<Rightarrow> jdict list \<Rightarrow> bool" where
  "holds f cache \<longleftrightarrow> (f = NoFile \<and> cache = [])
     \<or> (\<exists>ds. good_list ds \<and> f = Content (config_text ds) \<and> (cache = ds \<or> cache = reloaded ds))"

definition disk_ok :: "disk \<Rightarrow> bool" where
  "disk_ok dk \<longleftrightarrow> good_file (target (primary dk)) \<and> good_file (target (backup dk))
     \<and> (target (primary dk) = NoFile \<longrightarrow> target (backup dk) = NoFile)"

text \<open>
  The ways a save of a good list can end: refused or failed with nothing changed; failed with
  the primary and the cache replaced, the backup old or new; done; or cut by a power loss with
  each file old or new, the backup new only after the primary.
\<close>

lemma save_cases:
  assumes "good_list ds" "\<not> recovery_mode rt" "save e ds rt dk = (rt', dk', r)"
  shows "(r = NotPersisted \<and> rt' = rt \<and> target (primary dk') = target (primary dk) \<and> target (backup dk') = target (backup dk))
    \<or> (r = NotPersisted \<and> rt' = rt\<lparr>devices_cache := ds\<rparr> \<and> target (primary dk') = Content (config_text ds)
        \<and> target (backup dk') \<in> {target (backup dk), Content (config_text ds)})
    \<or> (r = Persisted \<and> rt' = rt\<lparr>devices_cache := ds\<rparr> \<and> target (primary dk') = Content (config_text ds)
        \<and> target (backup dk') = Content (config_text ds))
    \<or> (r = PowerLost \<and> target (backup dk') = target (backup dk)
        \<and> target (primary dk') \<in> {target (primary dk), Content (config_text ds)})
    \<or> (r = PowerLost \<and> target (primary dk') = Content (config_text ds)
        \<and> target (backup dk') \<in> {target (backup dk), Content (config_text ds)})"
proof -
  have parse: "parse_devices (config_text ds) \<noteq> None" using parse_reloaded [OF good_ok [OF assms(1)]] by simp
  obtain p ep where p: "write_payload (primary_fault e) (unlinks e) (config_text ds) (primary dk) = (p, ep)" by force
  obtain b eb where b: "write_payload (backup_fault e) (unlinks e) (config_text ds) (backup dk) = (b, eb)" by force
  note pc = publish_cases [OF safe_plans(1) p [unfolded write_payload_def]]
  note bc = publish_cases [OF safe_plans(1) b [unfolded write_payload_def]]
  obtain y where y: "parse_devices (config_text ds) = Some y" using parse by blast
  note sv = assms(3) [unfolded save_def Let_def y, simplified assms(2) p, simplified]
  show ?thesis
  proof (cases ep)
    case Written
    then show ?thesis using pc bc sv by (cases eb) (auto simp: b)
  next
    case (Raised replaced)
    then show ?thesis using pc sv by (cases replaced) auto
  next
    case Stopped
    then show ?thesis using pc sv by auto
  qed
qed

lemma save_keeps:
  assumes "good_list ds" "\<not> recovery_mode rt" "save e ds rt dk = (rt', dk', r)" "disk_ok dk"
    and "holds (target (primary dk)) (devices_cache rt)"
  shows "disk_ok dk' \<and> (r \<noteq> PowerLost \<longrightarrow> holds (target (primary dk')) (devices_cache rt') \<and> \<not> recovery_mode rt')"
proof -
  have new: "good_file (Content (config_text ds))" "holds (Content (config_text ds)) ds"
    using assms(1) by (auto simp: good_file_def holds_def)
  have old: "good_file (target (primary dk))" "good_file (target (backup dk))"
    "target (primary dk) = NoFile \<longrightarrow> target (backup dk) = NoFile"
    using assms(4) by (simp_all add: disk_ok_def)
  from save_cases [OF assms(1-3)] show ?thesis
    by (elim disjE conjE) (use new old assms(2,5) in \<open>simp_all add: disk_ok_def insert_iff, auto\<close>)
qed

section \<open>Starting\<close>

lemma start_good:
  assumes "disk_ok dk"
  shows "lifespan f unl writable dk = (dk, Some \<lparr>devices_cache =
      (case target (primary dk) of Content t \<Rightarrow> (case parse_devices t of None \<Rightarrow> [] | Some ds \<Rightarrow> ds) | _ \<Rightarrow> []),
    storage_warning = (target (primary dk) \<noteq> NoFile \<and> \<not> writable), recovery_mode = False,
    recovered_notice = False, recovery_backup = None\<rparr>)"
  using assms
  by (auto simp: disk_ok_def good_file_def lifespan_def load_startup_devices_def read_devices_def parse_reloaded good_ok)

lemma start_holds:
  assumes "disk_ok dk" "lifespan f unl writable dk = (dk', rt')"
  shows "\<exists>rt. rt' = Some rt \<and> dk' = dk \<and> \<not> recovery_mode rt \<and> holds (target (primary dk)) (devices_cache rt)"
  using start_good [OF assms(1), of f unl writable] assms
  by (auto simp: holds_def disk_ok_def good_file_def parse_reloaded good_ok)

section \<open>The invariant\<close>

lemma good_listD: "good_list ds \<Longrightarrow> \<forall>d \<in> set ds. device_ok d \<and> (\<exists>i. json_get d ''id'' = Some (JStr i) \<and> i \<noteq> [])"
  unfolding good_list_def list_all_iff by (blast elim: good_deviceE)

lemma holds_good: "holds f cache \<Longrightarrow> good_list cache"
  using reloaded_good by (auto simp: holds_def good_list_def device_ids_def)

text \<open>What a restart loads is the list in memory, read back.\<close>

lemma start_reloads:
  assumes "disk_ok dk" "holds (target (primary dk)) cache" "lifespan f unl writable dk = (dk', rt')"
  shows "\<exists>rt. rt' = Some rt \<and> dk' = dk \<and> \<not> recovery_mode rt \<and> devices_cache rt = reloaded cache"
proof -
  have "reloaded [] = []" by (simp add: reloaded_def parse_devices_def config_text_def entries_of_def json_get_def)
  then show ?thesis
    using start_good [OF assms(1), of f unl writable] assms(2,3) reloaded_settled good_ok
    by (auto simp: holds_def parse_reloaded)
qed

definition server_inv :: "server \<Rightarrow> bool" where
  "server_inv s \<longleftrightarrow> disk_ok (on_disk s) \<and>
     (case up s of None \<Rightarrow> True
      | Some rt \<Rightarrow> \<not> recovery_mode rt \<and> holds (target (primary (on_disk s))) (devices_cache rt))"

text \<open>The ways a route can answer, for a good list out of recovery mode.\<close>

lemma route_cases:
  assumes "\<not> recovery_mode rt" "good_list (devices_cache rt)" "edit_allowed ed (devices_cache rt)"
    and "device_route e ed rt dk = (rt', dk', reply, evs)"
  shows "(\<exists>msg. reply = ApiError msg \<and> rt' = rt \<and> dk' = dk \<and> evs = [])
    \<or> (\<exists>ds r. edited ed (devices_cache rt) = Edited ds \<and> good_list ds \<and> save e ds rt dk = (rt', dk', r)
        \<and> reply = (case r of Persisted \<Rightarrow> ApiOk ds | NotPersisted \<Rightarrow> ApiError save_error | PowerLost \<Rightarrow> ApiGone)
        \<and> evs = (if r = Persisted then after_save ed ds else []))"
  using edited_good [OF assms(2,3)] assms(1,4)
  by (cases "edited ed (devices_cache rt)") (auto simp: device_route_def split: prod.splits save_end.splits)

lemma route_keeps:
  assumes "disk_ok dk" "\<not> recovery_mode rt" "holds (target (primary dk)) (devices_cache rt)"
    and "edit_allowed ed (devices_cache rt)" "device_route e ed rt dk = (rt', dk', reply, evs)"
  shows "disk_ok dk' \<and> (reply \<noteq> ApiGone \<longrightarrow> \<not> recovery_mode rt' \<and> holds (target (primary dk')) (devices_cache rt'))"
  using route_cases [OF assms(2) holds_good [OF assms(3)] assms(4,5)]
proof (elim disjE exE conjE)
  fix msg assume "reply = ApiError msg" "rt' = rt" "dk' = dk" "evs = []"
  then show ?thesis using assms by simp
next
  fix ds r assume "good_list ds" and s: "save e ds rt dk = (rt', dk', r)"
    and reply: "reply = (case r of Persisted \<Rightarrow> ApiOk ds | NotPersisted \<Rightarrow> ApiError save_error | PowerLost \<Rightarrow> ApiGone)"
  from save_keeps [OF this(1) assms(2) s assms(1,3)] show ?thesis by (cases r) (auto simp: reply)
qed

interpretation devices: invariant_system fresh_install server_step server_inv
proof
  fix s assume "fresh_install s"
  then show "server_inv s" by (simp add: fresh_install_def server_inv_def disk_ok_def good_file_def)
next
  fix s t assume inv: "server_inv s" and "server_step s t"
  from this(2) show "server_inv t"
  proof (cases rule: server_step.cases)
    case (step_edit rt ed e rt' dk' reply evs)
    then show ?thesis using inv route_keeps [of "on_disk s" rt ed e rt' dk' reply evs]
      by (auto simp: server_inv_def down_if_gone_def)
  next
    case (step_retry rt f unl rt' dk' reply evs)
    then show ?thesis using inv by (auto simp: server_inv_def retry_recovery_def down_if_gone_def)
  next
    case step_crash
    then show ?thesis using inv by (simp add: server_inv_def)
  next
    case (step_start f unl writable dk' rt)
    then show ?thesis using inv start_holds [of "on_disk s" f unl writable dk' rt]
      by (auto simp: server_inv_def)
  qed
qed

section \<open>Properties\<close>

abbreviation server_reachable :: "server \<Rightarrow> bool" where
  "server_reachable \<equiv> reachable fresh_install server_step"

definition one_device :: device_in where
  "one_device = \<lparr>di_id = None, di_name = lit ''pi'', di_host = lit ''pi.lan'', di_username = lit ''me'',
     di_metrics_port = 9100, di_commands = None\<rparr>"

definition no_faults :: save_env where
  "no_faults = \<lparr>primary_fault = NoFault, backup_fault = NoFault, unlinks = True\<rparr>"

definition started :: server where
  "started = \<lparr>up = Some \<lparr>devices_cache = [], storage_warning = False, recovery_mode = False,
     recovered_notice = False, recovery_backup = None\<rparr>,
     on_disk = \<lparr>primary = \<lparr>target = NoFile, strays = 0\<rparr>, backup = \<lparr>target = NoFile, strays = 0\<rparr>\<rparr>\<rparr>"

lemma started_reachable: "server_reachable started"
proof -
  let ?s = "started\<lparr>up := None\<rparr>"
  have "server_reachable ?s" by (rule reach_init) (simp add: fresh_install_def started_def)
  moreover have "server_step ?s started"
    using step_start [of ?s NoFault True True "on_disk started" "up started"]
    by (simp add: lifespan_def load_startup_devices_def read_devices_def started_def)
  ultimately show ?thesis by (rule reach_step)
qed

definition saved_device :: jdict where
  "saved_device = [(lit ''id'', js ''dev_1''), (lit ''name'', js ''pi''), (lit ''host'', js ''pi.lan''),
     (lit ''username'', js ''me''), (lit ''metrics_port'', JInt 9100), (lit ''commands'', JArr [])]"

definition first_edit :: edit where
  "first_edit = Upsert one_device (lit ''dev_1'')"

lemma one_device_edited: "edited first_edit [] = Edited [saved_device]"
  by (simp add: first_edit_def upsert_devices_def one_device_def MAX_DEVICES_def norm_device_def resolve_saved_commands_def
    dump_device_def json_set_def json_get_def port_of_def saved_device_def js_def Let_def)

lemma one_device_allowed: "edit_allowed first_edit []"
  by (simp add: first_edit_def device_in_ok_def one_device_def MAX_NAME_LEN_def MAX_HOST_LEN_def MAX_USERNAME_LEN_def
    MIN_METRICS_PORT_def MAX_METRICS_PORT_def)

text \<open>
  C29. The device list stays well-formed whatever happens. On a fresh installation, after any
  requests, failing writes, power losses and restarts, the list in memory has at most 250
  devices with distinct non-empty ids, every device normalised; the server is never in
  recovery mode; and no request on the list fails with an internal error.
\<close>

theorem device_list_invariant:
  assumes "server_reachable s" "up s = Some rt"
  shows "length (devices_cache rt) \<le> 250 \<and> distinct (device_ids (devices_cache rt))
    \<and> (\<forall>d \<in> set (devices_cache rt). device_ok d \<and> (\<exists>i. json_get d ''id'' = Some (JStr i) \<and> i \<noteq> []))
    \<and> \<not> recovery_mode rt
    \<and> (\<forall>e ed. edit_allowed ed (devices_cache rt) \<longrightarrow> fst (snd (snd (device_route e ed rt (on_disk s)))) \<noteq> ApiRaises)"
proof -
  have inv: "\<not> recovery_mode rt" "good_list (devices_cache rt)"
    using devices.reachable_inv [OF assms(1)] assms(2) holds_good by (auto simp: server_inv_def)
  have "fst (snd (snd (device_route e ed rt (on_disk s)))) \<noteq> ApiRaises" if "edit_allowed ed (devices_cache rt)" for e ed
  proof -
    obtain rt' dk' reply evs where r: "device_route e ed rt (on_disk s) = (rt', dk', reply, evs)"
      by (metis prod_cases4)
    from route_cases [OF inv that r] show ?thesis by (auto simp: r split: save_end.splits) (metis save_end.exhaust)
  qed
  then show ?thesis
    using inv good_listD by (simp add: good_list_def MAX_DEVICES_def)
qed

theorem device_list_invariant_witness:
  "\<not> recovery_mode (the (up started))"
  using device_list_invariant [OF started_reachable, of "the (up started)"] by (simp add: started_def)



text \<open>
  C30. A configuration that cannot be read is never overwritten by anything but its own validated
  backup. Whatever is on disk and however the repair fails, starting up leaves the backup as it
  is and the primary as it was or equal to the backup; if it reports a repair, the primary now
  is the backup's text and loads to the list in memory; and in recovery mode every edit is
  refused with nothing changed, while a retry restores exactly the retained backup text or
  leaves recovery mode on.
\<close>

theorem recovery_protects:
  assumes "lifespan f unl writable dk = (dk', Some rt)"
  shows "target (backup dk') = target (backup dk)
    \<and> target (primary dk') \<in> {target (primary dk), target (backup dk)}
    \<and> (recovered_notice rt \<longrightarrow> \<not> recovery_mode rt \<and> target (primary dk') = target (backup dk)
         \<and> read_devices (target (primary dk')) = Some (devices_cache rt))
    \<and> (recovery_mode rt \<longrightarrow> read_devices (target (primary dk)) = None
         \<and> (\<forall>e ed. device_route e ed rt dk' = (rt, dk', ApiError recovery_read_only_error, []))
         \<and> (\<forall>f2 u2 rt2 dk2 reply evs. retry_recovery f2 u2 rt dk' = (rt2, dk2, reply, evs) \<longrightarrow>
              target (backup dk2) = target (backup dk)
            \<and> (\<not> recovery_mode rt2 \<longrightarrow> target (primary dk2) = target (backup dk)
                 \<and> read_devices (target (primary dk2)) = Some (devices_cache rt2))))"
proof (cases "read_devices (target (primary dk))")
  case (Some devs)
  then show ?thesis using assms by (auto simp: lifespan_def load_startup_devices_def)
next
  case None
  have restore: "target (backup dk2) = target (backup dk1)
      \<and> (e = Written \<longrightarrow> target (primary dk2) = Content t)
      \<and> target (primary dk2) \<in> {target (primary dk1), Content t}"
    if "restore_and_verify f1 u1 t dk1 = (dk2, e)" for f1 u1 t dk1 dk2 e
  proof -
    obtain p ep where p: "write_payload f1 u1 t (primary dk1) = (p, ep)" by force
    from publish_cases [OF safe_plans(1) p [unfolded write_payload_def]] that show ?thesis
      by (cases ep) (auto simp: restore_and_verify_def p split: if_splits)
  qed
  show ?thesis
  proof (cases "\<exists>t devs. target (backup dk) = Content t \<and> parse_devices t = Some devs")
    case False
    then have l: "dk' = dk" "\<not> recovered_notice rt" "recovery_mode rt \<longrightarrow> recovery_backup rt = None"
      using assms None
      by (auto simp: lifespan_def load_startup_devices_def split: disk_file.splits option.splits if_splits)
    then show ?thesis using None by (auto simp: device_route_def retry_recovery_def)
  next
    case True
    then obtain t devs where b: "target (backup dk) = Content t" "parse_devices t = Some devs" by blast
    obtain dk1 e where r: "restore_and_verify f unl t dk = (dk1, e)" by force
    note rr = restore [OF r]
    have l: "dk' = dk1" "devices_cache rt = devs" "recovered_notice rt \<longleftrightarrow> e = Written"
      "recovery_mode rt \<longleftrightarrow> e \<noteq> Written" "recovery_mode rt \<longrightarrow> recovery_backup rt = Some t"
      using assms None b r
      by (auto simp: lifespan_def load_startup_devices_def split: write_end.splits)
    have again: "target (backup dk2) = target (backup dk)
        \<and> (\<not> recovery_mode rt2 \<longrightarrow> target (primary dk2) = Content t \<and> devices_cache rt2 = devs)"
      if m: "recovery_mode rt" and rv: "retry_recovery f2 u2 rt dk' = (rt2, dk2, reply, evs)"
      for f2 u2 rt2 dk2 reply evs
    proof -
      obtain dk3 e3 where r3: "restore_and_verify f2 u2 t dk1 = (dk3, e3)" by force
      have "recovery_mode rt" "recovery_backup rt = Some t" using m l by auto
      then have "dk2 = dk3 \<and> devices_cache rt2 = devices_cache rt \<and> (\<not> recovery_mode rt2 \<longrightarrow> e3 = Written)"
        using rv by (cases e3) (auto simp: retry_recovery_def l(1) r3 simp del: lit_simps)
      then show ?thesis using restore [OF r3] rr l(2) by auto
    qed
    show ?thesis
      using rr l again None b by (auto simp: device_route_def read_devices_def)
  qed
qed

theorem recovery_protects_witness:
  "let dk = \<lparr>primary = \<lparr>target = Content NotJson, strays = 0\<rparr>,
             backup = \<lparr>target = Content (config_text []), strays = 0\<rparr>\<rparr>;
       (dk', rt) = lifespan (Raises WriteTemp) True True dk
   in rt \<noteq> None \<and> recovery_mode (the rt)
      \<and> device_route no_faults first_edit (the rt) dk' = (the rt, dk', ApiError recovery_read_only_error, [])"
proof -
  let ?dk = "\<lparr>primary = \<lparr>target = Content NotJson, strays = 0\<rparr>,
      backup = \<lparr>target = Content (config_text []), strays = 0\<rparr>\<rparr> :: disk"
  have p: "parse_devices (config_text []) = Some []"
    by (simp add: parse_devices_def config_text_def entries_of_def json_get_def)
  then obtain rt where l: "lifespan (Raises WriteTemp) True True ?dk = (?dk, Some rt)" "recovery_mode rt"
    by (simp add: lifespan_def load_startup_devices_def read_devices_def parse_devices_def [of NotJson]
      restore_and_verify_def write_payload_def publish_def device_plan_def begin_writing_def)
  from recovery_protects [OF l(1)] show ?thesis using l by simp
qed

end
