(* ===== verification/Session_Authority.thy ===== *)
theory Session_Authority
  imports Session_Store
begin

text \<open>
  What the session store promises: it behaves as a map from token digests to records under
  create, prune and revoke, whatever fails while the file is written; so a token is accepted
  only while it was issued, is not expired, belongs to the current password and was not
  revoked. And what the login throttle counts.
\<close>

section \<open>Reading back what was published\<close>

definition entry_ok :: "pystr \<times> login \<Rightarrow> bool" where
  "entry_ok e \<longleftrightarrow> digest_ok (fst e) \<and> l_generation (snd e) \<noteq> [] \<and> 0 < l_expires (snd e)"

lemma record_json_valid: "l_generation r \<noteq> [] \<Longrightarrow> 0 < l_expires r \<Longrightarrow> validate_record (record_json r) = Some r"
  by (auto simp: validate_record_def record_json_def json_get_def)

lemma entries_valid:
  "list_all entry_ok ss \<Longrightarrow> validate_entries (map (\<lambda>(k, r). (k, record_json r)) ss) = Some ss"
  by (induction ss) (auto simp: entry_ok_def record_json_valid)

lemma validate_entries_ok: "validate_entries d = Some ss \<Longrightarrow> list_all entry_ok ss"
  by (induction d arbitrary: ss rule: validate_entries.induct)
     (auto simp: entry_ok_def validate_record_def split: if_splits option.splits json.splits)

lemma state_valid:
  assumes "list_all entry_ok ss"
  shows "validate_session_state (state_json ss) = Some (sort_key fst ss)"
proof -
  have "list_all entry_ok (sort_key fst ss)" using assms by (simp add: list_all_iff)
  then show ?thesis
    by (auto simp: validate_session_state_def state_json_def json_get_def entries_valid)
qed

lemma wf_sort: "wf_dict d \<Longrightarrow> wf_dict (sort_key fst d)"
  by (simp add: wf_dict_def distinct_map)

lemma get_sort: "wf_dict d \<Longrightarrow> map_of (sort_key fst d) = map_of d"
proof
  fix k assume d: "wf_dict d"
  then have "dict_get (sort_key fst d) k = Some v \<longleftrightarrow> dict_get d k = Some v" for v
    by (simp add: wf_dict_get_iff wf_sort)
  then show "dict_get (sort_key fst d) k = dict_get d k" by (metis option.exhaust)
qed

section \<open>The store as a map\<close>

definition sound :: "file_text place \<Rightarrow> bool" where
  "sound p \<longleftrightarrow> (\<exists>ss. load_sessions p = Some ss \<and> wf_dict ss \<and> list_all entry_ok ss)"

definition logins_of :: "file_text place \<Rightarrow> pystr \<Rightarrow> login option" where
  "logins_of p = (case load_sessions p of None \<Rightarrow> Map.empty | Some ss \<Rightarrow> map_of ss)"

text \<open>Publishing a good dictionary: the new map, or the old one when it did not succeed.\<close>

lemma load_content: "target p' = target p \<Longrightarrow> load_sessions p' = load_sessions p"
  by (simp add: load_sessions_def)

lemma publish_map:
  assumes "wf_dict ss" "list_all entry_ok ss" "publish_sessions f u ss p = (p', e)" "sound p"
  shows "sound p' \<and> (logins_of p' = logins_of p \<or> logins_of p' = map_of ss)
    \<and> (e = Written \<longrightarrow> logins_of p' = map_of ss) \<and> (f = NoFault \<longrightarrow> e = Written)"
proof -
  have pub: "publish session_plan f u (Json (state_json ss)) p = (p', e)"
    using assms(3) by (simp add: publish_sessions_def state_valid [OF assms(2)])
  have new: "load_sessions p' = Some (sort_key fst ss)" if "target p' = Content (Json (state_json ss))"
    using that by (simp add: load_sessions_def state_valid [OF assms(2)])
  have "sound p' \<and> logins_of p' = map_of ss" if "target p' = Content (Json (state_json ss))"
    using new [OF that] wf_sort [OF assms(1)] get_sort [OF assms(1)] assms(2)
    by (simp add: sound_def logins_of_def list_all_iff)
  moreover have "sound p' \<and> logins_of p' = logins_of p" if "target p' = target p"
    using load_content [OF that] assms(4) by (simp add: sound_def logins_of_def)
  moreover have "f = NoFault \<longrightarrow> e = Written" using sessions_file.write_no_fault pub by (metis snd_conv)
  ultimately show ?thesis using publish_cases [OF safe_plans(2) pub] by auto
qed

text \<open>The calls, and what each does to the map and answers.\<close>

datatype store_call =
    Create pystr bool pystr rat
  | Validate pystr pystr rat
  | Revoke pystr

definition yes :: "'a outcome \<Rightarrow> bool outcome" where
  "yes out = (case out of Returns x \<Rightarrow> Returns True | Fails \<Rightarrow> Fails | Gone \<Rightarrow> Gone)"

fun do_call :: "(pystr \<Rightarrow> pystr) \<Rightarrow> fault \<Rightarrow> bool \<Rightarrow> store_call \<Rightarrow> file_text place \<Rightarrow> file_text place \<times> bool outcome" where
  "do_call sha f u (Create gen remembered t now) p = map_prod id yes (create sha f u gen remembered t now p)"
| "do_call sha f u (Validate t gen now) p = validate sha f u (Some t) gen now p"
| "do_call sha f u (Revoke t) p = map_prod id yes (revoke sha f u (Some t) p)"

definition lifetime :: "bool \<Rightarrow> int" where
  "lifetime remembered = (if remembered then REMEMBERED_SECONDS else SESSION_ONLY_SECONDS)"

definition prune :: "pystr \<Rightarrow> int \<Rightarrow> (pystr \<Rightarrow> login option) \<Rightarrow> pystr \<Rightarrow> login option" where
  "prune gen now L d = (case L d of None \<Rightarrow> None | Some r \<Rightarrow> if stale gen now r then None else Some r)"

fun spec_map :: "(pystr \<Rightarrow> pystr) \<Rightarrow> store_call \<Rightarrow> (pystr \<Rightarrow> login option) \<Rightarrow> (pystr \<Rightarrow> login option)" where
  "spec_map sha (Create gen remembered t now) L =
     L(sha t \<mapsto> \<lparr>l_generation = gen, l_expires = int_of_float now + lifetime remembered\<rparr>)"
| "spec_map sha (Validate t gen now) L = prune gen (int_of_float now) L"
| "spec_map sha (Revoke t) L = L(sha t := None)"

fun spec_answer :: "(pystr \<Rightarrow> pystr) \<Rightarrow> store_call \<Rightarrow> (pystr \<Rightarrow> login option) \<Rightarrow> bool" where
  "spec_answer sha (Validate t gen now) L = (prune gen (int_of_float now) L (sha t) \<noteq> None)"
| "spec_answer sha c L = True"

fun call_token :: "store_call \<Rightarrow> pystr" where
  "call_token (Create gen remembered t now) = t"
| "call_token (Validate t gen now) = t"
| "call_token (Revoke t) = t"

text \<open>Tokens are ASCII and not empty, the generation is not empty, and time is past 1970.\<close>

fun call_ok :: "store_call \<Rightarrow> bool" where
  "call_ok (Create gen remembered t now) = (t \<noteq> [] \<and> list_all (\<lambda>c. c < 128) t \<and> gen \<noteq> [] \<and> 0 \<le> now)"
| "call_ok (Validate t gen now) = (t \<noteq> [] \<and> list_all (\<lambda>c. c < 128) t)"
| "call_ok (Revoke t) = (t \<noteq> [] \<and> list_all (\<lambda>c. c < 128) t)"

lemma kept_get:
  "wf_dict ss \<Longrightarrow> map_of (filter (\<lambda>(k, r). \<not> stale gen n r) ss) = prune gen n (map_of ss)"
  by (rule ext) (auto simp: prune_def dict_get_filter split: option.splits)

lemma sound_pop: "list_all entry_ok ss \<Longrightarrow> list_all entry_ok (dict_pop d ss)"
  by (auto simp: list_all_iff AList.delete_eq)

lemma sound_set: "list_all entry_ok ss \<Longrightarrow> entry_ok (d, r) \<Longrightarrow> list_all entry_ok (dict_set d r ss)"
  by (induction ss) auto

lemma session_step:
  assumes "\<And>t. digest_ok (sha t)" and "sound p" and "call_ok c" and "do_call sha f u c p = (p', out)"
  shows "sound p'
    \<and> (logins_of p' = logins_of p \<or> logins_of p' = spec_map sha c (logins_of p))
    \<and> (\<forall>b. out = Returns b \<longrightarrow> logins_of p' = spec_map sha c (logins_of p) \<and> b = spec_answer sha c (logins_of p))
    \<and> (f = NoFault \<longrightarrow> out = Returns (spec_answer sha c (logins_of p)))"
proof -
  from assms(2) obtain ss where ss: "load_sessions p = Some ss" "wf_dict ss" "list_all entry_ok ss"
    by (auto simp: sound_def)
  have L: "logins_of p = map_of ss" by (simp add: logins_of_def ss)
  show ?thesis
  proof (cases c)
    case (Create gen remembered t now)
    let ?r = "\<lparr>l_generation = gen, l_expires = int_of_float now + lifetime remembered\<rparr>"
    let ?ss = "dict_set (sha t) ?r ss"
    have ok: "list_all entry_ok ?ss"
      using ss(3) assms(1,3) Create
      by (intro sound_set)
         (auto simp: entry_ok_def int_of_float_def lifetime_def REMEMBERED_SECONDS_def SESSION_ONLY_SECONDS_def
           intro: add_nonneg_pos)
    obtain e where e: "publish_sessions f u ?ss p = (p', e)" and out: "out = yes (outcome_of (t, l_expires ?r) e)"
      using assms(3,4) Create
      by (auto simp: create_def Let_def ss token_digest_def lifetime_def split: prod.splits)
    from publish_map [OF wf_dict_set [OF ss(2)] ok e assms(2)] show ?thesis
      by (auto simp: Create L out outcome_of_def yes_def update_conv' split: write_end.splits)
  next
    case (Validate t gen now)
    then obtain x xs where t: "t = x # xs" "list_all (\<lambda>c. c < 128) t" using assms(3) by (cases t) auto
    let ?kept = "filter (\<lambda>(k, r). \<not> stale gen (int_of_float now) r) ss"
    have kept: "map_of ?kept = prune gen (int_of_float now) (map_of ss)" using ss(2) by (rule kept_get)
    have ans: "(dict_get ss (sha t) \<noteq> None \<and> dict_get ?kept (sha t) \<noteq> None) = spec_answer sha c (logins_of p)"
      by (auto simp: Validate L kept prune_def split: option.splits)
    show ?thesis
    proof (cases "length ?kept < length ss")
      case True
      then obtain e where e: "publish_sessions f u ?kept p = (p', e)"
        and out: "out = outcome_of (spec_answer sha c (logins_of p)) e"
        using assms(4) ans t by (auto simp: Validate validate_def ss token_digest_def Let_def split: prod.splits)
      have ok: "list_all entry_ok ?kept" using ss(3) by (simp add: list_all_iff)
      from publish_map [OF wf_dict_filter [OF ss(2)] ok e assms(2)] show ?thesis
        by (auto simp: Validate L kept out outcome_of_def simp del: spec_answer.simps split: write_end.splits)
    next
      case False
      then have "?kept = ss" by (metis filter_id_conv length_filter_less)
      then have same: "prune gen (int_of_float now) (map_of ss) = map_of ss" using kept by simp
      have "p' = p \<and> out = Returns (spec_answer sha c (logins_of p))"
        using assms(4) t False unfolding ans [symmetric]
        by (auto simp: Validate validate_def ss token_digest_def Let_def)
      then show ?thesis using assms(2) by (simp add: Validate L same)
    qed
  next
    case (Revoke t)
    then obtain x xs where t: "t = x # xs" "list_all (\<lambda>c. c < 128) t" using assms(3) by (cases t) auto
    show ?thesis
    proof (cases "target p \<noteq> NoFile \<and> dict_get ss (sha t) \<noteq> None")
      case True
      then obtain e where e: "publish_sessions f u (dict_pop (sha t) ss) p = (p', e)"
        and out: "out = yes (outcome_of () e)"
        using assms(4) t by (auto simp: Revoke revoke_def ss token_digest_def split: prod.splits)
      from publish_map [OF wf_dict_pop [OF ss(2)] sound_pop [OF ss(3)] e assms(2)] show ?thesis
        by (auto simp: Revoke L out outcome_of_def yes_def delete_conv' split: write_end.splits)
    next
      case False
      then have "dict_get ss (sha t) = None" using ss(1) by (auto simp: load_sessions_def)
      then have "(map_of ss)(sha t := None) = map_of ss" by auto
      moreover have "p' = p \<and> out = Returns True"
        using assms(4) t False
        by (cases "target p = NoFile") (simp_all add: Revoke revoke_def ss token_digest_def yes_def)
      ultimately show ?thesis using assms(2) by (simp add: Revoke L)
    qed
  qed
qed

text \<open>
  C37. The session file is a faithful map. Whatever fails while a call writes the file, the map
  it holds afterwards is the one before or the one the call asked for, never a mixture; a call
  that returns has done exactly what was asked and answers from that map: creating adds the
  token's digest with the current password generation and its expiry, validating drops every
  expired or outdated record and says whether the token's remains, revoking removes it; and
  without a fault every call returns.
\<close>

theorem session_store_refines:
  assumes "\<And>t. digest_ok (sha t)" and "sound p" and "call_ok c" and "do_call sha f u c p = (p', out)"
  shows "sound p'
    \<and> (logins_of p' = logins_of p \<or> logins_of p' = spec_map sha c (logins_of p))
    \<and> (\<forall>b. out = Returns b \<longrightarrow> logins_of p' = spec_map sha c (logins_of p) \<and> b = spec_answer sha c (logins_of p))
    \<and> (f = NoFault \<longrightarrow> out = Returns (spec_answer sha c (logins_of p)))"
  using session_step [OF assms] .

definition sample_digest :: "pystr \<Rightarrow> pystr" where
  "sample_digest t = replicate 63 48 @ [if t = lit ''tok'' then 49 else 50]"

lemma digit_run_Cons:
  "v c = Some d \<Longrightarrow> s \<noteq> [] \<Longrightarrow> hd s \<noteq> 95 \<Longrightarrow> digit_run v (c # s) = map_option ((#) d) (digit_run v s)"
  by (cases s) auto

lemma run_digits:
  "v c = Some d \<Longrightarrow> c \<noteq> 95 \<Longrightarrow> x \<noteq> 95 \<Longrightarrow>
     digit_run v (replicate n c @ [x]) = map_option (\<lambda>e. replicate n d @ [e]) (v x)"
proof (induction n)
  case (Suc n)
  then have "hd (replicate n c @ [x]) \<noteq> 95" by (cases n) auto
  from digit_run_Cons [of v c d, OF Suc.prems(1) _ this] Suc show ?case
    by (simp add: option.map_comp comp_def)
qed simp

lemma sample_digest_ok: "digest_ok (sample_digest t)"
proof -
  have h: "hex_value 48 = Some 0" "hex_value 49 = Some 1" "hex_value 50 = Some 2"
    by (simp_all add: hex_value_def digit_value_ascii [of 0, simplified] digit_value_ascii [of 1, simplified]
      digit_value_ascii [of 2, simplified])
  let ?x = "if t = lit ''tok'' then 49 else 50 :: nat"
  have ns: "\<not> py_space 48" "\<not> py_space ?x" by (auto simp: py_space_def)
  have l: "sample_digest t = 48 # 48 # 48 # replicate 60 48 @ [?x]"
    by (simp add: sample_digest_def numeral_eq_Suc)
  have "strip (sample_digest t) = sample_digest t"
    using ns by (intro strip_id) (simp add: stripped_def l)
  then have s: "split_sign (strip (sample_digest t)) = (False, sample_digest t)" by (simp add: l)
  have "skip_hex_prefix (sample_digest t) = sample_digest t" by (simp add: skip_hex_prefix_def l)
  moreover have "digit_run hex_value (sample_digest t) \<noteq> None"
    using run_digits [where v = hex_value and c = 48 and n = 63 and x = ?x] h by (auto simp: sample_digest_def)
  ultimately show ?thesis
    using s by (simp add: digest_ok_def py_int_hex_def DIGEST_LENGTH_def) (simp add: sample_digest_def)
qed

definition empty_store :: "file_text place" where
  "empty_store = \<lparr>target = NoFile, strays = 0\<rparr>"

lemma empty_sound: "sound empty_store" "logins_of empty_store = Map.empty"
  by (simp_all add: sound_def logins_of_def load_sessions_def empty_store_def)

theorem session_store_refines_witness:
  "\<exists>p'. do_call sample_digest NoFault True (Create (lit ''gen'') False (lit ''tok'') 100) empty_store = (p', Returns True)
     \<and> logins_of p' (sample_digest (lit ''tok'')) = Some \<lparr>l_generation = lit ''gen'', l_expires = 86500\<rparr>"
proof -
  let ?c = "Create (lit ''gen'') False (lit ''tok'') 100"
  obtain p' out where d: "do_call sample_digest NoFault True ?c empty_store = (p', out)" by force
  have "call_ok ?c" by simp
  from session_store_refines [OF sample_digest_ok empty_sound(1) this d] d show ?thesis
    by (auto simp: empty_sound(2) lifetime_def SESSION_ONLY_SECONDS_def int_of_float_def)
qed

section \<open>Histories\<close>

fun run_calls ::
  "(pystr \<Rightarrow> pystr) \<Rightarrow> (fault \<times> bool \<times> store_call) list \<Rightarrow> file_text place \<Rightarrow> file_text place \<times> bool outcome list" where
  "run_calls sha [] p = (p, [])"
| "run_calls sha ((f, u, c) # cs) p =
     (let (p', out) = do_call sha f u c p; (p'', outs) = run_calls sha cs p' in (p'', out # outs))"

lemma run_calls_snoc:
  "run_calls sha (cs @ [(f, u, c)]) p =
     (let (p', outs) = run_calls sha cs p; (p'', out) = do_call sha f u c p' in (p'', outs @ [out]))"
  by (induction sha cs p rule: run_calls.induct) (auto split: prod.splits)

lemma run_calls_length: "run_calls sha cs p = (p', outs) \<Longrightarrow> length outs = length cs"
  by (induction sha cs p arbitrary: outs rule: run_calls.induct) (auto split: prod.splits)

text \<open>
  The record was issued by the call at place \<open>i\<close>, and no revocation of its digest after it
  has been acknowledged.
\<close>

definition issued ::
  "(pystr \<Rightarrow> pystr) \<Rightarrow> (fault \<times> bool \<times> store_call) list \<Rightarrow> bool outcome list \<Rightarrow> nat \<Rightarrow> pystr \<Rightarrow> login \<Rightarrow> bool" where
  "issued sha cs outs i d r \<longleftrightarrow>
     (\<exists>gen rem t now. snd (snd (cs ! i)) = Create gen rem t now \<and> sha t = d
        \<and> r = \<lparr>l_generation = gen, l_expires = int_of_float now + lifetime rem\<rparr>)
     \<and> (\<forall>j t. i < j \<and> j < length cs \<and> snd (snd (cs ! j)) = Revoke t \<and> sha t = d \<longrightarrow> outs ! j \<in> {Fails, Gone})"

lemma issued_snoc:
  assumes "issued sha cs outs i d r" "i < length cs" "length outs = length cs"
    and "\<And>t. c = Revoke t \<Longrightarrow> sha t = d \<Longrightarrow> out \<in> {Fails, Gone}"
  shows "issued sha (cs @ [(f, u, c)]) (outs @ [out]) i d r"
  using assms by (auto simp: issued_def nth_append less_Suc_eq)

lemma history:
  assumes "\<And>t. digest_ok (sha t)" "target p = NoFile"
  shows "\<forall>c \<in> set cs. call_ok (snd (snd c)) \<Longrightarrow> run_calls sha cs p = (p', outs) \<Longrightarrow>
    sound p' \<and> (\<forall>d r. logins_of p' d = Some r \<longrightarrow> (\<exists>i < length cs. issued sha cs outs i d r))"
proof (induction cs arbitrary: p' outs rule: rev_induct)
  case Nil
  then show ?case using assms(2) by (simp add: sound_def logins_of_def load_sessions_def)
next
  case (snoc x cs)
  obtain f u c where x: "x = (f, u, c)" by (cases x)
  obtain p1 outs1 where 1: "run_calls sha cs p = (p1, outs1)" by force
  obtain p2 out where 2: "do_call sha f u c p1 = (p2, out)" by force
  have eq: "p' = p2" "outs = outs1 @ [out]" using snoc.prems(2) by (auto simp: x run_calls_snoc 1 2)
  have IH: "sound p1" "\<And>d r. logins_of p1 d = Some r \<Longrightarrow> \<exists>i < length cs. issued sha cs outs1 i d r"
    using snoc.IH [OF _ 1] snoc.prems(1) by auto
  have ok: "call_ok c" using snoc.prems(1) x by auto
  note len = run_calls_length [OF 1]
  note ref = session_step [OF assms(1) IH(1) ok 2]
  have "\<exists>i < length (cs @ [x]). issued sha (cs @ [x]) outs i d r" if d: "logins_of p2 d = Some r" for d r
  proof (cases "logins_of p1 d = Some r")
    case True
    then obtain i where i: "i < length cs" "issued sha cs outs1 i d r" using IH(2) by blast
    have no: "out \<in> {Fails, Gone}" if c: "c = Revoke t" "sha t = d" for t
      using ref c d by (cases out) auto
    have "issued sha (cs @ [(f, u, c)]) (outs1 @ [out]) i d r"
      using no by (rule issued_snoc [OF i(2,1) len])
    then show ?thesis using i(1) by (intro exI [of _ i]) (simp add: eq x)
  next
    case False
    then have "logins_of p2 \<noteq> logins_of p1" using d by metis
    then have "spec_map sha c (logins_of p1) d = Some r" using ref d by simp
    then obtain gen rem t now where "c = Create gen rem t now" "sha t = d"
      "r = \<lparr>l_generation = gen, l_expires = int_of_float now + lifetime rem\<rparr>"
      using False by (cases c) (auto simp: prune_def split: if_splits option.splits)
    then show ?thesis
      by (intro exI [of _ "length cs"]) (auto simp: issued_def x)
  qed
  then show ?case using ref by (simp add: eq)
qed

text \<open>
  C23. A browser is let in only by a session that a sign-in issued. After any calls on a store
  that started empty, whatever failed on the way, \<open>validate\<close> says yes only if an earlier
  \<open>create\<close> stored this token's digest, under the password generation that is current now, with
  an expiry still ahead (one day, or thirty), and no sign-out of it since then was acknowledged.
\<close>

theorem session_only_by_sign_in:
  assumes "\<And>t. digest_ok (sha t)" and "target p0 = NoFile" and "\<forall>c \<in> set cs. call_ok (snd (snd c))"
    and "run_calls sha cs p0 = (p, outs)" and "t \<noteq> []" and "validate sha f u (Some t) gen now p = (p', Returns True)"
  shows "\<exists>i < length cs. \<exists>rem t0 now0. snd (snd (cs ! i)) = Create gen rem t0 now0 \<and> sha t0 = sha t
    \<and> int_of_float now < int_of_float now0 + lifetime rem
    \<and> (\<forall>j t1. i < j \<and> j < length cs \<and> snd (snd (cs ! j)) = Revoke t1 \<and> sha t1 = sha t \<longrightarrow> outs ! j \<in> {Fails, Gone})"
proof -
  have ascii: "list_all (\<lambda>c. c < 128) t"
    using assms(5,6) by (cases t) (auto simp: validate_def token_digest_def split: option.splits if_splits)
  note h = history [OF assms(1,2,3,4)]
  have "sound p" using h by simp
  have "do_call sha f u (Validate t gen now) p = (p', Returns True)" using assms(6) by simp
  from session_step [OF assms(1) \<open>sound p\<close> _ this] assms(5) ascii have "prune gen (int_of_float now) (logins_of p) (sha t) \<noteq> None" by auto
  then obtain r where r: "logins_of p (sha t) = Some r" "\<not> stale gen (int_of_float now) r"
    by (auto simp: prune_def split: option.splits if_splits)
  with h obtain i where "i < length cs" "issued sha cs outs i (sha t) r" by blast
  then show ?thesis using r(2) by (auto simp: issued_def stale_def intro!: exI [of _ i])
qed

theorem session_only_by_sign_in_witness:
  "\<exists>p. run_calls sample_digest [(NoFault, True, Create (lit ''gen'') False (lit ''tok'') 100)] empty_store
        = (p, [Returns True])
     \<and> snd (validate sample_digest NoFault True (Some (lit ''tok'')) (lit ''gen'') 200 p) = Returns True
     \<and> int_of_float 200 < int_of_float 100 + lifetime False"
proof -
  let ?c = "Create (lit ''gen'') False (lit ''tok'') 100"
  obtain p out where d: "do_call sample_digest NoFault True ?c empty_store = (p, out)" by force
  have ok: "call_ok ?c" by simp
  from session_step [OF sample_digest_ok empty_sound(1) ok d]
  have p: "sound p" "out = Returns True" "logins_of p = spec_map sample_digest ?c Map.empty"
    by (auto simp: empty_sound(2))
  have r: "run_calls sample_digest [(NoFault, True, ?c)] empty_store = (p, [Returns True])"
    using d p(2) by simp
  obtain p' b where v: "do_call sample_digest NoFault True (Validate (lit ''tok'') (lit ''gen'') 200) p = (p', b)" by force
  from session_step [OF sample_digest_ok p(1) _ v] have "b = Returns True"
    by (auto simp: p(3) prune_def stale_def lifetime_def SESSION_ONLY_SECONDS_def int_of_float_def)
  with v have v': "validate sample_digest NoFault True (Some (lit ''tok'')) (lit ''gen'') 200 p = (p', Returns True)" by simp
  from session_only_by_sign_in [OF sample_digest_ok _ _ r _ v'] ok
  have "int_of_float 200 < int_of_float 100 + lifetime False" by (auto simp: empty_store_def)
  then show ?thesis using r v' by (metis snd_conv)
qed

section \<open>The throttle against a reference\<close>

text \<open>
  A sign-in attempt: the client address, the time (one reading of the clock, the operations
  take no time), and how it ends when it need not wait: signed in, password refused, or not
  served because the password state or the session store failed. The route asks \<open>retry_after\<close>,
  and only an attempt that need not wait reaches the password check; one that is not served
  counts for nothing.
\<close>

datatype attempt_end = Right | Wrong | Unserved

record sign_in_attempt =
  at_addr :: pystr
  at_time :: rat
  at_end :: attempt_end

definition attempt_step :: "sign_in_attempt \<Rightarrow> throttle \<Rightarrow> throttle \<times> bool" where
  "attempt_step a th =
     (case retry_after (at_time a) (at_time a) (at_addr a) th of
        (th, wait) \<Rightarrow>
          if wait \<noteq> 0 then (th, False)
          else (case at_end a of
              Right \<Rightarrow> (success (at_addr a) th, True)
            | Wrong \<Rightarrow> (fst (failure (at_time a) (at_time a) (at_time a) (at_time a) (at_addr a) th), True)
            | Unserved \<Rightarrow> (th, False)))"

fun run_attempts :: "sign_in_attempt list \<Rightarrow> throttle \<Rightarrow> throttle \<times> bool list" where
  "run_attempts [] th = (th, [])"
| "run_attempts (a # as) th =
     (let (th, checked) = attempt_step a th; (th, rest) = run_attempts as th in (th, checked # rest))"

text \<open>
  The reference, for the attempts of one address: the run of wrong passwords without a right
  one and without a pause of fifteen minutes, and when the last of them was checked.
\<close>

definition streak_step :: "sign_in_attempt \<Rightarrow> (nat \<times> rat) option \<Rightarrow> (nat \<times> rat) option \<times> bool" where
  "streak_step a s =
     (let now = at_time a; s = (case s of None \<Rightarrow> None | Some (n, t) \<Rightarrow> if now - t \<ge> 900 then None else Some (n, t))
      in case s of
           None \<Rightarrow> (case at_end a of Right \<Rightarrow> (None, True) | Wrong \<Rightarrow> (Some (1, now), True) | Unserved \<Rightarrow> (None, False))
         | Some (n, t) \<Rightarrow>
             if n \<ge> 5 \<and> now < t + of_nat (delay n) then (Some (n, t), False)
             else (case at_end a of Right \<Rightarrow> (None, True) | Wrong \<Rightarrow> (Some (n + 1, now), True)
                 | Unserved \<Rightarrow> (Some (n, t), False)))"

fun streak :: "sign_in_attempt list \<Rightarrow> (nat \<times> rat) option \<Rightarrow> (nat \<times> rat) option \<times> bool list" where
  "streak [] s = (s, [])"
| "streak (a # as) s =
     (let (s, checked) = streak_step a s; (s, rest) = streak as s in (s, checked # rest))"

lemma ceil_zero: "max 0 \<lceil>x\<rceil> = 0 \<longleftrightarrow> x \<le> (0::rat)"
proof -
  have "max 0 y = 0 \<longleftrightarrow> y \<le> (0::int)" for y by auto
  then show ?thesis by (simp only: ceiling_le_zero)
qed

lemma attempt_other: "at_addr a \<noteq> addr \<Longrightarrow> dict_get (fst (attempt_step a th)) addr = dict_get th addr"
  by (auto simp: attempt_step_def retry_after_def throttle_current_def failure_def success_def dict_simps Let_def
    split: option.splits prod.splits if_splits attempt_end.splits)

lemma attempt_own:
  assumes "at_addr a = addr" "attempt_step a th = (th', checked)"
  shows "streak_step a (dict_get th addr) = (dict_get th' addr, checked)"
proof (cases "dict_get th addr")
  case None
  then show ?thesis using assms
    by (auto simp: attempt_step_def streak_step_def retry_after_def throttle_current_def failure_def success_def
      dict_simps Let_def split: prod.splits if_splits attempt_end.splits)
next
  case (Some e)
  obtain n t where e: "e = (n, t)" by (cases e)
  show ?thesis
  proof (cases "at_time a - t \<ge> 900")
    case True
    then show ?thesis using assms Some e
      by (auto simp: attempt_step_def streak_step_def retry_after_def throttle_current_def failure_def success_def
        dict_simps Let_def split: prod.splits if_splits attempt_end.splits)
  next
    case False
    then have c: "throttle_current (at_time a) addr th = (th, Some (n, t))"
      using Some e by (simp add: throttle_current_def)
    have w: "retry_after (at_time a) (at_time a) addr th
        = (th, if n < 5 then 0 else max 0 \<lceil>of_nat (delay n) - (at_time a - t)\<rceil>)"
      by (simp add: retry_after_def c)
    have z: "max 0 \<lceil>of_nat (delay n) - (at_time a - t)\<rceil> = 0 \<longleftrightarrow> \<not> at_time a < t + of_nat (delay n)"
      unfolding ceil_zero by linarith
    have f: "dict_get (fst (failure (at_time a) (at_time a) (at_time a) (at_time a) addr th)) addr = Some (n + 1, at_time a)"
      unfolding failure_def c by (simp add: retry_after_def throttle_current_def dict_simps)
    show ?thesis
    proof (cases "n \<ge> 5 \<and> at_time a < t + of_nat (delay n)")
      case True
      then have "snd (retry_after (at_time a) (at_time a) addr th) \<noteq> 0" using w z by auto
      then show ?thesis using assms w True False Some e
        by (auto simp: attempt_step_def streak_step_def Let_def)
    next
      case no: False
      then have "snd (retry_after (at_time a) (at_time a) addr th) = 0" using w z by auto
      then show ?thesis using assms w no False Some e f
        by (auto simp: attempt_step_def streak_step_def Let_def success_def dict_simps split: attempt_end.splits)
    qed
  qed
qed

lemma attempts_streak:
  "run_attempts as th = (th', checked) \<Longrightarrow>
     streak (filter (\<lambda>a. at_addr a = addr) as) (dict_get th addr)
       = (dict_get th' addr, map snd (filter (\<lambda>(a, c). at_addr a = addr) (zip as checked)))"
proof (induction as arbitrary: th th' checked)
  case (Cons a as)
  obtain th1 c where 1: "attempt_step a th = (th1, c)" by force
  obtain th2 cs where 2: "run_attempts as th1 = (th2, cs)" by force
  have "th' = th2" "checked = c # cs" using Cons.prems by (auto simp: 1 2)
  then show ?case
    using Cons.IH [OF 2] attempt_own [OF _ 1, of addr] attempt_other [of a addr th] 1
    by (cases "at_addr a = addr") auto
qed simp

text \<open>The waits add up: 5, 10, 20, 40, 80, 160, 300, 300, ... seconds after the fifth failure.\<close>

fun waits :: "nat \<Rightarrow> nat" where
  "waits 0 = 0"
| "waits (Suc k) = waits k + (if 5 \<le> k then delay k else 0)"

lemma delay_mono: "k \<le> n \<Longrightarrow> delay k \<le> delay n"
  by (simp add: delay_def min_def) (meson diff_le_mono le_trans mult_le_mono2 nat_le_linear one_le_numeral power_increasing)

lemma waits_13: "waits 13 = 915" "waits 12 = 615"
  by (simp_all add: numeral_eq_Suc delay_def)

definition paced :: "rat \<Rightarrow> nat \<Rightarrow> (nat \<times> rat) option \<Rightarrow> bool" where
  "paced w k s \<longleftrightarrow> k \<le> 12 \<and> (k = 0 \<or> (\<exists>n t. s = Some (n, t) \<and> k \<le> n \<and> w + of_nat (waits k) \<le> t))"

lemma paced_step:
  assumes "paced w k s" "w \<le> at_time a" "at_time a < w + 900" "at_end a \<noteq> Right" "streak_step a s = (s', c)"
  shows "paced w (k + (if c then 1 else 0)) s'"
proof (cases "k = 0")
  case True
  then show ?thesis using assms
    by (auto simp: paced_def streak_step_def Let_def split: option.splits if_splits prod.splits attempt_end.splits)
next
  case False
  then obtain n t where s: "s = Some (n, t)" "k \<le> n" "w + of_nat (waits k) \<le> t" and k: "k \<le> 12"
    using assms(1) by (auto simp: paced_def)
  have live: "\<not> at_time a - t \<ge> 900" using assms(3) s(3) by simp
  show ?thesis
  proof (cases "n \<ge> 5 \<and> at_time a < t + of_nat (delay n)")
    case True
    then show ?thesis using assms(1,5) live by (simp add: s streak_step_def)
  next
    case no: False
    show ?thesis
    proof (cases "at_end a")
      case Right
      then show ?thesis using assms(4) by simp
    next
      case Unserved
      then show ?thesis using assms(1,5) live no by (auto simp: s streak_step_def)
    next
      case Wrong
      then have out: "s' = Some (n + 1, at_time a)" "c" using assms(5) live no by (auto simp: s streak_step_def)
      have bound: "w + of_nat (waits (Suc k)) \<le> at_time a"
      proof (cases "5 \<le> k")
        case True
        then have "(of_nat (delay k) :: rat) \<le> of_nat (delay n)" using delay_mono [OF s(2)] by simp
        moreover have "t + of_nat (delay n) \<le> at_time a" using no True s(2) by simp
        ultimately show ?thesis using s(3) True by simp
      next
        case False
        have "waits (Suc k) = 0" using False
          by (induction k) auto
        then show ?thesis using assms(2) by simp
      qed
      have "k \<noteq> 12" using bound assms(3) waits_13(1) by (auto simp: numeral_eq_Suc)
      then show ?thesis using out s(2) k bound by (simp add: paced_def)
    qed
  qed
qed

lemma paced_streak:
  assumes "\<forall>a \<in> set as. w \<le> at_time a \<and> at_time a < w + 900 \<and> at_end a \<noteq> Right"
  shows "paced w k s \<Longrightarrow> streak as s = (s', cs) \<Longrightarrow> k + length (filter id cs) \<le> 12"
  using assms
proof (induction as arbitrary: k s s' cs)
  case Nil
  then show ?case by (simp add: paced_def)
next
  case (Cons a as)
  obtain s1 c where 1: "streak_step a s = (s1, c)" by force
  obtain s2 cs' where 2: "streak as s1 = (s2, cs')" by force
  have "paced w (k + (if c then 1 else 0)) s1" using paced_step [OF Cons.prems(1) _ _ _ 1] Cons.prems(3) by auto
  from Cons.IH [OF this 2] Cons.prems show ?case by (auto simp: 1 2 split: if_splits)
qed

lemma run_attempts_append:
  "run_attempts (xs @ ys) th =
     (let (th1, cs1) = run_attempts xs th; (th2, cs2) = run_attempts ys th1 in (th2, cs1 @ cs2))"
  by (induction xs arbitrary: th) (auto split: prod.splits)

lemma run_attempts_length: "run_attempts as th = (th', cs) \<Longrightarrow> length cs = length as"
  by (induction as arbitrary: th th' cs) (auto split: prod.splits)

text \<open>
  Guessing the password is slow. Whatever has been tried before from wherever, in any
  fifteen minutes at most 12 wrong passwords from one client address reach the password check,
  however many are sent; and attempts from other addresses neither use up nor extend its
  allowance.
\<close>

theorem guess_rate_bounded:
  assumes "run_attempts (earlier @ window) [] = (th, checked)"
    and "\<forall>a \<in> set window. w \<le> at_time a \<and> at_time a < w + 900 \<and> (at_addr a = addr \<longrightarrow> at_end a \<noteq> Right)"
  shows "length (filter (\<lambda>(a, c). at_addr a = addr \<and> c) (zip window (drop (length earlier) checked))) \<le> 12"
proof -
  obtain th1 cs1 where 1: "run_attempts earlier [] = (th1, cs1)" by force
  obtain th2 cs2 where 2: "run_attempts window th1 = (th2, cs2)" by force
  have checked: "drop (length earlier) checked = cs2"
    using assms(1) run_attempts_length [OF 1] by (auto simp: run_attempts_append 1 2)
  note s = attempts_streak [OF 2, of addr]
  have "paced w 0 (dict_get th1 addr)" by (simp add: paced_def)
  from paced_streak [OF _ this s] assms(2)
  have "length (filter id (map snd (filter (\<lambda>(a, c). at_addr a = addr) (zip window cs2)))) \<le> 12" by auto
  moreover have "length (filter id (map snd (filter (\<lambda>(a, c). at_addr a = addr) xs)))
      = length (filter (\<lambda>(a, c). at_addr a = addr \<and> c) xs)" for xs
    by (induction xs) auto
  ultimately show ?thesis unfolding checked by metis
qed

definition hasty :: "sign_in_attempt list" where
  "hasty = replicate 7 \<lparr>at_addr = lit ''10.0.0.9'', at_time = 1, at_end = Wrong\<rparr>"

theorem guess_rate_bounded_witness:
  "snd (run_attempts ([] @ hasty) []) = [True, True, True, True, True, False, False]
   \<and> length (filter (\<lambda>(a, c). at_addr a = lit ''10.0.0.9'' \<and> c)
       (zip hasty (drop (length ([] :: sign_in_attempt list)) (snd (run_attempts ([] @ hasty) []))))) \<le> 12"
proof
  show "snd (run_attempts ([] @ hasty) []) = [True, True, True, True, True, False, False]"
    by (simp add: hasty_def numeral_eq_Suc attempt_step_def retry_after_def throttle_current_def failure_def
      success_def delay_def Let_def)
  obtain th cs where "run_attempts ([] @ hasty) [] = (th, cs)" by force
  from guess_rate_bounded [OF this, of 1 "lit ''10.0.0.9''"]
  show "length (filter (\<lambda>(a, c). at_addr a = lit ''10.0.0.9'' \<and> c)
       (zip hasty (drop (length ([] :: sign_in_attempt list)) (snd (run_attempts ([] @ hasty) []))))) \<le> 12"
    using \<open>run_attempts ([] @ hasty) [] = (th, cs)\<close> by (simp add: hasty_def)
qed

end
