(* ===== verification/Site.thy ===== *)
theory Site
  imports Http_Guard Session_Authority
begin

text \<open>
  Requests, sign-in, sign-out and open WebSockets around one session file: the HTTP guard in
  front of the routes, the sign-in and sign-out routes, and the endpoint's revalidation loop
  (\<open>main.py\<close>). The property is what an ended session can still do.

  The clock is read once for a step; the session store's wall clock and the event loop's clock
  advance together and are not set back. A password is set by the command-line tool, with a
  fresh random generation. A power loss ends every connection.
\<close>

record site =
  store :: "file_text place"
  generations :: "pystr list"
  sockets :: "(nat, pystr \<times> rat) dict"
  now :: rat
  served :: "(rat \<times> pystr \<times> bool) list"

text \<open>
  \<open>generations\<close> starts with the current one. A socket has the token it connected with and the
  time of its next check. \<open>served\<close> is the history of what reached the program for a token,
  newest first: a protected route (True) or a WebSocket message (False).
\<close>

definition current_generation :: "bool \<Rightarrow> site \<Rightarrow> pystr option" where
  "current_generation available x = (if available then Some (hd (generations x)) else None)"

definition crash :: "site \<Rightarrow> site" where
  "crash x = x\<lparr>sockets := []\<rparr>"

definition after_store :: "file_text place \<times> 'a outcome \<Rightarrow> site \<Rightarrow> site" where
  "after_store r x = (let x = x\<lparr>store := fst r\<rparr> in if snd r = Gone then crash x else x)"

section \<open>The two routes that change sessions\<close>

datatype route = Sign_In bool bool pystr | Sign_Out | Other_Route

text \<open>
  Sign-in: \<open>pw\<close> says that the throttle let the attempt through and the password was right; the
  new token is the argument. Sign-out revokes the cookie's token.
\<close>

definition run_route :: "(pystr \<Rightarrow> pystr) \<Rightarrow> fault \<Rightarrow> bool \<Rightarrow> bool \<Rightarrow> request \<Rightarrow> route \<Rightarrow> site \<Rightarrow> site \<times> bool outcome" where
  "run_route sha f unl available req rt x =
     (case rt of
        Sign_In pw remembered token \<Rightarrow>
          (case current_generation available x of
             Some g \<Rightarrow>
               if pw then (let r = create sha f unl g remembered token (now x) (store x)
                 in (after_store r x, yes (snd r)))
               else (x, Returns False)
           | None \<Rightarrow> (x, Fails))
      | Sign_Out \<Rightarrow> (let r = revoke sha f unl (r_session req) (store x) in (after_store r x, yes (snd r)))
      | Other_Route \<Rightarrow> (x, Returns True))"

text \<open>
  Which route a request runs. A sign-in whose body is not valid changes nothing (another
  route); tokens come from \<open>secrets.token_urlsafe\<close>.
\<close>

definition route_ok :: "request \<Rightarrow> route \<Rightarrow> bool" where
  "route_ok req rt \<longleftrightarrow>
     (case rt of
        Sign_In pw remembered token \<Rightarrow>
          r_path req = LOGIN_PATH \<and> r_method req = ''POST'' \<and> token \<noteq> [] \<and> ascii token
      | Sign_Out \<Rightarrow> r_path req = lit ''/api/auth/logout'' \<and> r_method req = ''POST''
      | Other_Route \<Rightarrow> \<not> (r_path req = lit ''/api/auth/logout'' \<and> r_method req = ''POST''))"

definition token_of :: "request \<Rightarrow> pystr" where
  "token_of req = (case r_session req of Some t \<Rightarrow> t | None \<Rightarrow> [])"

text \<open>A request through the guard to its route; the reply of the guard and the route's end.\<close>

definition http_request ::
  "(pystr \<Rightarrow> pystr) \<Rightarrow> fault \<Rightarrow> fault \<Rightarrow> bool \<Rightarrow> bool \<Rightarrow> request \<Rightarrow> route \<Rightarrow> site \<Rightarrow> site \<times> http_reply outcome \<times> bool outcome" where
  "http_request sha f f' unl available req rt x =
     (case http_guard sha f unl (current_generation available x) (now x) req (store x) of
        (p, Returns (Reached c)) \<Rightarrow>
          (let x = x\<lparr>store := p\<rparr>;
               x = (if is_public_path (r_path req) then x else x\<lparr>served := (now x, token_of req, True) # served x\<rparr>);
               (x, out) = run_route sha f' unl available req rt x
           in (x, Returns (Reached c), out))
      | (p, out) \<Rightarrow> (after_store (p, out) x, out, Fails))"

section \<open>WebSockets\<close>

definition open_socket ::
  "(pystr \<Rightarrow> pystr) \<Rightarrow> rat \<Rightarrow> fault \<Rightarrow> bool \<Rightarrow> bool \<Rightarrow> pystr option \<Rightarrow> pystr list \<Rightarrow> pystr option \<Rightarrow> nat \<Rightarrow> site \<Rightarrow> site" where
  "open_socket sha R f unl available trusted origins token ws x =
     (let r = websocket_request_is_valid sha f unl (current_generation available x) trusted origins token (now x) (store x);
          x = after_store r x
      in case (snd r, token) of
           (Returns True, Some t) \<Rightarrow> x\<lparr>sockets := dict_set ws (t, now x + R) (sockets x)\<rparr>
         | _ \<Rightarrow> x)"

definition serve_message :: "pystr \<Rightarrow> bool \<Rightarrow> site \<Rightarrow> site" where
  "serve_message t received x = (if received then x\<lparr>served := (now x, t, False) # served x\<rparr> else x)"

text \<open>
  One round of the endpoint's loop: a message arrived, or (\<open>received\<close> false) the wait timed out.
  A check that is due comes first, and closes the socket when the session is no longer valid.
\<close>

definition socket_round ::
  "(pystr \<Rightarrow> pystr) \<Rightarrow> rat \<Rightarrow> fault \<Rightarrow> bool \<Rightarrow> bool \<Rightarrow> bool \<Rightarrow> nat \<Rightarrow> site \<Rightarrow> site" where
  "socket_round sha R f unl available received ws x =
     (case dict_get (sockets x) ws of
        None \<Rightarrow> x
      | Some (t, next_check) \<Rightarrow>
          if now x \<ge> next_check
          then (let r = session_token_is_valid sha f unl (current_generation available x) (Some t) (now x) (store x);
                    x = after_store r x
                in if snd r = Returns True
                   then serve_message t received (x\<lparr>sockets := dict_set ws (t, now x + R) (sockets x)\<rparr>)
                   else x\<lparr>sockets := dict_pop ws (sockets x)\<rparr>)
          else serve_message t received x)"

section \<open>Steps\<close>

datatype site_op =
    Http fault fault bool bool request route
  | Open fault bool bool "pystr option" "pystr list" "pystr option" nat
  | Round fault bool bool bool nat
  | Close nat
  | Set_Password pystr
  | Pass rat

fun site_apply :: "(pystr \<Rightarrow> pystr) \<Rightarrow> rat \<Rightarrow> site_op \<Rightarrow> site \<Rightarrow> site" where
  "site_apply sha R (Http f f' unl available req rt) x =
     (if route_ok req rt then fst (http_request sha f f' unl available req rt x) else x)"
| "site_apply sha R (Open f unl available trusted origins token ws) x =
     open_socket sha R f unl available trusted origins token ws x"
| "site_apply sha R (Round f unl available received ws) x = socket_round sha R f unl available received ws x"
| "site_apply sha R (Close ws) x = x\<lparr>sockets := dict_pop ws (sockets x)\<rparr>"
| "site_apply sha R (Set_Password g) x =
     (if g \<noteq> [] \<and> g \<notin> set (generations x) then x\<lparr>generations := g # generations x\<rparr> else x)"
| "site_apply sha R (Pass d) x = (if d > 0 then x\<lparr>now := now x + d\<rparr> else x)"

definition fresh_site :: "pystr \<Rightarrow> rat \<Rightarrow> file_text place \<Rightarrow> site" where
  "fresh_site g t p = \<lparr>store = p, generations = [g], sockets = [], now = t, served = []\<rparr>"

definition site_run :: "(pystr \<Rightarrow> pystr) \<Rightarrow> rat \<Rightarrow> site_op list \<Rightarrow> site \<Rightarrow> site" where
  "site_run sha R ops x = fold (site_apply sha R) ops x"

end
