(* ===== verification/Site_Sessions.thy ===== *)
theory Site_Sessions
  imports Site
begin

text \<open>
  An ended session can do nothing: after an acknowledged sign-out or a password change no
  protected route runs for its token, and its open WebSockets are served for at most one
  revalidation interval more.
\<close>

section \<open>Store calls as seen from the routes\<close>

text \<open>Validating and revoking only remove records, whatever the token and whatever fails.\<close>

lemma validate_effect:
  assumes "\<And>t. digest_ok (sha t)" "sound p" "validate sha f u tok g t0 p = (p', out)"
  shows "sound p' \<and> logins_of p' \<subseteq>\<^sub>m logins_of p
    \<and> (out = Returns True \<longrightarrow>
        (\<exists>t r. tok = Some t \<and> logins_of p (sha t) = Some r \<and> \<not> stale g (int_of_float t0) r))"
proof -
  consider "tok = None \<or> tok = Some []" | t where "tok = Some t" "t \<noteq> []" "\<not> list_all (\<lambda>c. c < 128) t"
    | t where "tok = Some t" "t \<noteq> []" "list_all (\<lambda>c. c < 128) t" by (cases tok) auto
  then show ?thesis
  proof cases
    case 1
    then show ?thesis using assms by (auto simp: validate_def)
  next
    case 2
    then obtain c cs where t: "t = c # cs" by (cases t) auto
    have "p' = p \<and> out = Fails"
      using assms(2,3) 2(1,3) t by (auto simp: validate_def sound_def token_digest_def split: if_splits)
    then show ?thesis using assms(2) by simp
  next
    case 3
    have "do_call sha f u (Validate t g t0) p = (p', out)" using assms(3) 3 by simp
    from session_step [OF assms(1,2) _ this] 3
    have s: "sound p'" "logins_of p' = logins_of p \<or> logins_of p' = prune g (int_of_float t0) (logins_of p)"
      "out = Returns True \<Longrightarrow> prune g (int_of_float t0) (logins_of p) (sha t) \<noteq> None" by auto
    have "prune g n L \<subseteq>\<^sub>m L" for n L by (auto simp: map_le_def prune_def split: option.splits if_splits)
    moreover have "\<exists>r. logins_of p (sha t) = Some r \<and> \<not> stale g (int_of_float t0) r" if "out = Returns True"
      using s(3) [OF that] by (auto simp: prune_def split: option.splits if_splits)
    ultimately show ?thesis using s(1,2) 3(1) by auto
  qed
qed

lemma revoke_effect:
  assumes "\<And>t. digest_ok (sha t)" "sound p" "revoke sha f u tok p = (p', out)"
  shows "sound p' \<and> logins_of p' \<subseteq>\<^sub>m logins_of p
    \<and> (\<forall>t. out = Returns () \<and> tok = Some t \<and> t \<noteq> [] \<longrightarrow> logins_of p' (sha t) = None)"
proof -
  consider "tok = None \<or> tok = Some []" | t where "tok = Some t" "t \<noteq> []" "\<not> list_all (\<lambda>c. c < 128) t"
    | t where "tok = Some t" "t \<noteq> []" "list_all (\<lambda>c. c < 128) t" by (cases tok) auto
  then show ?thesis
  proof cases
    case 1
    then show ?thesis using assms by (auto simp: revoke_def)
  next
    case 2
    then obtain c cs where t: "t = c # cs" by (cases t) auto
    have "p' = p \<and> (out = Fails \<or> target p = NoFile)"
      using assms(2,3) 2(1,3) t by (auto simp: revoke_def sound_def token_digest_def split: if_splits)
    then show ?thesis using assms(2) by (auto simp: logins_of_def load_sessions_def)
  next
    case 3
    have "do_call sha f u (Revoke t) p = (p', yes out)" using assms(3) 3 by simp
    from session_step [OF assms(1,2) _ this] 3
    have s: "sound p'" "logins_of p' = logins_of p \<or> logins_of p' = (logins_of p)(sha t := None)"
      "out = Returns () \<Longrightarrow> logins_of p' = (logins_of p)(sha t := None)" by (auto simp: yes_def)
    moreover have "(logins_of p)(sha t := None) \<subseteq>\<^sub>m logins_of p" by (auto simp: map_le_def split: if_splits)
    ultimately show ?thesis using 3(1) by auto
  qed
qed

lemma create_effect:
  assumes "\<And>t. digest_ok (sha t)" "sound p" "create sha f u g rem t t0 p = (p', out)" "t \<noteq> []" "ascii t" "g \<noteq> []" "0 \<le> t0"
  shows "sound p' \<and> (\<forall>d r. logins_of p' d = Some r \<longrightarrow> logins_of p d = Some r \<or> d = sha t \<and> l_generation r = g)"
proof -
  have "do_call sha f u (Create g rem t t0) p = (p', yes out)" using assms(3) by simp
  from session_step [OF assms(1,2) _ this] show ?thesis
    using assms(4-) by (auto simp: ascii_def split: if_splits)
qed

lemma token_valid_effect:
  assumes "\<And>t. digest_ok (sha t)" "sound p" "session_token_is_valid sha f u gen tok t0 p = (p', out)"
  shows "sound p' \<and> logins_of p' \<subseteq>\<^sub>m logins_of p
    \<and> (out = Returns True \<longrightarrow>
        (\<exists>g t r. gen = Some g \<and> tok = Some t \<and> logins_of p (sha t) = Some r \<and> \<not> stale g (int_of_float t0) r))"
proof (cases gen)
  case None
  then show ?thesis using assms by (auto simp: session_token_is_valid_def)
next
  case (Some g)
  obtain p1 o1 where v: "validate sha f u tok g t0 p = (p1, o1)" by force
  have "p' = p1 \<and> out = (if o1 = Fails then Returns False else o1)"
    using assms(3) Some v by (cases o1) (auto simp: session_token_is_valid_def)
  then show ?thesis using validate_effect [OF assms(1,2) v] Some by auto
qed

section \<open>Steps of the site\<close>

definition site_inv :: "rat \<Rightarrow> site \<Rightarrow> bool" where
  "site_inv R x \<longleftrightarrow> sound (store x) \<and> generations x \<noteq> [] \<and> [] \<notin> set (generations x) \<and> 0 \<le> now x
     \<and> (\<forall>d r. logins_of (store x) d = Some r \<longrightarrow> l_generation r \<in> set (generations x))
     \<and> (\<forall>ws t next_check. dict_get (sockets x) ws = Some (t, next_check) \<longrightarrow> next_check \<le> now x + R)"

definition ended :: "site \<Rightarrow> pystr \<Rightarrow> bool" where
  "ended x d \<longleftrightarrow>
     (\<forall>r. logins_of (store x) d = Some r \<longrightarrow> stale (hd (generations x)) (int_of_float (now x)) r)"

fun signs_in :: "site_op \<Rightarrow> pystr option" where
  "signs_in (Http f f' unl available req (Sign_In pw remembered token)) = Some token"
| "signs_in op = None"

text \<open>
  What one step may do to the records, to the sockets of a digest and to what it was served.
  \<open>fewer\<close> says no record appears except for a digest that signs in.
\<close>

definition fewer :: "(pystr \<Rightarrow> pystr) \<Rightarrow> pystr option \<Rightarrow> site \<Rightarrow> site \<Rightarrow> bool" where
  "fewer sha tok x y \<longleftrightarrow> sound (store y)
     \<and> (\<forall>d r. logins_of (store y) d = Some r \<longrightarrow> logins_of (store x) d = Some r
          \<or> (\<exists>t. tok = Some t \<and> d = sha t \<and> l_generation r = hd (generations x)))"

lemma fewer_le: "sound p \<Longrightarrow> logins_of p \<subseteq>\<^sub>m logins_of (store x) \<Longrightarrow> store y = p \<Longrightarrow> fewer sha tok x y"
  by (force simp: fewer_def map_le_def)

lemma fewer_refl: "sound (store x) \<Longrightarrow> fewer sha tok x x"
  by (simp add: fewer_def)

lemma fewer_trans: "fewer sha None x y \<Longrightarrow> generations y = generations x \<Longrightarrow> fewer sha tok y z \<Longrightarrow> fewer sha tok x z"
  by (auto simp: fewer_def)

lemma after_store_simps [simp]:
  "store (after_store r x) = fst r" "generations (after_store r x) = generations x" "now (after_store r x) = now x"
  "served (after_store r x) = served x"
  "sockets (after_store r x) = (if snd r = Gone then [] else sockets x)"
  by (simp_all add: after_store_def crash_def Let_def)

lemma guard_effect:
  assumes "\<And>t. digest_ok (sha t)" "sound p" "http_guard sha f u gen t0 req p = (p', out)"
  shows "sound p' \<and> logins_of p' \<subseteq>\<^sub>m logins_of p
    \<and> (\<forall>c. out = Returns (Reached c) \<and> \<not> is_public_path (r_path req) \<longrightarrow>
        (\<exists>g t r. gen = Some g \<and> r_session req = Some t \<and> logins_of p (sha t) = Some r
           \<and> \<not> stale g (int_of_float t0) r))"
proof -
  have pub: "r_path req = LOGIN_PATH \<Longrightarrow> is_public_path (r_path req)"
    by (simp add: is_public_path_def PUBLIC_PATHS_def LOGIN_PATH_def del: lit_simps)
  consider "p' = p" "is_public_path (r_path req) \<or> (\<forall>c. out \<noteq> Returns (Reached c))"
    | o1 where "\<not> is_public_path (r_path req)" "session_token_is_valid sha f u gen (r_session req) t0 p = (p', o1)"
       "\<And>c. out = Returns (Reached c) \<Longrightarrow> o1 = Returns True"
    using assms(3) pub
    by (auto simp: http_guard_def protect_http_requests_def Let_def
        split: option.splits if_splits prod.splits outcome.splits bool.splits)
  then show ?thesis
  proof cases
    case 1
    then show ?thesis using assms(2) by auto
  next
    case 2
    show ?thesis using token_valid_effect [OF assms(1,2) 2(2)] 2(3) by blast
  qed
qed

text \<open>A digest is still valid when its record would be accepted now.\<close>

definition still_valid :: "site \<Rightarrow> pystr \<Rightarrow> bool" where
  "still_valid x d \<longleftrightarrow>
     (\<exists>r. logins_of (store x) d = Some r \<and> \<not> stale (hd (generations x)) (int_of_float (now x)) r)"

lemma ended_not_valid: "ended x d \<longleftrightarrow> \<not> still_valid x d"
  by (auto simp: ended_def still_valid_def)

lemma current_generation_Some: "current_generation av x = Some g \<Longrightarrow> g = hd (generations x)"
  by (simp add: current_generation_def split: if_splits)

definition steady :: "site \<Rightarrow> site \<Rightarrow> bool" where
  "steady x y \<longleftrightarrow> generations y = generations x \<and> now y = now x"

lemma run_route_effect:
  assumes "\<And>t. digest_ok (sha t)" "site_inv R x" "route_ok req rt" "run_route sha f u av req rt x = (y, out)"
  shows "fewer sha (signs_in (Http fa f u av req rt)) x y \<and> steady x y \<and> served y = served x
    \<and> (sockets y = sockets x \<or> sockets y = [])
    \<and> (\<forall>t. rt = Sign_Out \<and> out = Returns True \<and> r_session req = Some t \<and> t \<noteq> [] \<longrightarrow> logins_of (store y) (sha t) = None)"
proof (cases rt)
  case (Sign_In pw remembered token)
  show ?thesis
  proof (cases "current_generation av x")
    case None
    then show ?thesis using Sign_In assms(2,4) by (simp add: run_route_def fewer_def steady_def site_inv_def)
  next
    case (Some g)
    have g: "g = hd (generations x)" "g \<noteq> []" using current_generation_Some [OF Some] assms(2)
      by (auto simp: site_inv_def dest: hd_in_set)
    obtain p' o1 where c: "create sha f u g remembered token (now x) (store x) = (p', o1)" by force
    have "fewer sha (Some token) x (after_store (p', o1) x)"
      using create_effect [OF assms(1) _ c] assms(2,3) g Sign_In
      by (force simp: fewer_def site_inv_def route_ok_def)
    then show ?thesis using Sign_In Some assms(2,4) c
      by (cases pw) (auto simp: run_route_def Let_def steady_def site_inv_def fewer_refl)
  qed
next
  case Sign_Out
  obtain p' o1 where c: "revoke sha f u (r_session req) (store x) = (p', o1)" by force
  have s: "sound (store x)" using assms(2) by (simp add: site_inv_def)
  note e = revoke_effect [OF assms(1) s c]
  have y: "y = after_store (p', o1) x" "out = yes o1" using assms(4) Sign_Out c by (simp_all add: run_route_def Let_def)
  have "fewer sha None x y" using e by (intro fewer_le) (simp_all add: y)
  moreover have "o1 = Returns ()" if "out = Returns True" using that y(2) by (cases o1) (simp_all add: yes_def)
  ultimately show ?thesis using Sign_Out e by (auto simp: y(1) steady_def)
next
  case Other_Route
  then show ?thesis using assms(2,4) by (auto simp: run_route_def fewer_def steady_def site_inv_def)
qed

lemma http_effect:
  assumes "\<And>t. digest_ok (sha t)" "site_inv R x" "route_ok req rt" "http_request sha f f' u av req rt x = (y, rep, out)"
  shows "fewer sha (signs_in (Http f f' u av req rt)) x y \<and> steady x y
    \<and> (sockets y = sockets x \<or> sockets y = [])
    \<and> (served y = served x \<or> served y = (now x, token_of req, True) # served x \<and> still_valid x (sha (token_of req)))
    \<and> (\<forall>t. rt = Sign_Out \<and> out = Returns True \<and> r_session req = Some t \<and> t \<noteq> [] \<longrightarrow> logins_of (store y) (sha t) = None)"
proof -
  obtain p o1 where g: "http_guard sha f u (current_generation av x) (now x) req (store x) = (p, o1)" by force
  have "sound (store x)" using assms(2) by (simp add: site_inv_def)
  note e = guard_effect [OF assms(1) this g]
  show ?thesis
  proof (cases "\<exists>c. o1 = Returns (Reached c)")
    case True
    then obtain c where c: "o1 = Returns (Reached c)" by blast
    define x1 where "x1 = x\<lparr>store := p\<rparr>"
    define x2 where "x2 = (if is_public_path (r_path req) then x1 else x1\<lparr>served := (now x1, token_of req, True) # served x1\<rparr>)"
    obtain z o2 where z: "run_route sha f' u av req rt x2 = (z, o2)" by force
    have y: "y = z" "out = o2"
      using assms(4) unfolding http_request_def g c Let_def prod.case outcome.case http_reply.case x1_def [symmetric] x2_def [symmetric] z
      by simp_all
    have x2: "store x2 = p" "steady x x2" "sockets x2 = sockets x"
      by (simp_all add: x2_def x1_def steady_def)
    have f: "fewer sha None x x2" using e x2 by (intro fewer_le [of p]) auto
    then have "site_inv R x2" using assms(2) x2 by (force simp: site_inv_def fewer_def steady_def)
    note r = run_route_effect [OF assms(1) this assms(3) z, where fa = f]
    have "served x2 = served x \<or> served x2 = (now x, token_of req, True) # served x \<and> still_valid x (sha (token_of req))"
      using e c by (auto simp: x2_def x1_def still_valid_def token_of_def dest!: current_generation_Some)
    then show ?thesis using r f x2 unfolding y by (auto simp: steady_def intro: fewer_trans)
  next
    case False
    then have y: "y = after_store (p, o1) x" "out = Fails"
      using assms(4) g by (auto simp: http_request_def split: outcome.splits http_reply.splits)
    have "fewer sha (signs_in (Http f f' u av req rt)) x y" using e by (intro fewer_le) (simp_all add: y)
    then show ?thesis by (simp add: y steady_def)
  qed
qed

text \<open>
  The effect of every step: the invariant is kept; a digest that is not valid stays so unless it
  signs in; sockets are as before or were just found valid; and at most one request or message
  is served, for a digest that is valid or on a socket whose next check is not due.
\<close>

definition sockets_from :: "(pystr \<Rightarrow> pystr) \<Rightarrow> rat \<Rightarrow> site \<Rightarrow> site \<Rightarrow> bool" where
  "sockets_from sha R x y \<longleftrightarrow>
     (\<forall>ws t nx. dict_get (sockets y) ws = Some (t, nx) \<longrightarrow>
        dict_get (sockets x) ws = Some (t, nx) \<or> still_valid x (sha t) \<and> nx = now x + R)"

definition served_from :: "(pystr \<Rightarrow> pystr) \<Rightarrow> site \<Rightarrow> site \<Rightarrow> bool" where
  "served_from sha x y \<longleftrightarrow> served y = served x
     \<or> (\<exists>t k. served y = (now x, t, k) # served x
          \<and> (still_valid x (sha t) \<or> \<not> k \<and> (\<exists>ws nx. dict_get (sockets x) ws = Some (t, nx) \<and> now x < nx)))"

lemma steady_inv:
  assumes "site_inv R x" "fewer sha tok x y" "steady x y" "sockets_from sha R x y"
  shows "site_inv R y"
  using assms by (fastforce simp: site_inv_def fewer_def steady_def sockets_from_def)

lemma steady_ended:
  assumes "fewer sha tok x y" "steady x y" "\<And>t. tok = Some t \<Longrightarrow> sha t \<noteq> d" "ended x d"
  shows "ended y d"
  using assms unfolding fewer_def steady_def ended_def by metis

lemma websocket_valid_effect:
  assumes "\<And>t. digest_ok (sha t)" "sound p" "websocket_request_is_valid sha f u gen trusted origins tok t0 p = (p', out)"
  shows "sound p' \<and> logins_of p' \<subseteq>\<^sub>m logins_of p
    \<and> (out = Returns True \<longrightarrow>
        (\<exists>g t r. gen = Some g \<and> tok = Some t \<and> logins_of p (sha t) = Some r \<and> \<not> stale g (int_of_float t0) r))"
proof -
  have "websocket_request_is_valid sha f u gen trusted origins tok t0 p \<in>
      {(p, Returns False), session_token_is_valid sha f u gen tok t0 p}"
    unfolding websocket_request_is_valid_def by (simp split: option.split list.split)
  then consider "p' = p" "out = Returns False" | "session_token_is_valid sha f u gen tok t0 p = (p', out)"
    unfolding assms(3) by (metis empty_iff insertE prod.inject)
  then show ?thesis
  proof cases
    case 1
    then show ?thesis using assms(2) by simp
  next
    case 2
    then show ?thesis by (rule token_valid_effect [OF assms(1,2)])
  qed
qed

lemma open_effect:
  assumes "\<And>t. digest_ok (sha t)" "site_inv R x"
    and y_def: "y = open_socket sha R f u av trusted origins tok ws x"
  shows "fewer sha None x y \<and> steady x y \<and> sockets_from sha R x y \<and> served y = served x"
proof -
  obtain p out where r: "websocket_request_is_valid sha f u (current_generation av x) trusted origins tok (now x) (store x) = (p, out)"
    by force
  have "sound (store x)" using assms(2) by (simp add: site_inv_def)
  note e = websocket_valid_effect [OF assms(1) this r]
  have y: "y = (case (out, tok) of
      (Returns True, Some t) \<Rightarrow> (after_store (p, out) x)\<lparr>sockets := dict_set ws (t, now x + R) (sockets (after_store (p, out) x))\<rparr>
    | _ \<Rightarrow> after_store (p, out) x)"
    by (simp add: y_def open_socket_def r Let_def split: outcome.split bool.split option.split)
  have st: "store y = p" "steady x y" "served y = served x"
    by (simp_all add: y steady_def split: outcome.split bool.split option.split)
  have "sockets_from sha R x y"
  proof (cases "out = Returns True")
    case True
    then obtain t where "tok = Some t" "still_valid x (sha t)" using e by (auto simp: still_valid_def dest!: current_generation_Some)
    then show ?thesis using True by (auto simp: y sockets_from_def dict_simps)
  next
    case False
    then have "sockets y = (if out = Gone then [] else sockets x)"
      by (auto simp: y split: outcome.split bool.split)
    then show ?thesis by (simp add: sockets_from_def)
  qed
  moreover have "fewer sha None x y" using e by (intro fewer_le) (simp_all add: st)
  ultimately show ?thesis using st by simp
qed

lemma serve_message_simps [simp]:
  "store (serve_message t rc x) = store x" "generations (serve_message t rc x) = generations x"
  "now (serve_message t rc x) = now x" "sockets (serve_message t rc x) = sockets x"
  "served (serve_message t rc x) = (if rc then (now x, t, False) # served x else served x)"
  by (simp_all add: serve_message_def)

lemma round_effect:
  assumes "\<And>t. digest_ok (sha t)" "site_inv R x"
    and y_def: "y = socket_round sha R f u av rc ws x"
  shows "fewer sha None x y \<and> steady x y \<and> sockets_from sha R x y \<and> served_from sha x y"
proof -
  have s: "sound (store x)" using assms(2) by (simp add: site_inv_def)
  consider "dict_get (sockets x) ws = None"
    | t nx where "dict_get (sockets x) ws = Some (t, nx)" "now x < nx"
    | t nx where "dict_get (sockets x) ws = Some (t, nx)" "nx \<le> now x"
    by (cases "dict_get (sockets x) ws") force+
  then show ?thesis
  proof cases
    case 1
    then have "y = x" by (simp add: y_def socket_round_def)
    then show ?thesis using s by (simp add: fewer_refl steady_def sockets_from_def served_from_def)
  next
    case 2
    then have "y = serve_message t rc x" by (simp add: y_def socket_round_def)
    then show ?thesis using s 2 by (auto simp: fewer_def steady_def sockets_from_def served_from_def)
  next
    case 3
    obtain p out where r: "session_token_is_valid sha f u (current_generation av x) (Some t) (now x) (store x) = (p, out)" by force
    note e = token_valid_effect [OF assms(1) s r]
    show ?thesis
    proof (cases "out = Returns True")
      case True
      then have y: "y = serve_message t rc (x\<lparr>store := p, sockets := dict_set ws (t, now x + R) (sockets x)\<rparr>)"
        using 3 by (simp add: y_def socket_round_def r Let_def after_store_def)
      have "still_valid x (sha t)" using e True by (auto simp: still_valid_def dest!: current_generation_Some)
      moreover have "fewer sha None x y" using e by (intro fewer_le) (simp_all add: y)
      ultimately show ?thesis
        by (auto simp: y steady_def sockets_from_def served_from_def dict_simps)
    next
      case False
      then have y: "y = (after_store (p, out) x)\<lparr>sockets := dict_pop ws (sockets (after_store (p, out) x))\<rparr>"
        using 3 by (simp add: y_def socket_round_def r Let_def)
      have "fewer sha None x y" using e by (intro fewer_le) (simp_all add: y)
      then show ?thesis by (auto simp: y steady_def sockets_from_def served_from_def dict_simps)
    qed
  qed
qed

lemma stale_later: "t1 \<le> t2 \<Longrightarrow> stale g t1 r \<Longrightarrow> stale g t2 r"
  by (auto simp: stale_def)

lemma int_of_float_mono: "0 \<le> a \<Longrightarrow> a \<le> b \<Longrightarrow> int_of_float a \<le> int_of_float b"
  by (simp add: int_of_float_def floor_mono)

lemma step_effect:
  assumes "\<And>t. digest_ok (sha t)" "site_inv R x"
    and y_def: "y = site_apply sha R op x"
  shows "site_inv R y \<and> now x \<le> now y \<and> sockets_from sha R x y \<and> served_from sha x y
    \<and> (\<forall>d. ended x d \<and> (\<forall>t. signs_in op = Some t \<longrightarrow> sha t \<noteq> d) \<longrightarrow> ended y d)"
proof -
  have steadily: ?thesis if "fewer sha (signs_in op) x y" "steady x y" "sockets_from sha R x y" "served_from sha x y"
    using steady_inv [OF assms(2) that(1-3)] steady_ended [OF that(1,2)] that by (auto simp: steady_def)
  have s: "sound (store x)" using assms(2) by (simp add: site_inv_def)
  show ?thesis
  proof (cases op)
    case (Http f f' u av req rt)
    show ?thesis
    proof (cases "route_ok req rt")
      case True
      obtain z rep out where z: "http_request sha f f' u av req rt x = (z, rep, out)" by (metis prod_cases3)
      then have "y = z" using Http True by (simp add: y_def)
      then show ?thesis using http_effect [OF assms(1,2) True z]
        by (intro steadily) (auto simp: Http sockets_from_def served_from_def)
    next
      case False
      then have "y = x" using Http by (simp add: y_def)
      then show ?thesis using s by (intro steadily) (simp_all add: fewer_refl steady_def sockets_from_def served_from_def)
    qed
  next
    case (Open f u av trusted origins tok ws)
    then show ?thesis using open_effect [OF assms(1,2) refl] by (intro steadily) (simp_all add: y_def served_from_def)
  next
    case (Round f u av rc ws)
    then show ?thesis using round_effect [OF assms(1,2) refl] by (intro steadily) (simp_all add: y_def)
  next
    case (Close ws)
    then show ?thesis using s
      by (intro steadily) (auto simp: y_def fewer_def steady_def sockets_from_def served_from_def dict_simps)
  next
    case (Set_Password g)
    then show ?thesis using assms(2)
      by (auto simp: y_def site_inv_def sockets_from_def served_from_def ended_def stale_def)
  next
    case (Pass dt)
    have m: "int_of_float (now x) \<le> int_of_float (now x + dt)" if "dt > 0"
      using assms(2) that by (intro int_of_float_mono) (auto simp: site_inv_def)
    show ?thesis
    proof (cases "dt > 0")
      case True
      then have y: "y = x\<lparr>now := now x + dt\<rparr>" using Pass by (simp add: y_def)
      have "site_inv R y" using assms(2) True by (force simp: site_inv_def y)
      moreover have "ended y d" if "ended x d" for d
        using that stale_later [OF m [OF True]] by (auto simp: ended_def y)
      ultimately show ?thesis using True by (auto simp: y sockets_from_def served_from_def)
    next
      case False
      then have "y = x" using Pass by (simp add: y_def)
      then show ?thesis using assms(2) by (simp add: sockets_from_def served_from_def)
    qed
  qed
qed

section \<open>After a session has ended\<close>

text \<open>
  What ends the session of a digest: the sign-out route answering that it did, or a new
  password.
\<close>

definition ends_session :: "(pystr \<Rightarrow> pystr) \<Rightarrow> site_op \<Rightarrow> site \<Rightarrow> pystr \<Rightarrow> bool" where
  "ends_session sha op x d \<longleftrightarrow>
     (case op of
        Set_Password g \<Rightarrow> g \<noteq> [] \<and> g \<notin> set (generations x)
      | Http f f' unl available req rt \<Rightarrow>
          rt = Sign_Out \<and> route_ok req rt \<and> token_of req \<noteq> [] \<and> sha (token_of req) = d
          \<and> snd (snd (http_request sha f f' unl available req rt x)) = Returns True
      | _ \<Rightarrow> False)"

lemma ends_session_ended:
  assumes "\<And>t. digest_ok (sha t)" "site_inv R x" "ends_session sha op x d"
  shows "ended (site_apply sha R op x) d"
proof (cases op)
  case (Set_Password g)
  then show ?thesis using assms(2,3) by (auto simp: ends_session_def site_inv_def ended_def stale_def)
next
  case (Http f f' u av req rt)
  obtain z rep out where z: "http_request sha f f' u av req rt x = (z, rep, out)" by (metis prod_cases3)
  have e: "rt = Sign_Out" "route_ok req rt" "token_of req \<noteq> []" "sha (token_of req) = d" "out = Returns True"
  proof -
    have "rt = Sign_Out \<and> route_ok req rt \<and> token_of req \<noteq> [] \<and> sha (token_of req) = d \<and> out = Returns True"
      using assms(3) by (auto simp: ends_session_def Http z)
    then show "rt = Sign_Out" "route_ok req rt" "token_of req \<noteq> []" "sha (token_of req) = d" "out = Returns True" by blast+
  qed
  then have "r_session req = Some (token_of req)" by (auto simp: token_of_def split: option.splits)
  moreover have "\<forall>t. rt = Sign_Out \<and> out = Returns True \<and> r_session req = Some t \<and> t \<noteq> [] \<longrightarrow> logins_of (store z) (sha t) = None"
    using http_effect [OF assms(1,2) e(2) z] by (elim conjE)
  ultimately have "logins_of (store z) d = None" using e by simp
  then show ?thesis using Http e(2) z by (simp add: ended_def)
qed (use assms(3) in \<open>simp_all add: ends_session_def\<close>)

text \<open>The invariant of the runs after that, for the digest \<open>d\<close> and the time \<open>T\<close> it ended.\<close>

definition powerless :: "(pystr \<Rightarrow> pystr) \<Rightarrow> rat \<Rightarrow> rat \<Rightarrow> pystr \<Rightarrow> (rat \<times> pystr \<times> bool) list \<Rightarrow> site \<Rightarrow> bool" where
  "powerless sha R T d past x \<longleftrightarrow> site_inv R x \<and> ended x d \<and> T \<le> now x
     \<and> (\<forall>ws t nx. dict_get (sockets x) ws = Some (t, nx) \<and> sha t = d \<longrightarrow> nx \<le> T + R)
     \<and> (\<exists>new. served x = new @ past \<and> (\<forall>(s, t, k) \<in> set new. sha t = d \<longrightarrow> \<not> k \<and> s < T + R))"

text \<open>Steps of a run in which nobody signs in with the digest.\<close>

definition other_step :: "(pystr \<Rightarrow> pystr) \<Rightarrow> rat \<Rightarrow> pystr \<Rightarrow> site \<Rightarrow> site \<Rightarrow> bool" where
  "other_step sha R d x y \<longleftrightarrow>
     (\<exists>op. (\<forall>t. signs_in op = Some t \<longrightarrow> sha t \<noteq> d) \<and> y = site_apply sha R op x)"

lemma powerless_step:
  assumes "\<And>t. digest_ok (sha t)" "powerless sha R T d past x" "other_step sha R d x y"
  shows "powerless sha R T d past y"
proof -
  obtain op where op: "\<forall>t. signs_in op = Some t \<longrightarrow> sha t \<noteq> d" "y = site_apply sha R op x"
    using assms(3) by (auto simp: other_step_def)
  have p: "site_inv R x" "ended x d" "T \<le> now x"
    "\<And>ws t nx. dict_get (sockets x) ws = Some (t, nx) \<Longrightarrow> sha t = d \<Longrightarrow> nx \<le> T + R"
    using assms(2) by (auto simp: powerless_def)
  obtain new where new: "served x = new @ past" "\<forall>(s, t, k) \<in> set new. sha t = d \<longrightarrow> \<not> k \<and> s < T + R"
    using assms(2) by (auto simp: powerless_def)
  note e = step_effect [OF assms(1) p(1) op(2)]
  have "ended y d" using e op(1) p(2) by blast
  moreover have "nx \<le> T + R" if "dict_get (sockets y) ws = Some (t, nx)" "sha t = d" for ws t nx
    using e that p(2,4) unfolding sockets_from_def ended_not_valid by blast
  moreover have "\<exists>new. served y = new @ past \<and> (\<forall>(s, t, k) \<in> set new. sha t = d \<longrightarrow> \<not> k \<and> s < T + R)"
  proof (cases "served y = served x")
    case True
    then show ?thesis using new by auto
  next
    case False
    then obtain t k where t: "served y = (now x, t, k) # served x"
      "still_valid x (sha t) \<or> \<not> k \<and> (\<exists>ws nx. dict_get (sockets x) ws = Some (t, nx) \<and> now x < nx)"
      using e unfolding served_from_def by blast
    have "\<not> k \<and> now x < T + R" if "sha t = d" using t(2) that p(2,4) unfolding ended_not_valid by force
    then show ?thesis using new t(1) by (intro exI [of _ "(now x, t, k) # new"]) auto
  qed
  ultimately show ?thesis using e p(3) by (auto simp: powerless_def)
qed

interpretation ended_session: invariant_system "powerless sha R T d past" "other_step sha R d"
    "\<lambda>x. (\<forall>t. digest_ok (sha t)) \<longrightarrow> powerless sha R T d past x" for sha R T d past
  by unfold_locales (use powerless_step in blast)+

lemma site_run_reachable:
  assumes "\<forall>op \<in> set ops. \<forall>t. signs_in op = Some t \<longrightarrow> sha t \<noteq> d" "init x"
  shows "reachable init (other_step sha R d) (site_run sha R ops x)"
  using assms
proof (induction ops rule: rev_induct)
  case Nil
  then show ?case by (simp add: site_run_def reach_init)
next
  case (snoc op ops)
  have "other_step sha R d (site_run sha R ops x) (site_run sha R (ops @ [op]) x)"
    using snoc.prems(1) by (auto simp: site_run_def other_step_def)
  then show ?case using snoc by (auto intro: reach_step)
qed

lemma fresh_inv: "target p = NoFile \<Longrightarrow> g \<noteq> [] \<Longrightarrow> 0 \<le> t0 \<Longrightarrow> site_inv R (fresh_site g t0 p)"
  by (simp add: site_inv_def fresh_site_def sound_def logins_of_def load_sessions_def)

lemma run_inv_site:
  assumes "\<And>t. digest_ok (sha t)"
  shows "site_inv R x \<Longrightarrow> site_inv R (site_run sha R ops x)"
proof (induction ops arbitrary: x)
  case (Cons op ops)
  have "site_inv R (site_apply sha R op x)" using step_effect [where sha = sha and op = op, OF assms Cons.prems refl] by blast
  then show ?case using Cons.IH by (simp add: site_run_def)
qed (simp add: site_run_def)

lemma ends_session_now:
  assumes "\<And>t. digest_ok (sha t)" "site_inv R x" "ends_session sha op x d"
  shows "now (site_apply sha R op x) = now x"
proof (cases op)
  case (Http f f' u av req rt)
  obtain z rep out where z: "http_request sha f f' u av req rt x = (z, rep, out)" by (metis prod_cases3)
  show ?thesis
  proof (cases "route_ok req rt")
    case True
    then show ?thesis using http_effect [OF assms(1,2) True z] Http z by (simp add: steady_def)
  qed (simp add: Http)
qed (use assms(3) in \<open>simp_all add: ends_session_def\<close>)


definition some_request :: "string \<Rightarrow> pystr \<Rightarrow> pystr option \<Rightarrow> request" where
  "some_request meth path tok = \<lparr>r_method = meth, r_path = path, r_session = tok, r_csrf_cookie = Some (lit ''c''),
     r_csrf_header = Some (lit ''c''), r_content_length = None, r_chunks = []\<rparr>"

definition signed_in :: "site_op list" where
  "signed_in = [Http NoFault NoFault True True (some_request ''POST'' LOGIN_PATH None) (Sign_In True False (lit ''tok''))]"

definition later :: "site_op list" where
  "later = [Http NoFault NoFault True True (some_request ''GET'' (lit ''/'') (Some (lit ''tok''))) Other_Route, Pass 5]"

lemma signed_in_run:
  "still_valid (site_run sample_digest 10 signed_in (fresh_site (lit ''g1'') 100 empty_store)) (sample_digest (lit ''tok''))"
  "generations (site_run sample_digest 10 signed_in (fresh_site (lit ''g1'') 100 empty_store)) = [lit ''g1'']"
proof -
  let ?x = "fresh_site (lit ''g1'') 100 empty_store"
  let ?c = "Create (lit ''g1'') False (lit ''tok'') 100"
  obtain p out where d: "do_call sample_digest NoFault True ?c empty_store = (p, out)" by force
  have "call_ok ?c" by simp
  from session_step [OF sample_digest_ok empty_sound(1) this d]
  have p: "logins_of p = spec_map sample_digest ?c Map.empty" by (auto simp: empty_sound(2))
  obtain o1 where c: "create sample_digest NoFault True (lit ''g1'') False (lit ''tok'') 100 empty_store = (p, o1)"
    using d by (cases "create sample_digest NoFault True (lit ''g1'') False (lit ''tok'') 100 empty_store") simp
  have guard: "http_guard sample_digest NoFault True (Some (lit ''g1'')) 100 (some_request ''POST'' LOGIN_PATH None) empty_store
      = (empty_store, Returns (Reached False))"
    by (simp add: http_guard_def limit_request_body_size_def some_request_def protect_http_requests_def check_csrf_def
        UNSAFE_METHODS_def csrf_is_valid_def compare_digest_def ascii_def needs_csrf_cookie_def Let_def)
  have pub: "is_public_path LOGIN_PATH"
    by (simp add: is_public_path_def PUBLIC_PATHS_def LOGIN_PATH_def del: lit_simps)
  have "site_run sample_digest 10 signed_in ?x = after_store (p, o1) ?x"
    using pub guard c
    by (simp add: site_run_def signed_in_def route_ok_def some_request_def ascii_def http_request_def
        fresh_site_def current_generation_def run_route_def Let_def)
  then show "still_valid (site_run sample_digest 10 signed_in ?x) (sample_digest (lit ''tok''))"
    "generations (site_run sample_digest 10 signed_in ?x) = [lit ''g1'']"
    by (simp_all add: still_valid_def p stale_def fresh_site_def lifetime_def SESSION_ONLY_SECONDS_def int_of_float_def)
qed


section \<open>The guard by itself\<close>

text \<open>
  C27. Nothing reaches a route past its guard. A request reaches its route only with a body of
  at most 1 MiB; a route that is not public only with the token of a session whose record is
  in the file, unexpired and of the current password generation; and a changing request to a
  protected route or to sign-in only with a CSRF header equal to the CSRF cookie and not
  empty. The session file is left alone or loses records, nothing else.
\<close>

theorem guard_sound:
  assumes "\<And>t. digest_ok (sha t)" and "sound p" and "http_guard sha f unl gen t0 req p = (p', Returns (Reached c))"
  shows "length (concat (r_chunks req)) \<le> 1048576
    \<and> (\<not> is_public_path (r_path req) \<longrightarrow>
         (\<exists>g t r. gen = Some g \<and> r_session req = Some t \<and> logins_of p (sha t) = Some r
            \<and> l_generation r = g \<and> int_of_float t0 < l_expires r))
    \<and> (r_method req \<in> {''POST'', ''PUT'', ''PATCH'', ''DELETE''} \<and> (\<not> is_public_path (r_path req) \<or> r_path req = LOGIN_PATH) \<longrightarrow>
         r_csrf_header req = r_csrf_cookie req \<and> r_csrf_header req \<notin> {None, Some []})
    \<and> sound p' \<and> logins_of p' \<subseteq>\<^sub>m logins_of p"
proof -
  note e = guard_effect [OF assms]
  have body: "length (concat (r_chunks req)) \<le> 1048576"
  proof -
    have "length body + length (concat cs) \<le> MAX_REQUEST_BODY_BYTES"
      if "read_body body cs = Some b" "length body \<le> MAX_REQUEST_BODY_BYTES" for body cs b
      using that by (induction body cs rule: read_body.induct) (auto split: if_splits)
    from this [of "[]" "r_chunks req"] show ?thesis
      using assms(3) by (auto simp: http_guard_def limit_request_body_size_def MAX_REQUEST_BODY_BYTES_def
          split: option.splits if_splits)
  qed
  have csrf: "r_csrf_header req = r_csrf_cookie req \<and> r_csrf_header req \<notin> {None, Some []}"
    if "r_method req \<in> {''POST'', ''PUT'', ''PATCH'', ''DELETE''}"
      "\<not> is_public_path (r_path req) \<or> r_path req = LOGIN_PATH"
  proof -
    have "check_csrf req \<noteq> Some (Reached c)"
      by (auto simp: check_csrf_def split: option.splits bool.splits)
    then have "check_csrf req = None" using assms(3) that(2)
      by (auto simp: http_guard_def protect_http_requests_def Let_def
          split: option.splits if_splits prod.splits outcome.splits bool.splits)
    then have "csrf_is_valid req = Some True" using that(1)
      by (auto simp: check_csrf_def UNSAFE_METHODS_def split: if_splits option.splits bool.splits)
    then show ?thesis
      by (auto simp: csrf_is_valid_def compare_digest_def split: option.splits list.splits if_splits)
  qed
  have "\<not> is_public_path (r_path req) \<longrightarrow>
         (\<exists>g t r. gen = Some g \<and> r_session req = Some t \<and> logins_of p (sha t) = Some r
            \<and> l_generation r = g \<and> int_of_float t0 < l_expires r)"
    using e by (auto simp: stale_def)
  then show ?thesis using e body csrf by blast
qed

theorem guard_sound_witness:
  "\<exists>p. http_guard sample_digest NoFault True None 100 (some_request ''POST'' LOGIN_PATH None) empty_store
        = (p, Returns (Reached False)) \<and> sound p"
proof -
  have r: "http_guard sample_digest NoFault True None 100 (some_request ''POST'' LOGIN_PATH None) empty_store
      = (empty_store, Returns (Reached False))"
    by (simp add: http_guard_def limit_request_body_size_def some_request_def protect_http_requests_def check_csrf_def
        UNSAFE_METHODS_def csrf_is_valid_def compare_digest_def ascii_def needs_csrf_cookie_def Let_def)
  from guard_sound [OF sample_digest_ok empty_sound(1) r] r show ?thesis by blast
qed

end
