(* ===== verification/Auth_State.thy ===== *)
theory Auth_State
  imports Session_Authority
begin

text \<open>
  The password state (\<open>auth.py\<close>): what is accepted as one, how a password is checked against it,
  how it is created and published, and the administrator's command with its three subcommands.

  Parameters: \<open>nfc\<close> is the Unicode normal form of \<open>unicodedata\<close>; the Argon2 library is the
  record \<open>argon\<close> (hashing, checking, and reading the parameters of an encoded hash). The state file is at the
  level of its parsed JSON; a symbolic link, a special file or one with several links is \<open>Damaged\<close>.
\<close>

section \<open>Passwords\<close>

definition MIN_PASSWORD_LENGTH :: nat where "MIN_PASSWORD_LENGTH = 15"
definition MAX_PASSWORD_LENGTH :: nat where "MAX_PASSWORD_LENGTH = 128"
definition AUTH_STATE_VERSION :: int where "AUTH_STATE_VERSION = 1"
definition MEMORY_COST_KIB :: nat where "MEMORY_COST_KIB = 19456"
definition TIME_COST :: nat where "TIME_COST = 2"
definition PARALLELISM :: nat where "PARALLELISM = 1"

record argon_parameters =
  argon2id :: bool
  memory_cost :: nat
  time_cost :: nat
  parallelism :: nat
  salt_len :: nat
  hash_len :: nat

text \<open>
  How \<open>PasswordHasher.verify\<close> ends; \<open>Raises_Other\<close> is another exception of the library, or a
  text that has no UTF-8 encoding.
\<close>

datatype verdict = Match | Mismatch | Invalid_Hash | Raises_Other

record argon =
  hash_password :: "pystr \<Rightarrow> pystr option"
  check_password :: "pystr \<Rightarrow> pystr \<Rightarrow> verdict"
  read_parameters :: "pystr \<Rightarrow> argon_parameters option"

text \<open>None is \<open>PasswordPolicyError\<close>.\<close>

definition normalize_password :: "(pystr \<Rightarrow> pystr) \<Rightarrow> pystr \<Rightarrow> pystr option" where
  "normalize_password nfc pw =
     (let n = nfc pw
      in if MIN_PASSWORD_LENGTH \<le> length n \<and> length n \<le> MAX_PASSWORD_LENGTH then Some n else None)"

section \<open>The state\<close>

definition between :: "char \<Rightarrow> char \<Rightarrow> nat \<Rightarrow> bool" where
  "between a b c \<longleftrightarrow> cp a \<le> c \<and> c \<le> cp b"

definition alnum :: "nat \<Rightarrow> bool" where
  "alnum c \<longleftrightarrow> between (CHR ''A'') (CHR ''Z'') c \<or> between (CHR ''a'') (CHR ''z'') c \<or> between (CHR ''0'') (CHR ''9'') c"

definition base64_char :: "nat \<Rightarrow> bool" where
  "base64_char c \<longleftrightarrow> alnum c \<or> c = cp (CHR ''+'') \<or> c = cp (CHR ''/'')"

definition HASH_PREFIX :: pystr where
  "HASH_PREFIX = lit ''$argon2id$v=19$m=19456,t=2,p=1$''"

definition auth_hash_ok :: "pystr \<Rightarrow> bool" where
  "auth_hash_ok s \<longleftrightarrow>
     (let r = drop (length HASH_PREFIX) s
      in take (length HASH_PREFIX) s = HASH_PREFIX \<and> length r = 66
         \<and> list_all base64_char (take 22 r) \<and> r ! 22 = cp (CHR ''$'') \<and> list_all base64_char (drop 23 r))"

definition urlsafe :: "nat \<Rightarrow> bool" where
  "urlsafe c \<longleftrightarrow> alnum c \<or> c = cp (CHR ''_'') \<or> c = cp (CHR ''-'')"

definition session_generation_ok :: "pystr \<Rightarrow> bool" where
  "session_generation_ok s \<longleftrightarrow> length s = 43 \<and> list_all urlsafe s"

definition required_parameters :: "argon_parameters \<Rightarrow> bool" where
  "required_parameters a \<longleftrightarrow> argon2id a \<and> memory_cost a = MEMORY_COST_KIB \<and> time_cost a = TIME_COST
     \<and> parallelism a = PARALLELISM \<and> salt_len a = 16 \<and> hash_len a = 32"

text \<open>A valid state is its encoded hash and its session generation; None raises ValueError.\<close>

definition validate_auth_state :: "argon \<Rightarrow> json \<Rightarrow> (pystr \<times> pystr) option" where
  "validate_auth_state lib v =
     (case v of
        JObj d \<Rightarrow>
          if set (dict_keys d) \<noteq> {lit ''version'', lit ''password_hash'', lit ''session_generation''} then None
          else if \<not> (case json_get d ''version'' of None \<Rightarrow> False | Some x \<Rightarrow> eq_int AUTH_STATE_VERSION x) then None
          else (case str_of (json_get d ''password_hash'') of
              None \<Rightarrow> None
            | Some h \<Rightarrow>
                if \<not> auth_hash_ok h then None
                else (case read_parameters lib h of
                    None \<Rightarrow> None
                  | Some a \<Rightarrow>
                      if \<not> required_parameters a then None
                      else (case str_of (json_get d ''session_generation'') of
                          None \<Rightarrow> None
                        | Some g \<Rightarrow> if session_generation_ok g then Some (h, g) else None)))
      | _ \<Rightarrow> None)"

text \<open>\<open>load_auth_state\<close>: None raises OSError or ValueError.\<close>

definition load_auth_state :: "argon \<Rightarrow> file_text place \<Rightarrow> (pystr \<times> pystr) option" where
  "load_auth_state lib p = (case target p of Content (Json v) \<Rightarrow> validate_auth_state lib v | _ \<Rightarrow> None)"

text \<open>\<open>verify_password\<close> of a validated state; None is an exception it lets out.\<close>

definition verify_password :: "(pystr \<Rightarrow> pystr) \<Rightarrow> argon \<Rightarrow> pystr \<times> pystr \<Rightarrow> pystr \<Rightarrow> bool option" where
  "verify_password nfc lib st pw =
     (case normalize_password nfc pw of
        None \<Rightarrow> Some False
      | Some n \<Rightarrow>
          (case check_password lib (fst st) n of
             Match \<Rightarrow> Some True | Mismatch \<Rightarrow> Some False | Invalid_Hash \<Rightarrow> Some False | Raises_Other \<Rightarrow> None))"

section \<open>Creating a state\<close>

text \<open>\<open>secrets.token_urlsafe\<close>: the URL-safe base64 of the random bytes without padding.\<close>

definition urlsafe_char :: "nat \<Rightarrow> nat" where
  "urlsafe_char n =
     (if n < 26 then 65 + n else if n < 52 then 71 + n else if n < 62 then n - 4 else if n = 62 then 45 else 95)"

fun urlsafe_b64 :: "bytestr \<Rightarrow> pystr" where
  "urlsafe_b64 (a # b # c # xs) =
     urlsafe_char (a div 4) # urlsafe_char (a mod 4 * 16 + b div 16)
       # urlsafe_char (b mod 16 * 4 + c div 64) # urlsafe_char (c mod 64) # urlsafe_b64 xs"
| "urlsafe_b64 [a, b] =
     [urlsafe_char (a div 4), urlsafe_char (a mod 4 * 16 + b div 16), urlsafe_char (b mod 16 * 4)]"
| "urlsafe_b64 [a] = [urlsafe_char (a div 4), urlsafe_char (a mod 4 * 16)]"
| "urlsafe_b64 [] = []"

datatype auth_error =
    Policy_Length | Entry_Interrupted | Entries_Differ | Hashing_Failed | Not_Root | State_Unusable
  | No_Account | Command_Missing | Management_Interrupted | Stop_Failed
  | Publication_Failed bool | Changed_Not_Durable | Not_Changed_Kept_Stopped | Changed_Start_Unconfirmed

definition create_auth_state :: "(pystr \<Rightarrow> pystr) \<Rightarrow> argon \<Rightarrow> bytestr \<Rightarrow> pystr \<Rightarrow> auth_error + json" where
  "create_auth_state nfc lib random pw =
     (case normalize_password nfc pw of
        None \<Rightarrow> Inl Policy_Length
      | Some n \<Rightarrow>
          (case hash_password lib n of
             None \<Rightarrow> Inl Hashing_Failed
           | Some h \<Rightarrow> Inr (JObj [(lit ''version'', JInt AUTH_STATE_VERSION), (lit ''password_hash'', JStr h),
               (lit ''session_generation'', JStr (urlsafe_b64 random))])))"

text \<open>What the administrator types; None interrupts the entry.\<close>

definition prompt_for_password :: "(pystr \<Rightarrow> pystr) \<Rightarrow> pystr option \<Rightarrow> pystr option \<Rightarrow> auth_error + pystr" where
  "prompt_for_password nfc one two =
     (case one of
        None \<Rightarrow> Inl Entry_Interrupted
      | Some a \<Rightarrow>
          (case normalize_password nfc a of
             None \<Rightarrow> Inl Policy_Length
           | Some n \<Rightarrow>
               (case two of
                  None \<Rightarrow> Inl Entry_Interrupted
                | Some b \<Rightarrow> if n \<noteq> nfc b then Inl Entries_Differ else Inr n)))"

text \<open>\<open>publish_auth_state\<close>: an invalid state is refused before anything is opened. Keys are sorted.\<close>

definition publish_auth_state :: "argon \<Rightarrow> fault \<Rightarrow> bool \<Rightarrow> json \<Rightarrow> file_text place \<Rightarrow> file_text place \<times> write_end" where
  "publish_auth_state lib f unl v p =
     (case validate_auth_state lib v of
        None \<Rightarrow> (p, Raised False)
      | Some _ \<Rightarrow>
          publish auth_plan f unl (Json (case v of JObj d \<Rightarrow> JObj (sort_key fst d) | _ \<Rightarrow> v)) p)"

section \<open>The administrator's command\<close>

text \<open>
  How a call of \<open>systemctl\<close> ends: its exit code, or an interrupt, with whether the service runs
  afterwards, or the exception of a missing program.
\<close>

datatype command_end = Exit int bool | No_Program | Break bool

record admin =
  a_root :: bool
  a_first :: "pystr option"
  a_second :: "pystr option"
  a_random :: bytestr
  a_account :: bool
  a_stop :: command_end
  a_start :: command_end
  a_active :: command_end
  a_fault :: fault
  a_unlinks :: bool

record host =
  auth_file :: "file_text place"
  service_up :: bool

datatype report = Preserved | Initialized | Validated | Reset_Done | Failed auth_error | Powered_Off

definition run_command :: "command_end \<Rightarrow> host \<Rightarrow> host \<times> (auth_error + int)" where
  "run_command c x =
     (case c of
        Exit code up \<Rightarrow> (x\<lparr>service_up := up\<rparr>, Inr code)
      | No_Program \<Rightarrow> (x, Inl Command_Missing)
      | Break up \<Rightarrow> (x\<lparr>service_up := up\<rparr>, Inl Management_Interrupted))"

definition publish_here :: "argon \<Rightarrow> admin \<Rightarrow> json \<Rightarrow> host \<Rightarrow> host \<times> write_end" where
  "publish_here lib e v x =
     (let (p, r) = publish_auth_state lib (a_fault e) (a_unlinks e) v (auth_file x) in (x\<lparr>auth_file := p\<rparr>, r))"

definition initialize :: "(pystr \<Rightarrow> pystr) \<Rightarrow> argon \<Rightarrow> admin \<Rightarrow> host \<Rightarrow> host \<times> report" where
  "initialize nfc lib e x =
     (if target (auth_file x) \<noteq> NoFile then
        (x, if load_auth_state lib (auth_file x) = None then Failed State_Unusable else Preserved)
      else case prompt_for_password nfc (a_first e) (a_second e) of
          Inl err \<Rightarrow> (x, Failed err)
        | Inr pw \<Rightarrow>
            (case create_auth_state nfc lib (a_random e) pw of
               Inl err \<Rightarrow> (x, Failed err)
             | Inr v \<Rightarrow>
                 if \<not> a_account e then (x, Failed No_Account)
                 else (case publish_here lib e v x of
                     (x, Written) \<Rightarrow> (x, Initialized)
                   | (x, Raised published) \<Rightarrow> (x, Failed (Publication_Failed published))
                   | (x, Stopped) \<Rightarrow> (x\<lparr>service_up := False\<rparr>, Powered_Off))))"

text \<open>The end of a reset, once the new state is in place.\<close>

definition start_again :: "admin \<Rightarrow> host \<Rightarrow> host \<times> report" where
  "start_again e x =
     (case run_command (a_start e) x of
        (x, Inl err) \<Rightarrow> (x, Failed err)
      | (x, Inr started) \<Rightarrow>
          (case run_command (a_active e) x of
             (x, Inl err) \<Rightarrow> (x, Failed err)
           | (x, Inr active) \<Rightarrow>
               (x, if started \<noteq> 0 \<or> active \<noteq> 0 then Failed Changed_Start_Unconfirmed else Reset_Done)))"

text \<open>The second half of \<open>_reset\<close>: the service is stopped, the state replaced, the service started.\<close>

definition replace_state :: "argon \<Rightarrow> admin \<Rightarrow> json \<Rightarrow> host \<Rightarrow> host \<times> report" where
  "replace_state lib e v x =
     (case run_command (a_stop e) x of
        (x, Inl err) \<Rightarrow> (x, Failed err)
      | (x, Inr code) \<Rightarrow>
          if code \<noteq> 0 then (x, Failed Stop_Failed)
          else (case publish_here lib e v x of
              (x, Written) \<Rightarrow> start_again e x
            | (x, Raised published) \<Rightarrow>
                (x, Failed (if published then Changed_Not_Durable else Not_Changed_Kept_Stopped))
            | (x, Stopped) \<Rightarrow> (x\<lparr>service_up := False\<rparr>, Powered_Off)))"

definition reset :: "(pystr \<Rightarrow> pystr) \<Rightarrow> argon \<Rightarrow> admin \<Rightarrow> host \<Rightarrow> host \<times> report" where
  "reset nfc lib e x =
     (if \<not> a_root e then (x, Failed Not_Root)
      else if load_auth_state lib (auth_file x) = None then (x, Failed State_Unusable)
      else case prompt_for_password nfc (a_first e) (a_second e) of
          Inl err \<Rightarrow> (x, Failed err)
        | Inr pw \<Rightarrow>
            (case create_auth_state nfc lib (a_random e) pw of
               Inl err \<Rightarrow> (x, Failed err)
             | Inr v \<Rightarrow>
                 if \<not> a_account e then (x, Failed No_Account)
                 else replace_state lib e v x))"

datatype subcommand = Initialize | Validate | Reset

definition auth_main :: "(pystr \<Rightarrow> pystr) \<Rightarrow> argon \<Rightarrow> subcommand \<Rightarrow> admin \<Rightarrow> host \<Rightarrow> host \<times> report" where
  "auth_main nfc lib c e x =
     (case c of
        Initialize \<Rightarrow> initialize nfc lib e x
      | Validate \<Rightarrow> (x, if load_auth_state lib (auth_file x) = None then Failed State_Unusable else Validated)
      | Reset \<Rightarrow> reset nfc lib e x)"

definition exit_code :: "report \<Rightarrow> int" where
  "exit_code r = (case r of Failed _ \<Rightarrow> 1 | _ \<Rightarrow> 0)"

section \<open>A created state is valid\<close>

lemma urlsafe_length: "length (urlsafe_b64 xs) = (4 * length xs + 2) div 3"
  by (induction xs rule: urlsafe_b64.induct) simp_all

lemma urlsafe_char_ok: "n < 64 \<Longrightarrow> urlsafe (urlsafe_char n)"
  by (auto simp: urlsafe_char_def urlsafe_def alnum_def between_def)

lemma sextet_digits:
  "a < 256 \<Longrightarrow> a div 4 < 64" "b < 256 \<Longrightarrow> a mod 4 * 16 + b div 16 < 64" "c < 256 \<Longrightarrow> b mod 16 * 4 + c div 64 < 64"
  "c mod 64 < 64" "a mod 4 * 16 < 64" "b mod 16 * 4 < 64" for a b c :: nat
proof -
  show "a div 4 < 64" if "a < 256" using that by (simp add: div_less_iff_less_mult)
  have m: "x mod 4 < 4" "x mod 16 < 16" for x :: nat by simp_all
  have "b div 16 < 16" if "b < 256" using that by (simp add: div_less_iff_less_mult)
  then show "a mod 4 * 16 + b div 16 < 64" if "b < 256" using that m(1) [of a] by linarith
  have "c div 64 < 4" if "c < 256" using that by (simp add: div_less_iff_less_mult)
  then show "b mod 16 * 4 + c div 64 < 64" if "c < 256" using that m(2) [of b] by linarith
  show "c mod 64 < 64" by simp
  show "a mod 4 * 16 < 64" "b mod 16 * 4 < 64" using m(1) [of a] m(2) [of b] by linarith+
qed

lemma urlsafe_ok: "list_all (\<lambda>b. b < 256) xs \<Longrightarrow> list_all urlsafe (urlsafe_b64 xs)"
  by (induction xs rule: urlsafe_b64.induct) (simp_all add: urlsafe_char_ok sextet_digits)

lemma generation_ok: "length bs = 32 \<Longrightarrow> list_all (\<lambda>b. b < 256) bs \<Longrightarrow> session_generation_ok (urlsafe_b64 bs)"
  using urlsafe_ok by (simp add: session_generation_ok_def urlsafe_length)

text \<open>The state a command would publish, as its hash and generation.\<close>

definition intended :: "(pystr \<Rightarrow> pystr) \<Rightarrow> argon \<Rightarrow> admin \<Rightarrow> (pystr \<times> pystr) option" where
  "intended nfc lib e =
     (case Option.bind (a_first e) (normalize_password nfc) of
        None \<Rightarrow> None
      | Some n \<Rightarrow> map_option (\<lambda>h. (h, urlsafe_b64 (a_random e))) (Option.bind (normalize_password nfc n) (hash_password lib)))"

lemma json_get_sort: "wf_dict d \<Longrightarrow> json_get (sort_key fst d) k = json_get d k"
  by (simp add: json_get_def get_sort)

lemma validate_sorted:
  "wf_dict d \<Longrightarrow> validate_auth_state lib (JObj (sort_key fst d)) = validate_auth_state lib (JObj d)"
  unfolding validate_auth_state_def json.case json_get_sort set_map set_sort by (rule refl)

lemma created:
  assumes "prompt_for_password nfc (a_first e) (a_second e) = Inr pw" "create_auth_state nfc lib (a_random e) pw = Inr v"
  shows "\<exists>d hg. v = JObj d \<and> wf_dict d \<and> intended nfc lib e = Some hg \<and> (\<forall>x. validate_auth_state lib v = Some x \<longrightarrow> x = hg)"
proof -
  obtain a n where a: "a_first e = Some a" "normalize_password nfc a = Some pw"
    using assms(1) by (auto simp: prompt_for_password_def split: option.splits if_splits)
  obtain m h where m: "normalize_password nfc pw = Some m" "hash_password lib m = Some h"
    and v: "v = JObj [(lit ''version'', JInt AUTH_STATE_VERSION), (lit ''password_hash'', JStr h),
               (lit ''session_generation'', JStr (urlsafe_b64 (a_random e)))]"
    using assms(2) by (auto simp: create_auth_state_def split: option.splits)
  have "validate_auth_state lib v = Some x \<Longrightarrow> x = (h, urlsafe_b64 (a_random e))" for x
    by (auto simp: v validate_auth_state_def json_get_def split: if_splits option.splits)
  moreover have "intended nfc lib e = Some (h, urlsafe_b64 (a_random e))" by (simp add: intended_def a m)
  ultimately show ?thesis unfolding v by auto
qed

lemma publish_here_service: "publish_here lib e v x = (x', r) \<Longrightarrow> service_up x' = service_up x"
  by (auto simp: publish_here_def split: prod.splits)

lemma load_same: "target q = target p \<Longrightarrow> load_auth_state lib q = load_auth_state lib p"
  by (simp add: load_auth_state_def)

lemma publish_here_cases:
  assumes v: "prompt_for_password nfc (a_first e) (a_second e) = Inr pw" "create_auth_state nfc lib (a_random e) pw = Inr v"
    and run: "publish_here lib e v x = (x', r)"
  shows "(r = Written \<or> r = Raised True) \<and> load_auth_state lib (auth_file x') = intended nfc lib e \<and> intended nfc lib e \<noteq> None
       \<or> r = Raised False \<and> target (auth_file x') = target (auth_file x)
       \<or> r = Stopped \<and> (target (auth_file x') = target (auth_file x)
            \<or> load_auth_state lib (auth_file x') = intended nfc lib e \<and> intended nfc lib e \<noteq> None)"
proof -
  obtain d hg where d: "v = JObj d" "wf_dict d" "intended nfc lib e = Some hg"
    "\<And>x. validate_auth_state lib v = Some x \<Longrightarrow> x = hg" using created [OF v] by blast
  have new: "load_auth_state lib q = Some hg"
    if "target q = Content (Json (JObj (sort_key fst d)))" "validate_auth_state lib v \<noteq> None" for q
    using that d(4) validate_sorted [OF d(2), of lib] by (auto simp: load_auth_state_def d(1))
  show ?thesis
  proof (cases "validate_auth_state lib v")
    case None
    then show ?thesis using run by (auto simp: publish_here_def publish_auth_state_def)
  next
    case (Some hg')
    obtain q where q: "publish auth_plan (a_fault e) (a_unlinks e) (Json (JObj (sort_key fst d))) (auth_file x) = (q, r)"
      "auth_file x' = q"
      using run Some by (auto simp: publish_here_def publish_auth_state_def d(1) split: prod.splits)
    from publish_cases [OF safe_plans(3) q(1)] show ?thesis
      using new [of q] Some unfolding q(2) d(3) by auto
  qed
qed

section \<open>The command tells the truth\<close>

text \<open>
  Exit code zero means what \<open>systemctl\<close> documents: a stop has stopped the service, and a service
  called active runs.
\<close>

definition honest_commands :: "admin \<Rightarrow> bool" where
  "honest_commands e \<longleftrightarrow>
     (case a_stop e of Exit code up \<Rightarrow> code = 0 \<longrightarrow> \<not> up | _ \<Rightarrow> True)
   \<and> (case a_active e of Exit code up \<Rightarrow> code = 0 \<longrightarrow> up | _ \<Rightarrow> True)"

text \<open>What each report of a reset means, for the state the file loads to before and after.\<close>

definition reset_means :: "report \<Rightarrow> (pystr \<times> pystr) option \<Rightarrow> (pystr \<times> pystr) option \<Rightarrow> host \<Rightarrow> host \<Rightarrow> bool" where
  "reset_means r new now x x' =
     (case r of
        Reset_Done \<Rightarrow> now = new \<and> service_up x'
      | Failed Changed_Start_Unconfirmed \<Rightarrow> now = new
      | Failed Changed_Not_Durable \<Rightarrow> now = new \<and> \<not> service_up x'
      | Failed Not_Changed_Kept_Stopped \<Rightarrow> auth_file x' = (auth_file x)\<lparr>strays := strays (auth_file x')\<rparr> \<and> \<not> service_up x'
      | Failed Stop_Failed \<Rightarrow> auth_file x' = auth_file x
      | Failed Command_Missing \<Rightarrow> True
      | Failed Management_Interrupted \<Rightarrow> True
      | Powered_Off \<Rightarrow> \<not> service_up x'
      | _ \<Rightarrow> x' = x)"

lemma start_again_file: "start_again e x = (x', r) \<Longrightarrow> auth_file x' = auth_file x"
  by (auto simp: start_again_def run_command_def split: command_end.splits)

text \<open>
  A reset that got as far as stopping the service had a password and a state made from it; one
  that did not touched nothing.
\<close>

definition untouched :: "report set" where
  "untouched = Failed ` {Not_Root, State_Unusable, Policy_Length, Entry_Interrupted, Entries_Differ, Hashing_Failed, No_Account}"

lemma reset_phases:
  assumes "reset nfc lib e x = (x', r)"
  obtains "x' = x" "r \<in> untouched"
  | pw v where "prompt_for_password nfc (a_first e) (a_second e) = Inr pw" "create_auth_state nfc lib (a_random e) pw = Inr v"
      "load_auth_state lib (auth_file x) \<noteq> None" "replace_state lib e v x = (x', r)"
proof -
  have "err \<in> {Policy_Length, Entry_Interrupted, Entries_Differ}"
    if "prompt_for_password nfc (a_first e) (a_second e) = Inl err" for err
    using that by (auto simp: prompt_for_password_def split: option.splits if_splits)
  moreover have "err \<in> {Policy_Length, Hashing_Failed}" if "create_auth_state nfc lib (a_random e) pw = Inl err" for pw err
    using that by (auto simp: create_auth_state_def split: option.splits)
  ultimately show thesis
    using assms that unfolding reset_def untouched_def
    by (auto split: if_splits sum.splits)
qed

lemma replace_state_truthful:
  assumes v: "prompt_for_password nfc (a_first e) (a_second e) = Inr pw" "create_auth_state nfc lib (a_random e) pw = Inr v"
    and old: "load_auth_state lib (auth_file x) \<noteq> None" and run: "replace_state lib e v x = (x', r)"
    and honest: "honest_commands e"
  shows "(load_auth_state lib (auth_file x') = load_auth_state lib (auth_file x)
      \<or> load_auth_state lib (auth_file x') = intended nfc lib e \<and> intended nfc lib e \<noteq> None)
    \<and> (load_auth_state lib (auth_file x) \<noteq> None \<longrightarrow> load_auth_state lib (auth_file x') \<noteq> None)
    \<and> reset_means r (intended nfc lib e) (load_auth_state lib (auth_file x')) x x'"
proof -
  obtain x1 r1 where 1: "run_command (a_stop e) x = (x1, r1)" by force
  have file1: "auth_file x1 = auth_file x" using 1 by (auto simp: run_command_def split: command_end.splits)
  show ?thesis
  proof (cases "r1 = Inr 0")
    case False
    then have "x' = x1" "r = Failed Stop_Failed \<or> r = Failed Command_Missing \<or> r = Failed Management_Interrupted"
      using run 1 by (auto simp: replace_state_def run_command_def split: sum.splits if_splits command_end.splits)
    then show ?thesis using file1 by (auto simp: reset_means_def)
  next
    case True
    then have down: "\<not> service_up x1"
      using 1 honest by (auto simp: run_command_def honest_commands_def split: command_end.splits)
    obtain x2 w where 2: "publish_here lib e v x1 = (x2, w)" by force
    note pc = publish_here_cases [OF v 2] and up2 = publish_here_service [OF 2]
    show ?thesis
    proof (cases "w = Written")
      case False
      then show ?thesis using run 1 True 2 pc up2 down old load_same [of "auth_file x2" "auth_file x1" lib] file1
        by (cases w; auto simp: replace_state_def reset_means_def)
    next
      case W: True
      then have s: "start_again e x2 = (x', r)" using run 1 True 2 by (simp add: replace_state_def)
      have "r = Reset_Done \<and> service_up x' \<or> r \<in> {Failed Changed_Start_Unconfirmed, Failed Command_Missing, Failed Management_Interrupted}"
        using s honest by (auto simp: start_again_def run_command_def honest_commands_def split: command_end.splits if_splits)
      then show ?thesis using start_again_file [OF s] pc W by (auto simp: reset_means_def)
    qed
  qed
qed


text \<open>
  Argon2 accepts, for a hash it made, the password it was made from and nothing else; normalising
  a second time changes nothing.
\<close>

definition argon_law :: "(pystr \<Rightarrow> pystr) \<Rightarrow> argon \<Rightarrow> bool" where
  "argon_law nfc lib \<longleftrightarrow>
     (\<forall>n h q. hash_password lib n = Some h \<longrightarrow> check_password lib h q = (if q = n then Match else Mismatch))
   \<and> (\<forall>s. nfc (nfc s) = nfc s)"

lemma intended_verifies:
  assumes "argon_law nfc lib" "intended nfc lib e = Some (h, g)"
  shows "\<exists>typed. a_first e = Some typed \<and> 15 \<le> length (nfc typed) \<and> length (nfc typed) \<le> 128
    \<and> g = urlsafe_b64 (a_random e) \<and> (\<forall>pw. verify_password nfc lib (h, g) pw = Some (nfc pw = nfc typed))"
proof -
  have idem: "nfc (nfc s) = nfc s" for s using assms(1) by (simp add: argon_law_def)
  obtain a where a: "a_first e = Some a" "15 \<le> length (nfc a)" "length (nfc a) \<le> 128" "hash_password lib (nfc a) = Some h"
    "g = urlsafe_b64 (a_random e)"
    using assms(2) by (auto simp: intended_def normalize_password_def Let_def idem MIN_PASSWORD_LENGTH_def
        MAX_PASSWORD_LENGTH_def split: option.splits if_splits bind_splits)
  have law: "check_password lib h q = (if q = nfc a then Match else Mismatch)" for q
    using assms(1) a(4) by (simp add: argon_law_def)
  have "verify_password nfc lib (h, g) pw = Some (nfc pw = nfc a)" for pw
    using a(2,3) by (auto simp: verify_password_def normalize_password_def Let_def law MIN_PASSWORD_LENGTH_def MAX_PASSWORD_LENGTH_def)
  then show ?thesis using a by blast
qed


definition sample_password :: pystr where
  "sample_password = lit ''correct horse battery''"

definition sample_hash :: pystr where
  "sample_hash = HASH_PREFIX @ replicate 22 65 @ [36] @ replicate 43 65"

definition sample_argon :: argon where
  "sample_argon = \<lparr>hash_password = (\<lambda>p. if p = sample_password then Some sample_hash else None),
     check_password = (\<lambda>h p. if p = sample_password then Match else Mismatch),
     read_parameters = (\<lambda>h. Some \<lparr>argon2id = True, memory_cost = 19456, time_cost = 2, parallelism = 1, salt_len = 16, hash_len = 32\<rparr>)\<rparr>"

definition sample_state :: json where
  "sample_state = JObj [(lit ''version'', JInt 1), (lit ''password_hash'', JStr sample_hash),
     (lit ''session_generation'', JStr (replicate 43 65))]"

definition sample_admin :: admin where
  "sample_admin = \<lparr>a_root = True, a_first = Some sample_password, a_second = Some sample_password, a_random = replicate 32 255,
     a_account = True, a_stop = Exit 0 False, a_start = Exit 0 True, a_active = Exit 0 True, a_fault = NoFault, a_unlinks = True\<rparr>"

definition sample_host :: host where
  "sample_host = \<lparr>auth_file = \<lparr>target = Content (Json sample_state), strays = 0\<rparr>, service_up = True\<rparr>"

lemma sample_password_ok: "normalize_password id sample_password = Some sample_password"
  by (simp add: normalize_password_def sample_password_def MIN_PASSWORD_LENGTH_def MAX_PASSWORD_LENGTH_def del: lit_simps)

lemma sample_hash_ok: "auth_hash_ok sample_hash"
  by (simp add: auth_hash_ok_def sample_hash_def Let_def HASH_PREFIX_def list_all_iff base64_char_def alnum_def between_def
      nth_append del: lit_simps)

lemma sample_valid:
  "session_generation_ok g \<Longrightarrow>
     validate_auth_state sample_argon (JObj [(lit ''version'', JInt 1), (lit ''password_hash'', JStr sample_hash),
       (lit ''session_generation'', JStr g)]) = Some (sample_hash, g)"
  by (auto simp: validate_auth_state_def json_get_def sample_hash_ok sample_argon_def required_parameters_def
      AUTH_STATE_VERSION_def MEMORY_COST_KIB_def TIME_COST_def PARALLELISM_def simp del: lit_simps)

lemma sample_generations: "session_generation_ok (replicate 43 65)" "session_generation_ok (urlsafe_b64 (replicate 32 255))"
  by (simp add: session_generation_ok_def list_all_iff urlsafe_def alnum_def between_def) (rule generation_ok; simp add: list_all_iff)

lemma sample_publish: "snd (publish auth_plan NoFault u new p) = Written"
  by (rule auth_file.write_no_fault)

lemma sample_loads: "load_auth_state sample_argon (auth_file sample_host) \<noteq> None"
  by (simp add: load_auth_state_def sample_host_def sample_state_def sample_valid sample_generations del: lit_simps)

lemma sample_reset: "snd (reset id sample_argon sample_admin sample_host) = Reset_Done"
proof -
  have prompt: "prompt_for_password id (Some sample_password) (Some sample_password) = Inr sample_password"
    by (simp add: prompt_for_password_def sample_password_ok)
  let ?v = "JObj [(lit ''version'', JInt 1), (lit ''password_hash'', JStr sample_hash),
     (lit ''session_generation'', JStr (urlsafe_b64 (replicate 32 255)))]"
  have create: "create_auth_state id sample_argon (replicate 32 255) sample_password = Inr ?v"
    by (simp add: create_auth_state_def sample_password_ok sample_argon_def AUTH_STATE_VERSION_def del: lit_simps)
  have valid: "validate_auth_state sample_argon ?v \<noteq> None" by (simp add: sample_valid sample_generations del: lit_simps)
  have "snd (publish_auth_state sample_argon NoFault True ?v p) = Written" for p
    using valid by (auto simp: publish_auth_state_def sample_publish simp del: lit_simps)
  then have "snd (publish_here sample_argon sample_admin ?v y) = Written" for y
    by (simp add: publish_here_def sample_admin_def case_prod_unfold Let_def del: lit_simps)
  then obtain y where "publish_here sample_argon sample_admin ?v (sample_host\<lparr>service_up := False\<rparr>) = (y, Written)"
    by (metis prod.collapse)
  then show ?thesis
    using sample_loads prompt create
    by (simp add: reset_def replace_state_def start_again_def run_command_def sample_admin_def del: lit_simps)
qed

lemma sample_law: "argon_law id sample_argon"
  by (simp add: argon_law_def sample_argon_def)



end
