(* ===== verification/Ip_Address.thy ===== *)
theory Ip_Address
  imports Py_Text
begin

text \<open>
  What the program uses of Python's \<open>ipaddress\<close>: reading an address from text, the tests of
  its range, and its text. An address is its number (32 or 128 bits); the scope of an IPv6
  address is kept as text.
\<close>

datatype ip = V4 nat | V6 nat "pystr option"

section \<open>Reading an address\<close>

definition ascii_digit :: "nat \<Rightarrow> bool" where
  "ascii_digit c \<longleftrightarrow> 48 \<le> c \<and> c \<le> 57"

definition digits_value :: "pystr \<Rightarrow> nat" where
  "digits_value s = foldl (\<lambda>n c. 10 * n + (c - 48)) 0 s"

definition parse_octet :: "pystr \<Rightarrow> nat option" where
  "parse_octet s =
     (if s = [] \<or> \<not> list_all ascii_digit s \<or> length s > 3 \<or> (s \<noteq> [48] \<and> hd s = 48) \<or> digits_value s > 255
      then None else Some (digits_value s))"

fun all_some :: "'a option list \<Rightarrow> 'a list option" where
  "all_some [] = Some []"
| "all_some (None # xs) = None"
| "all_some (Some x # xs) = map_option ((#) x) (all_some xs)"

definition big_endian :: "nat \<Rightarrow> nat list \<Rightarrow> nat" where
  "big_endian base ns = foldl (\<lambda>n d. base * n + d) 0 ns"

definition parse_v4 :: "pystr \<Rightarrow> nat option" where
  "parse_v4 s =
     (let octets = split_on 46 s
      in if length octets \<noteq> 4 then None else map_option (big_endian 256) (all_some (map parse_octet octets)))"

definition hex_digit :: "nat \<Rightarrow> nat option" where
  "hex_digit c =
     (if 48 \<le> c \<and> c \<le> 57 then Some (c - 48)
      else if 97 \<le> c \<and> c \<le> 102 then Some (c - 87)
      else if 65 \<le> c \<and> c \<le> 70 then Some (c - 55) else None)"

definition parse_hextet :: "pystr \<Rightarrow> nat option" where
  "parse_hextet s =
     (if s = [] \<or> length s > 4 then None else map_option (big_endian 16) (all_some (map hex_digit s)))"

definition hex_text :: "nat \<Rightarrow> pystr" where
  "hex_text n = map (\<lambda>d. if d < 10 then 48 + d else 87 + d)
     (case dropWhile (\<lambda>d. d = 0) [n div 4096 mod 16, n div 256 mod 16, n div 16 mod 16, n mod 16] of
        [] \<Rightarrow> [0] | ds \<Rightarrow> ds)"

text \<open>The parts of an IPv6 text, with a dotted end rewritten as two hextets.\<close>

definition v6_parts :: "pystr \<Rightarrow> pystr list option" where
  "v6_parts s =
     (let parts = split_on 58 s
      in if length parts < 3 then None
         else if 46 \<in> set (last parts)
         then (case parse_v4 (last parts) of
                 None \<Rightarrow> None
               | Some n \<Rightarrow> Some (butlast parts @ [hex_text (n div 65536 mod 65536), hex_text (n mod 65536)]))
         else Some parts)"

text \<open>
  The omission \<open>::\<close> is an empty part that is neither the first nor the last; there is at most
  one. An empty end is allowed only beside it.
\<close>

definition inner_empty :: "pystr list \<Rightarrow> nat list" where
  "inner_empty parts = filter (\<lambda>i. parts ! i = []) [1..<length parts - 1]"

definition v6_hextets :: "pystr list \<Rightarrow> (pystr list \<times> nat \<times> pystr list) option" where
  "v6_hextets parts =
     (if length parts > 9 then None
      else case inner_empty parts of
        [] \<Rightarrow> if length parts \<noteq> 8 \<or> hd parts = [] \<or> last parts = [] then None else Some (parts, 0, [])
      | [i] \<Rightarrow>
          (let hi = take i parts; lo = drop (Suc i) parts;
               hi' = (if hd parts = [] then tl hi else hi);
               lo' = (if last parts = [] then butlast lo else lo)
           in if (hd parts = [] \<and> hi' \<noteq> []) \<or> (last parts = [] \<and> lo' \<noteq> []) \<or> length hi' + length lo' > 7
              then None else Some (hi', 8 - (length hi' + length lo'), lo'))
      | _ \<Rightarrow> None)"

definition parse_v6_number :: "pystr \<Rightarrow> nat option" where
  "parse_v6_number s =
     (case Option.bind (v6_parts s) v6_hextets of
        None \<Rightarrow> None
      | Some (hi, skipped, lo) \<Rightarrow>
          (case (all_some (map parse_hextet hi), all_some (map parse_hextet lo)) of
             (Some h, Some l) \<Rightarrow> Some (big_endian 65536 (h @ replicate skipped 0 @ l))
           | _ \<Rightarrow> None))"

text \<open>\<open>_split_scope_id\<close>: the part after a percent sign.\<close>

definition split_scope :: "pystr \<Rightarrow> (pystr \<times> pystr option) option" where
  "split_scope s =
     (case dropWhile (\<lambda>c. c \<noteq> 37) s of
        [] \<Rightarrow> Some (s, None)
      | _ # scope \<Rightarrow>
          if scope = [] \<or> 37 \<in> set scope then None else Some (takeWhile (\<lambda>c. c \<noteq> 37) s, Some scope))"

definition ip_address :: "pystr \<Rightarrow> ip option" where
  "ip_address s =
     (if 47 \<in> set s then None
      else case parse_v4 s of
        Some n \<Rightarrow> Some (V4 n)
      | None \<Rightarrow>
          (case split_scope s of
             None \<Rightarrow> None
           | Some (t, scope) \<Rightarrow> map_option (\<lambda>n. V6 n scope) (parse_v6_number t)))"

section \<open>Ranges\<close>

text \<open>\<open>address in network\<close>, for the network of the first \<open>k\<close> bits.\<close>

definition in_net :: "nat \<Rightarrow> nat \<Rightarrow> nat \<Rightarrow> nat \<Rightarrow> bool" where
  "in_net bits prefix k n \<longleftrightarrow> n div 2 ^ (bits - k) = prefix div 2 ^ (bits - k)"

definition v6_prefix :: "nat \<Rightarrow> nat" where
  "v6_prefix hextet = hextet * 2 ^ 112"

definition v6_reserved_nets :: "(nat \<times> nat) list" where
  "v6_reserved_nets = [(0x0000, 8), (0x0100, 8), (0x0200, 7), (0x0400, 6), (0x0800, 5), (0x1000, 4), (0x4000, 3),
     (0x6000, 3), (0x8000, 3), (0xA000, 3), (0xC000, 3), (0xE000, 4), (0xF000, 5), (0xF800, 6), (0xFE00, 9)]"

fun is_loopback :: "ip \<Rightarrow> bool" where
  "is_loopback (V4 n) = in_net 32 (127 * 2 ^ 24) 8 n"
| "is_loopback (V6 n _) = (n = 1)"

fun is_link_local :: "ip \<Rightarrow> bool" where
  "is_link_local (V4 n) = in_net 32 (169 * 2 ^ 24 + 254 * 2 ^ 16) 16 n"
| "is_link_local (V6 n _) = in_net 128 (v6_prefix 0xFE80) 10 n"

fun is_multicast :: "ip \<Rightarrow> bool" where
  "is_multicast (V4 n) = in_net 32 (224 * 2 ^ 24) 4 n"
| "is_multicast (V6 n _) = in_net 128 (v6_prefix 0xFF00) 8 n"

fun is_unspecified :: "ip \<Rightarrow> bool" where
  "is_unspecified (V4 n) = (n = 0)"
| "is_unspecified (V6 n _) = (n = 0)"

fun is_reserved :: "ip \<Rightarrow> bool" where
  "is_reserved (V4 n) = in_net 32 (240 * 2 ^ 24) 4 n"
| "is_reserved (V6 n _) = list_ex (\<lambda>(hextet, k). in_net 128 (v6_prefix hextet) k n) v6_reserved_nets"

section \<open>The text of an address\<close>

definition join_on :: "nat \<Rightarrow> pystr list \<Rightarrow> pystr" where
  "join_on x ps = (case ps of [] \<Rightarrow> [] | p # ps \<Rightarrow> p @ concat (map (\<lambda>q. x # q) ps))"

definition octets :: "nat \<Rightarrow> nat list" where
  "octets n = [n div 2 ^ 24 mod 256, n div 2 ^ 16 mod 256, n div 2 ^ 8 mod 256, n mod 256]"

definition hextets :: "nat \<Rightarrow> nat list" where
  "hextets n = map (\<lambda>i. n div 2 ^ (16 * i) mod 65536) [7, 6, 5, 4, 3, 2, 1, 0]"

text \<open>\<open>_compress_hextets\<close>: the first longest run of at least two zeros.\<close>

definition zero_run :: "nat list \<Rightarrow> nat \<Rightarrow> nat" where
  "zero_run hs i = length (takeWhile (\<lambda>h. h = 0) (drop i hs))"

definition compress_hextets :: "nat list \<Rightarrow> pystr list" where
  "compress_hextets hs =
     (let best = Max (set (map (zero_run hs) [0..<length hs]))
      in if best > 1
         then (case find (\<lambda>i. zero_run hs i = best) [0..<length hs] of
                 None \<Rightarrow> map hex_text hs
               | Some i \<Rightarrow> (if i = 0 then [[]] else []) @ map hex_text (take i hs) @ [[]]
                   @ map hex_text (drop (i + best) hs) @ (if i + best = length hs then [[]] else []))
         else map hex_text hs)"

fun ip_text :: "ip \<Rightarrow> pystr" where
  "ip_text (V4 n) = join_on 46 (map decimal (octets n))"
| "ip_text (V6 n scope) = join_on 58 (compress_hextets (hextets n)) @ (case scope of None \<Rightarrow> [] | Some z \<Rightarrow> 37 # z)"

end
