(* ===== verification/Login_Route.thy ===== *)
theory Login_Route
  imports Auth_State Ip_Address
begin

text \<open>
  The sign-in route of \<open>main.py\<close> over the password state, the throttle and the session store, and
  the client address it throttles by. The lock of the route lets one sign-in run at a time, so the
  route is one step. \<open>clock i\<close> is the i-th reading of the monotonic clock, \<open>now\<close> that of the wall
  clock when the session is created.
\<close>

section \<open>The client's address\<close>

definition is_loopback_text :: "pystr \<Rightarrow> bool" where
  "is_loopback_text s = (case ip_address s of None \<Rightarrow> False | Some a \<Rightarrow> is_loopback a)"

text \<open>The peer of the connection (None: unknown) and the X-Forwarded-For header (empty: absent).\<close>

definition effective_client_address :: "pystr option \<Rightarrow> pystr \<Rightarrow> pystr" where
  "effective_client_address client forwarded =
     (let peer = (case client of None \<Rightarrow> [] | Some h \<Rightarrow> h);
          fallback = (if peer \<noteq> [] then peer else lit ''unknown'')
      in if is_loopback_text peer \<and> forwarded \<noteq> []
         then (case ip_address (strip (hd (split_on (cp (CHR '','')) forwarded))) of
             None \<Rightarrow> fallback | Some a \<Rightarrow> ip_text a)
         else fallback)"

section \<open>The route\<close>

text \<open>Too_Many is 429, Unavailable 503, Not_Accepted 401; Cut_Off is a power loss while the session is written.\<close>

datatype login_reply = Too_Many int | Unavailable | Not_Accepted int | Signed_In "pystr \<times> int" | Cut_Off

record login_world =
  lw_auth :: "file_text place"
  lw_sessions :: "file_text place"
  lw_throttle :: throttle

definition login ::
  "(pystr \<Rightarrow> pystr) \<Rightarrow> argon \<Rightarrow> (pystr \<Rightarrow> pystr) \<Rightarrow> fault \<Rightarrow> bool \<Rightarrow> pystr \<Rightarrow> (nat \<Rightarrow> rat) \<Rightarrow> rat \<Rightarrow> pystr \<Rightarrow> pystr \<Rightarrow> bool
     \<Rightarrow> login_world \<Rightarrow> login_world \<times> login_reply" where
  "login nfc lib sha f unl token clock now address password remembered x =
     (case retry_after (clock 0) (clock 1) address (lw_throttle x) of (th, wait) \<Rightarrow>
        let x = x\<lparr>lw_throttle := th\<rparr>
        in if wait \<noteq> 0 then (x, Too_Many wait)
           else case load_auth_state lib (lw_auth x) of
             None \<Rightarrow> (x, Unavailable)
           | Some st \<Rightarrow>
             (case verify_password nfc lib st password of
                None \<Rightarrow> (x, Unavailable)
              | Some False \<Rightarrow>
                  (case failure (clock 2) (clock 3) (clock 4) (clock 5) address th of
                     (th, wait) \<Rightarrow> (x\<lparr>lw_throttle := th\<rparr>, Not_Accepted wait))
              | Some True \<Rightarrow>
                  (case create sha f unl (snd st) remembered token now (lw_sessions x) of
                     (p, Returns r) \<Rightarrow> (x\<lparr>lw_sessions := p, lw_throttle := success address th\<rparr>, Signed_In r)
                   | (p, Fails) \<Rightarrow> (x\<lparr>lw_sessions := p\<rparr>, Unavailable)
                   | (p, Gone) \<Rightarrow> (x\<lparr>lw_sessions := p\<rparr>, Cut_Off))))"

text \<open>Signing out revokes the session; None is the 503.\<close>

definition logout :: "(pystr \<Rightarrow> pystr) \<Rightarrow> fault \<Rightarrow> bool \<Rightarrow> pystr option \<Rightarrow> login_world \<Rightarrow> login_world \<times> unit outcome" where
  "logout sha f unl cookie x =
     (case revoke sha f unl cookie (lw_sessions x) of (p, r) \<Rightarrow> (x\<lparr>lw_sessions := p\<rparr>, r))"

section \<open>The address cannot be chosen\<close>

lemma address_of_stranger:
  "client = Some peer \<Longrightarrow> peer \<noteq> [] \<Longrightarrow> \<not> is_loopback_text peer \<Longrightarrow> effective_client_address client forwarded = peer"
  by (simp add: effective_client_address_def)


section \<open>Guessing through the route\<close>

text \<open>
  A request as it arrives: the connection's peer and its X-Forwarded-For header, what was typed,
  the clock (one reading, the route takes no time), the password state then in force, and the fault of
  the session store.
\<close>

record login_request =
  lr_client :: "pystr option"
  lr_forwarded :: pystr
  lr_password :: pystr
  lr_remembered :: bool
  lr_time :: rat
  lr_now :: rat
  lr_state :: "file_text place"
  lr_token :: pystr
  lr_fault :: fault
  lr_unlinks :: bool

definition lr_addr :: "login_request \<Rightarrow> pystr" where
  "lr_addr q = effective_client_address (lr_client q) (lr_forwarded q)"

definition serve_login ::
  "(pystr \<Rightarrow> pystr) \<Rightarrow> argon \<Rightarrow> (pystr \<Rightarrow> pystr) \<Rightarrow> login_request \<Rightarrow> login_world \<Rightarrow> login_world \<times> login_reply" where
  "serve_login nfc lib sha q x =
     login nfc lib sha (lr_fault q) (lr_unlinks q) (lr_token q) (\<lambda>i. lr_time q) (lr_now q) (lr_addr q)
       (lr_password q) (lr_remembered q) (x\<lparr>lw_auth := lr_state q\<rparr>)"

fun run_logins ::
  "(pystr \<Rightarrow> pystr) \<Rightarrow> argon \<Rightarrow> (pystr \<Rightarrow> pystr) \<Rightarrow> login_request list \<Rightarrow> login_world \<Rightarrow> login_world \<times> login_reply list" where
  "run_logins nfc lib sha [] x = (x, [])"
| "run_logins nfc lib sha (q # qs) x =
     (let (x, r) = serve_login nfc lib sha q x; (x, rs) = run_logins nfc lib sha qs x in (x, r # rs))"

text \<open>The reply tells which attempt the throttle saw.\<close>

definition attempt_of :: "login_request \<Rightarrow> login_reply \<Rightarrow> sign_in_attempt" where
  "attempt_of q r = \<lparr>at_addr = lr_addr q, at_time = lr_time q,
     at_end = (case r of Signed_In s \<Rightarrow> Right | Not_Accepted n \<Rightarrow> Wrong | _ \<Rightarrow> Unserved)\<rparr>"

definition decided :: "login_reply \<Rightarrow> bool" where
  "decided r = (case r of Signed_In s \<Rightarrow> True | Not_Accepted n \<Rightarrow> True | _ \<Rightarrow> False)"

lemma login_attempt:
  "serve_login nfc lib sha q x = (x', r) \<Longrightarrow> attempt_step (attempt_of q r) (lw_throttle x) = (lw_throttle x', decided r)"
  unfolding serve_login_def login_def attempt_step_def attempt_of_def decided_def
  by (auto simp: Let_def split: prod.splits if_splits option.splits bool.splits outcome.splits)

lemma logins_attempts:
  "run_logins nfc lib sha qs x = (x', rs) \<Longrightarrow>
     length rs = length qs
   \<and> run_attempts (map (\<lambda>(q, r). attempt_of q r) (zip qs rs)) (lw_throttle x) = (lw_throttle x', map decided rs)"
proof (induction qs arbitrary: x rs)
  case (Cons q qs)
  obtain x1 r where 1: "serve_login nfc lib sha q x = (x1, r)" by force
  obtain rs' where 2: "run_logins nfc lib sha qs x1 = (x', rs')" "rs = r # rs'"
    using Cons.prems by (auto simp: 1 split: prod.splits)
  from Cons.IH [OF 2(1)] show ?case by (simp add: 2(2) login_attempt [OF 1])
qed simp


text \<open>Six wrong passwords in a second: five are refused, the sixth has to wait.\<close>

definition wrong_request :: login_request where
  "wrong_request = \<lparr>lr_client = Some (lit ''10.0.0.9''), lr_forwarded = lit ''1.2.3.4'', lr_password = lit ''guess'',
     lr_remembered = False, lr_time = 1, lr_now = 1, lr_state = auth_file sample_host, lr_token = lit ''tok'',
     lr_fault = NoFault, lr_unlinks = True\<rparr>"

definition quiet_world :: login_world where
  "quiet_world = \<lparr>lw_auth = auth_file sample_host, lw_sessions = \<lparr>target = NoFile, strays = 0\<rparr>, lw_throttle = []\<rparr>"

lemma wrong_is_refused: "verify_password id sample_argon st (lit ''guess'') = Some False"
  by (simp add: verify_password_def normalize_password_def MIN_PASSWORD_LENGTH_def)

lemma wrong_addr: "lr_addr wrong_request = lit ''10.0.0.9''"
  unfolding lr_addr_def by (rule address_of_stranger)
    (simp_all add: wrong_request_def is_loopback_text_def ip_address_def parse_v4_def parse_octet_def ascii_digit_def
      digits_value_def big_endian_def in_net_def)

lemma wrong_replies:
  "snd (run_logins id sample_argon sha (replicate 6 wrong_request) quiet_world)
     = [Not_Accepted 0, Not_Accepted 0, Not_Accepted 0, Not_Accepted 0, Not_Accepted 5, Too_Many 5]"
proof -
  note addr = wrong_addr
  obtain st where st: "load_auth_state sample_argon (auth_file sample_host) = Some st"
    by (metis sample_loads option.exhaust)
  show ?thesis
    by (simp add: numeral_eq_Suc serve_login_def login_def addr wrong_is_refused st wrong_request_def quiet_world_def
        retry_after_def throttle_current_def failure_def delay_def Let_def del: lit_simps)
qed


end
