(* ===== verification/Response_Headers.thy ===== *)
theory Response_Headers
  imports Login_Route Http_Guard
begin

text \<open>
  The headers and cookies \<open>main.py\<close> puts on a response: the browser protections with the content
  security policy of \<open>config.py\<close>, whose \<open>connect-src\<close> names the exact host of the request, and the
  attributes of the session and CSRF cookies; and the pages, the certificate download and the error replies.
\<close>

section \<open>The WebSocket source\<close>

definition rstrip_dots :: "pystr \<Rightarrow> pystr" where
  "rstrip_dots s = rev (dropWhile (\<lambda>c. c = 46) (rev s))"

definition host_char :: "nat \<Rightarrow> bool" where
  "host_char c \<longleftrightarrow> alnum c \<or> c = 45 \<or> c = 46"

definition source_host :: "pystr \<Rightarrow> pystr option" where
  "source_host h =
     (case ip_address h of
        Some (V6 n z) \<Rightarrow> Some (91 # ip_text (V6 n z) @ [93])
      | Some (V4 n) \<Rightarrow> Some (ip_text (V4 n))
      | None \<Rightarrow>
          if \<not> ascii h then None
          else let labels = split_on 46 (rstrip_dots h)
               in if length h > 253 \<or> list_ex (\<lambda>l. l = [] \<or> length l > 63) labels
                     \<or> list_ex (\<lambda>l. hd l = 45 \<or> last l = 45) labels \<or> list_ex (\<lambda>c. \<not> host_char c) h
                  then None else Some (rstrip_dots h))"

text \<open>The host and port of the URL; no host is empty or None, and None for the port is the ValueError of a bad one.\<close>

definition same_host_wss_source :: "pystr option \<Rightarrow> int option option \<Rightarrow> pystr" where
  "same_host_wss_source hostname port =
     (case hostname of
        None \<Rightarrow> []
      | Some [] \<Rightarrow> []
      | Some h \<Rightarrow>
          (case source_host h of
             None \<Rightarrow> []
           | Some s \<Rightarrow>
               (case port of
                  None \<Rightarrow> []
                | Some None \<Rightarrow> lit '' wss://'' @ s
                | Some (Some p) \<Rightarrow> lit '' wss://'' @ s @ 58 # int_text p)))"

section \<open>The headers\<close>

definition policy_before :: pystr where
  "policy_before = lit ''default-src 'self'; script-src 'self' 'unsafe-inline'; style-src 'self' 'unsafe-inline'; img-src 'self' data:; font-src 'self'; connect-src 'self'' @ [39]"

definition policy_after :: pystr where
  "policy_after = lit ''; frame-ancestors 'none'; object-src 'none'; base-uri 'self'; form-action 'self'' @ [39]"

definition content_security_policy :: "pystr \<Rightarrow> pystr" where
  "content_security_policy source = policy_before @ source @ policy_after"

definition add_security_headers ::
  "pystr \<Rightarrow> pystr option \<Rightarrow> int option option \<Rightarrow> (pystr, pystr) dict \<Rightarrow> (pystr, pystr) dict" where
  "add_security_headers path hostname port h =
     (let h = dict_set (lit ''Strict-Transport-Security'') (lit ''max-age=31536000'') h;
          h = dict_set (lit ''X-Content-Type-Options'') (lit ''nosniff'') h;
          h = dict_set (lit ''Referrer-Policy'') (lit ''no-referrer'') h;
          h = dict_set (lit ''X-Frame-Options'') (lit ''DENY'') h;
          h = dict_set (lit ''Permissions-Policy'') (lit ''geolocation=(), camera=(), microphone=(), payment=(), usb=()'') h;
          h = dict_set (lit ''Content-Security-Policy'') (content_security_policy (same_host_wss_source hostname port)) h
      in if \<not> starts_with (lit ''/static/'') path then dict_set (lit ''Cache-Control'') (lit ''no-store'') h else h)"

section \<open>The cookies\<close>

record cookie =
  ck_name :: pystr
  ck_value :: pystr
  ck_path :: pystr
  ck_secure :: bool
  ck_http_only :: bool
  ck_same_site :: pystr
  ck_max_age :: "int option"

definition SESSION_COOKIE_NAME :: pystr where "SESSION_COOKIE_NAME = lit ''__Host-snd-session''"
definition CSRF_COOKIE_NAME :: pystr where "CSRF_COOKIE_NAME = lit ''__Host-snd-csrf''"

definition csrf_cookie :: "pystr \<Rightarrow> cookie" where
  "csrf_cookie token = \<lparr>ck_name = CSRF_COOKIE_NAME, ck_value = token, ck_path = lit ''/'', ck_secure = True,
     ck_http_only = False, ck_same_site = lit ''strict'', ck_max_age = None\<rparr>"

definition session_cookie :: "pystr \<Rightarrow> bool \<Rightarrow> cookie" where
  "session_cookie token remembered = \<lparr>ck_name = SESSION_COOKIE_NAME, ck_value = token, ck_path = lit ''/'', ck_secure = True,
     ck_http_only = True, ck_same_site = lit ''strict'',
     ck_max_age = (if remembered then Some REMEMBERED_SECONDS else None)\<rparr>"

text \<open>Deleting a cookie sets it empty with the age 0.\<close>

definition expire_cookie :: "cookie \<Rightarrow> cookie" where
  "expire_cookie c = c\<lparr>ck_value := [], ck_max_age := Some 0\<rparr>"

definition expire_session_cookie :: cookie where
  "expire_session_cookie = expire_cookie (session_cookie [] False)"

definition expire_csrf_cookie :: cookie where
  "expire_csrf_cookie = expire_cookie (csrf_cookie [])"

section \<open>Pages, the certificate and error replies\<close>

datatype reply_body = File_Body pystr | Detail pystr | Refused_Because pystr

record response =
  rs_status :: nat
  rs_body :: reply_body
  rs_headers :: "(pystr, pystr) dict"

definition page_route :: "pystr \<Rightarrow> response option" where
  "page_route path =
     (let page = (\<lambda>name. Some \<lparr>rs_status = 200, rs_body = File_Body name, rs_headers = []\<rparr>)
      in if path = lit ''/'' then page (lit ''static/index.html'')
         else if path = lit ''/login'' then page (lit ''static/login.html'')
         else None)"

definition certificate_setup :: response where
  "certificate_setup =
     \<lparr>rs_status = 200, rs_body = File_Body (lit ''static/certificate-setup.html''), rs_headers = []\<rparr>"

text \<open>What \<open>lstat\<close> says of the exported certificate: an OSError, or the kind of file; it follows no link.\<close>

datatype file_kind = No_Stat | Regular | Other_Kind

definition certificate_route :: "file_kind \<Rightarrow> response" where
  "certificate_route k =
     (case k of
        Regular \<Rightarrow> \<lparr>rs_status = 200, rs_body = File_Body (lit ''caddy-root-ca.crt''),
          rs_headers = [(lit ''Cache-Control'', lit ''no-store''), (lit ''X-Content-Type-Options'', lit ''nosniff'')]\<rparr>
      | _ \<Rightarrow> \<lparr>rs_status = 404, rs_body = Detail (lit ''The exported root certificate is not available yet.''),
          rs_headers = []\<rparr>)"

text \<open>The two handlers: the path, host and port are the request's.\<close>

definition internal_server_error :: "pystr \<Rightarrow> pystr option \<Rightarrow> int option option \<Rightarrow> response" where
  "internal_server_error path hostname port =
     \<lparr>rs_status = 500, rs_body = Detail (lit ''Internal server error.''),
      rs_headers = add_security_headers path hostname port []\<rparr>"

definition request_validation_error :: "pystr \<Rightarrow> pystr option \<Rightarrow> int option option \<Rightarrow> response" where
  "request_validation_error path hostname port =
     \<lparr>rs_status = 422, rs_body = Refused_Because (lit ''The request was not valid.''),
      rs_headers = add_security_headers path hostname port []\<rparr>"

section \<open>The policy cannot be extended\<close>

definition source_char :: "nat \<Rightarrow> bool" where
  "source_char c \<longleftrightarrow> alnum c \<or> c \<in> {45, 46, 58, 91, 93}"

lemma source_char_ranges: "48 \<le> c \<Longrightarrow> c \<le> 57 \<Longrightarrow> source_char c" "97 \<le> c \<Longrightarrow> c \<le> 102 \<Longrightarrow> source_char c"
  by (simp_all add: source_char_def alnum_def between_def)

lemma decimal_source: "list_all source_char (decimal n)"
  using decimal_digits [of n] source_char_ranges(1) by (auto simp: list_all_iff)

lemma int_text_source: "list_all source_char (int_text i)"
  by (simp add: int_text_def decimal_source) (simp add: source_char_def)

lemma hex_digit_source: "d < 16 \<Longrightarrow> source_char (if d < 10 then 48 + d else 87 + d)"
  by (simp add: source_char_def alnum_def between_def)

lemma dropWhile_or_zero: "d \<in> set (case dropWhile P ds of [] \<Rightarrow> [0] | x # xs \<Rightarrow> x # xs) \<Longrightarrow> d = 0 \<or> d \<in> set ds"
  using set_dropWhileD [of d P ds] by (auto split: list.splits)

lemma hex_text_source: "list_all source_char (hex_text n)"
proof -
  let ?ds = "[n div 4096 mod 16, n div 256 mod 16, n div 16 mod 16, n mod 16]"
  have small: "d < 16" if "d = 0 \<or> d \<in> set ?ds" for d using that by (elim disjE) (simp, auto)
  show ?thesis unfolding hex_text_def list_all_iff set_map
    using hex_digit_source small dropWhile_or_zero by blast
qed

lemma join_on_source:
  "source_char x \<Longrightarrow> (\<And>p. p \<in> set ps \<Longrightarrow> list_all source_char p) \<Longrightarrow> list_all source_char (join_on x ps)"
  by (cases ps) (auto simp: join_on_def list_all_iff)

lemma compress_source: "p \<in> set (compress_hextets hs) \<Longrightarrow> list_all source_char p"
  by (auto simp: compress_hextets_def Let_def hex_text_source split: option.splits if_splits)

lemma ip_text_source: "(\<And>n z. a \<noteq> V6 n (Some z)) \<Longrightarrow> list_all source_char (ip_text a)"
proof (cases a)
  case (V4 n)
  then show ?thesis by (auto simp: decimal_source source_char_def intro!: join_on_source simp del: octets_def)
next
  case (V6 n z)
  assume "\<And>n z. a \<noteq> V6 n (Some z)"
  then have "z = None" using V6 by (cases z) auto
  then show ?thesis using V6 compress_source by (auto simp: source_char_def intro!: join_on_source)
qed

lemma rstrip_dots_set: "set (rstrip_dots s) \<subseteq> set s"
  unfolding rstrip_dots_def by (auto dest: set_dropWhileD)

lemma source_host_source:
  "source_host h = Some s \<Longrightarrow> (\<And>n z. ip_address h \<noteq> Some (V6 n (Some z))) \<Longrightarrow> list_all source_char s"
proof -
  assume s: "source_host h = Some s" and z: "\<And>n z. ip_address h \<noteq> Some (V6 n (Some z))"
  have brackets: "source_char 91" "source_char 93" by (simp_all add: source_char_def)
  show ?thesis
  proof (cases "ip_address h")
    case None
    then have "list_all host_char h" "s = rstrip_dots h"
      using s by (auto simp: source_host_def Let_def list_ex_iff list_all_iff split: if_splits)
    then show ?thesis using rstrip_dots_set [of h] by (auto simp: list_all_iff host_char_def source_char_def)
  next
    case (Some a)
    have t: "list_all source_char (ip_text a)"
    proof (rule ip_text_source)
      show "a \<noteq> V6 n (Some z)" for n z using z Some by blast
    qed
    have "s = ip_text a \<or> s = 91 # ip_text a @ [93]"
      using s Some by (cases a) (simp_all add: source_host_def)
    then show ?thesis using t brackets by (auto simp del: ip_text.simps)
  qed
qed

text \<open>The source is empty, or a blank, \<open>wss://\<close> and characters of host names, addresses and ports.\<close>

lemma source_shape:
  assumes "\<And>h n z. hostname = Some h \<Longrightarrow> ip_address h \<noteq> Some (V6 n (Some z))"
  shows "same_host_wss_source hostname port = []
    \<or> (\<exists>s. same_host_wss_source hostname port = lit '' wss://'' @ s \<and> list_all source_char s)"
proof -
  have colon: "source_char 58" by (simp add: source_char_def)
  show ?thesis
  proof (cases "same_host_wss_source hostname port = []")
    case False
    then obtain h x s where h: "hostname = Some h" "source_host h = Some s" "port = Some x"
      by (auto simp: same_host_wss_source_def split: option.splits list.splits)
    have s: "list_all source_char s" using source_host_source [OF h(2)] assms [OF h(1)] by blast
    have "h \<noteq> []" using False h(1) by (auto simp: same_host_wss_source_def)
    then obtain c cs where c: "h = c # cs" by (cases h) auto
    have "same_host_wss_source hostname port = lit '' wss://'' @ s @ (case x of None \<Rightarrow> [] | Some p \<Rightarrow> 58 # int_text p)"
      using h(2) by (simp add: same_host_wss_source_def h(1,3) c del: lit_simps split: option.splits)
    moreover have "list_all source_char (s @ (case x of None \<Rightarrow> [] | Some p \<Rightarrow> 58 # int_text p))"
      using s colon int_text_source by (simp split: option.splits)
    ultimately show ?thesis by blast
  qed simp
qed

lemma split_on_join:
  "split_on sep (x @ y) = butlast (split_on sep x) @ [last (split_on sep x) @ hd (split_on sep y)] @ tl (split_on sep y)"
proof (induction x)
  case (Cons c x)
  then show ?case
    by (cases "split_on sep x") (auto simp: neq_Nil_conv split: list.splits)
qed (cases "split_on sep y"; simp)

lemma policy_pieces: "length (split_on 59 policy_before) = 6" "length (split_on 59 policy_after) = 5" "hd (split_on 59 policy_after) = []"
  by (simp_all add: policy_before_def policy_after_def)

text \<open>
  C34. The content security policy has ten directives whatever host the request names, unless it is a
  scoped IPv6 address: they are the fixed ones, and only the sixth, \<open>connect-src\<close>, is extended, by
  nothing or by one WebSocket source made of letters, digits, dots, hyphens, colons and brackets. The
  header is set on every response, and one that is not of \<open>/static/\<close> is not to be stored.
\<close>

theorem policy_not_extended:
  assumes "\<And>h n z. hostname = Some h \<Longrightarrow> ip_address h \<noteq> Some (V6 n (Some z))"
    and base: "base = split_on 59 (content_security_policy [])"
  shows "\<exists>src. split_on 59 (content_security_policy (same_host_wss_source hostname port)) = base[5 := base ! 5 @ src]
      \<and> length base = 10 \<and> (src = [] \<or> (\<exists>s. src = lit '' wss://'' @ s \<and> list_all source_char s))
      \<and> dict_get (add_security_headers path hostname port h) (lit ''Content-Security-Policy'')
          = Some (content_security_policy src)
      \<and> (\<not> starts_with (lit ''/static/'') path \<longrightarrow>
          dict_get (add_security_headers path hostname port h) (lit ''Cache-Control'') = Some (lit ''no-store''))"
proof -
  define src where "src = same_host_wss_source hostname port"
  have shape: "src = [] \<or> (\<exists>s. src = lit '' wss://'' @ s \<and> list_all source_char s)"
    unfolding src_def by (rule source_shape) (rule assms(1))
  have no: "59 \<notin> set src"
  proof -
    have "\<not> source_char 59" by (simp add: source_char_def alnum_def between_def)
    then show ?thesis using shape by (auto simp: list_all_iff)
  qed
  obtain b l where b: "split_on 59 policy_before = b @ [l]" "length b = 5"
    using policy_pieces(1) by (metis append_butlast_last_id diff_Suc_1 eval_nat_numeral(2) eval_nat_numeral(3)
        length_butlast split_on_nonempty semiring_norm(26) semiring_norm(27) semiring_norm(28))
  obtain a where a: "split_on 59 policy_after = [] # a" "length a = 4"
    using policy_pieces(2,3) by (cases "split_on 59 policy_after") auto
  have pol: "split_on 59 (content_security_policy s) = b @ [l @ s] @ a" if "59 \<notin> set s" for s
  proof -
    have "split_on 59 (s @ policy_after) = [s] @ a"
      by (simp add: split_on_join [of 59 s] split_on_no_sep that a)
    then show ?thesis unfolding content_security_policy_def by (simp add: split_on_join [of 59 policy_before] b)
  qed
  have "base = b @ [l] @ a" using pol [of "[]"] base by simp
  then have "split_on 59 (content_security_policy src) = base[5 := base ! 5 @ src]" "length base = 10"
    using pol [OF no] b a by (simp_all add: list_update_append nth_append)
  moreover have "dict_get (add_security_headers path hostname port h) (lit ''Content-Security-Policy'')
      = Some (content_security_policy src)"
    by (simp add: add_security_headers_def Let_def dict_get_set src_def del: lit_simps)
  moreover have "\<not> starts_with (lit ''/static/'') path \<longrightarrow>
      dict_get (add_security_headers path hostname port h) (lit ''Cache-Control'') = Some (lit ''no-store'')"
    by (simp add: add_security_headers_def Let_def dict_get_set del: lit_simps)
  ultimately show ?thesis using shape unfolding src_def [symmetric] by blast
qed

lemma policy_not_extended_witness:
  "\<exists>src. split_on 59 (content_security_policy (same_host_wss_source (Some (lit ''nas'')) (Some (Some 3000))))
       = (split_on 59 (content_security_policy []))[5 := split_on 59 (content_security_policy []) ! 5 @ src]
     \<and> (\<forall>n z. ip_address (lit ''nas'') \<noteq> Some (V6 n (Some z)))"
proof -
  have n: "ip_address (lit ''nas'') = None"
    by (simp add: ip_address_def parse_v4_def split_scope_def parse_v6_number_def v6_parts_def)
  have "\<And>h n z. Some (lit ''nas'') = Some h \<Longrightarrow> ip_address h \<noteq> Some (V6 n (Some z))" using n by auto
  from policy_not_extended [OF this refl, where port = "Some (Some 3000)" and path = "lit ''/''" and h = "[]"] n show ?thesis by auto
qed

text \<open>
  The scope of an IPv6 address is any text without a percent sign, and it is copied into the policy:
  such a host adds directives.
\<close>

lemma scope_extends_policy:
  "59 \<in> set (same_host_wss_source (Some (lit ''::1%;script-src *'')) (Some None))"
proof -
  have "inner_empty [[], [], [49]] = [1]" by (simp add: inner_empty_def upt_rec)
  then have "v6_hextets [[], [], [49]] = Some ([], 7, [[49]])" by (simp add: v6_hextets_def)
  moreover have "replicate 7 (0 :: nat) = [0, 0, 0, 0, 0, 0, 0]" by (simp add: numeral_eq_Suc)
  ultimately have "parse_v6_number (lit ''::1'') = Some 1"
    by (simp add: parse_v6_number_def v6_parts_def parse_hextet_def hex_digit_def big_endian_def)
  then have "ip_address (lit ''::1%;script-src *'') = Some (V6 1 (Some (lit '';script-src *'')))"
    by (simp add: ip_address_def parse_v4_def split_scope_def)
  then show ?thesis by (simp add: same_host_wss_source_def source_host_def)
qed

end
