(* ===== verification/Channel_Reader.thy ===== *)
theory Channel_Reader
  imports Ssh_State Sudo_Gate Output_Batcher
begin

text \<open>
  \<open>read_channel\<close> of \<open>terminal_run.py\<close>: the loop that drains the channel of a command through the
  sudo gate and the batcher. The environment is the channel (what is ready in each round, when the
  command has ended), the clock, whether the command is still wanted, and which batches are
  accepted. The trace lists what the reader does, in order; \<open>taken\<close> is a ghost, the bytes read.
\<close>

section \<open>The reader\<close>

datatype read_act = Asks | Announces | Offers pystr nat | Closes

record reading =
  rd_gate :: "sudo_gate option"
  rd_batcher :: batcher
  rd_refused :: bool
  rd_announced :: bool
  rd_trace :: "read_act list"
  rd_taken :: bytestr

definition new_reading :: "sudo_gate option \<Rightarrow> reading" where
  "new_reading g = \<lparr>rd_gate = g, rd_batcher = new_batcher, rd_refused = False, rd_announced = False, rd_trace = [], rd_taken = []\<rparr>"

definition log_act :: "read_act \<Rightarrow> reading \<Rightarrow> reading" where
  "log_act x r = r\<lparr>rd_trace := rd_trace r @ [x]\<rparr>"

fun is_offer :: "read_act \<Rightarrow> bool" where
  "is_offer (Offers t n) = True"
| "is_offer _ = False"

text \<open>\<open>acc n\<close> says whether the n-th batch offered is accepted (\<open>emit\<close> returns True).\<close>

fun offer_all :: "(nat \<Rightarrow> bool) \<Rightarrow> (pystr \<times> nat) list \<Rightarrow> reading \<Rightarrow> reading \<times> bool" where
  "offer_all acc [] r = (r, True)"
| "offer_all acc ((t, n) # bs) r =
     (let k = length (filter is_offer (rd_trace r)); r = log_act (Offers t n) r
      in if acc k then offer_all acc bs r else (r, False))"

text \<open>One read: its bytes and the clock's readings in \<open>add\<close>.\<close>

type_synonym chunk = "bytestr \<times> rat \<times> rat \<times> rat"

definition give :: "(nat \<Rightarrow> bool) \<Rightarrow> chunk \<Rightarrow> reading \<Rightarrow> reading \<times> bool" where
  "give acc c r =
     (case c of (raw, t1, t2, t3) \<Rightarrow>
        let (b, outs) = add_data raw t1 t2 t3 (rd_batcher r) in offer_all acc outs (r\<lparr>rd_batcher := b\<rparr>))"

definition handle :: "(nat \<Rightarrow> bool) \<Rightarrow> chunk \<Rightarrow> reading \<Rightarrow> reading \<times> bool" where
  "handle acc c r =
     (case c of (raw, ts) \<Rightarrow>
        let r = r\<lparr>rd_taken := rd_taken r @ raw\<rparr>
        in case rd_gate r of
             None \<Rightarrow> give acc (raw, ts) r
           | Some g \<Rightarrow>
               (let (g, e) = Sudo_Gate.feed raw g; r = r\<lparr>rd_gate := Some g\<rparr>;
                    r = (if send_password e then log_act Asks r else r);
                    r = (if passed g \<and> \<not> rd_announced r then log_act Announces (r\<lparr>rd_announced := True\<rparr>) else r)
                in if ev_refused e then (log_act Closes (r\<lparr>rd_refused := True\<rparr>), False)
                   else give acc (ev_output e, ts) r))"

text \<open>The reads of one round; an empty read counts as none. The results: the reader, whether any data came, whether to stop.\<close>

fun take_reads :: "(nat \<Rightarrow> bool) \<Rightarrow> chunk option list \<Rightarrow> reading \<Rightarrow> bool \<Rightarrow> reading \<times> bool \<times> bool" where
  "take_reads acc [] r got = (r, got, False)"
| "take_reads acc (None # cs) r got = take_reads acc cs r got"
| "take_reads acc (Some c # cs) r got =
     (if fst c = [] then take_reads acc cs r got
      else case handle acc c r of (r, ok) \<Rightarrow> if ok then take_reads acc cs r True else (r, True, True))"

definition flush_all :: "(nat \<Rightarrow> bool) \<Rightarrow> bool \<Rightarrow> rat \<Rightarrow> reading \<Rightarrow> reading \<times> bool" where
  "flush_all acc final t r =
     (let (b, outs) = flush final t t (rd_batcher r) in offer_all acc outs (r\<lparr>rd_batcher := b\<rparr>))"

record round =
  wanted :: bool
  out_read :: "chunk option"
  err_read :: "chunk option"
  flush_time :: rat
  ended :: bool

text \<open>The main loop; the result says whether the command was superseded. None: it is still reading.\<close>

fun read_loop :: "(nat \<Rightarrow> bool) \<Rightarrow> round list \<Rightarrow> reading \<Rightarrow> (reading \<times> bool) option" where
  "read_loop acc [] r = None"
| "read_loop acc (k # ks) r =
     (if \<not> wanted k then Some (r, True)
      else case take_reads acc [out_read k, err_read k] r False of (r, got, stop) \<Rightarrow>
        if stop then Some (r, \<not> rd_refused r)
        else case flush_all acc False (flush_time k) r of (r, ok) \<Rightarrow>
          if \<not> ok then Some (r, True)
          else if \<not> got \<and> ended k then Some (r, False)
          else read_loop acc ks r)"

text \<open>What is still buffered after the command has ended, up to the first empty read.\<close>

fun drain :: "(nat \<Rightarrow> bool) \<Rightarrow> chunk list \<Rightarrow> reading \<Rightarrow> reading" where
  "drain acc [] r = r"
| "drain acc (c # cs) r =
     (if fst c = [] then r else case handle acc c r of (r, ok) \<Rightarrow> if ok then drain acc cs r else r)"

definition finish_reading :: "(nat \<Rightarrow> bool) \<Rightarrow> chunk list \<Rightarrow> chunk list \<Rightarrow> rat \<Rightarrow> reading \<times> bool \<Rightarrow> reading \<times> bool" where
  "finish_reading acc outs errs t x =
     (case x of (r, superseded) \<Rightarrow>
        if superseded \<or> rd_refused r then x
        else case flush_all acc True t (drain acc errs (drain acc outs r)) of (r, ok) \<Rightarrow> (r, \<not> ok))"

definition read_channel ::
  "(nat \<Rightarrow> bool) \<Rightarrow> sudo_gate option \<Rightarrow> round list \<Rightarrow> chunk list \<Rightarrow> chunk list \<Rightarrow> rat \<Rightarrow> int \<Rightarrow> (reading \<times> read_result) option" where
  "read_channel acc g rounds outs errs t code =
     (case read_loop acc rounds (new_reading g) of
        None \<Rightarrow> None
      | Some x \<Rightarrow>
          (case finish_reading acc outs errs t x of (r, superseded) \<Rightarrow>
             let r = (if superseded then log_act Closes r else r);
                 not_passed = (case rd_gate r of None \<Rightarrow> False | Some g \<Rightarrow> \<not> passed g)
             in Some (r, \<lparr>rr_gate_passed = \<not> not_passed, rr_refused = rd_refused r \<or> (not_passed \<and> code = 97),
                  rr_superseded = superseded, rr_exit_code = code\<rparr>)))"

section \<open>What has been read and what has been offered\<close>

abbreviation always :: "nat \<Rightarrow> bool" where
  "always \<equiv> \<lambda>n. True"

fun offered :: "read_act list \<Rightarrow> (pystr \<times> nat) list" where
  "offered [] = []"
| "offered (Offers t n # xs) = (t, n) # offered xs"
| "offered (x # xs) = offered xs"

lemma offered_append [simp]: "offered (xs @ ys) = offered xs @ offered ys"
  by (induction xs rule: offered.induct) auto

fun bytes_of :: "action list \<Rightarrow> bytestr" where
  "bytes_of [] = []"
| "bytes_of (Ask # xs) = bytes_of xs"
| "bytes_of (Byte b # xs) = b # bytes_of xs"

lemma bytes_of_append [simp]: "bytes_of (xs @ ys) = bytes_of xs @ bytes_of ys"
  by (induction xs rule: bytes_of.induct) auto

lemma bytes_of_actions [simp]: "bytes_of (actions e) = ev_output e"
proof -
  have "bytes_of (map Byte bs) = bs" for bs by (induction bs) auto
  then show ?thesis by (simp add: actions_def)
qed

text \<open>The gate as a function of everything read, and the bytes it lets through.\<close>

definition gate_result :: "sudo_gate option \<Rightarrow> bytestr \<Rightarrow> sudo_gate option \<times> action list" where
  "gate_result g bs = (case g of None \<Rightarrow> (None, map Byte bs) | Some g \<Rightarrow> (let (g, as) = feed_actions bs g in (Some g, as)))"

definition visible :: "sudo_gate option \<Rightarrow> bytestr \<Rightarrow> bytestr" where
  "visible g bs = bytes_of (snd (gate_result g bs))"

definition gate_sound :: "sudo_gate option \<Rightarrow> bool" where
  "gate_sound g \<longleftrightarrow> (case g of None \<Rightarrow> True | Some g \<Rightarrow> gate_inv g \<and> \<not> passed g)"

definition batch_inv :: "bytestr \<Rightarrow> (pystr \<times> nat) list \<Rightarrow> batcher \<Rightarrow> bool" where
  "batch_inv bs outs b \<longleftrightarrow>
     decode False bs = (concat (map fst outs) @ b_text b, decoder b)
     \<and> map snd outs = [1..<Suc (b_seq b)] \<and> [] \<notin> set (map fst outs)"

lemma batch_inv_add:
  assumes "batch_inv bs outs b" "add_data raw t1 t2 t3 b = (b', new)"
  shows "batch_inv (bs @ raw) (outs @ new) b'"
proof -
  have inc: "front (decoder b) = Incomplete" using decode_incomplete [of bs] assms(1) by (simp add: batch_inv_def)
  have ap: "apply_op (Add raw t1 t2 t3) b = (b', new)" using assms(2) by (simp add: apply_op_def)
  note r = apply_op_rejoin [OF ap inc]
  have "decode False (bs @ raw) = (concat (map fst outs) @ b_text b @ snd (decode_more raw (decoder b)), fst (decode_more raw (decoder b)))"
    using decode_append [of False bs raw] assms(1) by (simp add: batch_inv_def decode_more_def split_beta Let_def)
  moreover have "[1..<Suc (b_seq b)] @ [Suc (b_seq b)..<Suc (b_seq b')] = [1..<Suc (b_seq b')]"
    using r upt_add_eq_append [of 1 "Suc (b_seq b)" "b_seq b' - b_seq b"] by simp
  ultimately show ?thesis using assms(1) r by (auto simp: batch_inv_def)
qed

lemma batch_inv_flush:
  assumes "batch_inv bs outs b" "flush False t1 t2 b = (b', new)"
  shows "batch_inv bs (outs @ new) b'"
proof -
  note r = flush_rejoin [OF assms(2)]
  have "[1..<Suc (b_seq b)] @ [Suc (b_seq b)..<Suc (b_seq b')] = [1..<Suc (b_seq b')]"
    using r upt_add_eq_append [of 1 "Suc (b_seq b)" "b_seq b' - b_seq b"] by simp
  then show ?thesis using assms(1) r by (auto simp: batch_inv_def)
qed

lemma batch_inv_nil: "batch_inv [] outs b \<Longrightarrow> outs = [] \<and> b_text b = []"
  by (cases outs) (auto simp: batch_inv_def)

lemma batch_inv_final:
  assumes "batch_inv bs outs b" "flush True t1 t2 b = (b', new)"
  shows "concat (map fst (outs @ new)) = fst (decode True bs)
    \<and> map snd (outs @ new) = [1..<Suc (length (outs @ new))] \<and> [] \<notin> set (map fst (outs @ new))"
proof -
  have split: "decode True bs = (let (t, rest) = decode False bs; (t', rest') = decode True rest in (t @ t', rest'))"
    using decode_append [of True bs "[]"] by simp
  have len: "length outs = b_seq b" using assms(1) by (metis batch_inv_def diff_Suc_1 length_map length_upt)
  show ?thesis
    using assms split len by (auto simp: batch_inv_def flush_def append_text_def split_beta Let_def split: if_splits)
qed

section \<open>The gate, one read after the other\<close>

lemma gate_loop_ends:
  "gate_loop g sp buf = (g', e) \<Longrightarrow> (ev_output e \<noteq> [] \<longrightarrow> passed g') \<and> (ev_refused e \<longrightarrow> ev_output e = [] \<and> refused g')"
proof (induction g sp buf rule: gate_loop.induct)
  case (1 g sp buf)
  show ?case
  proof (cases "buf = [] \<or> candidates g buf = []")
    case True
    then show ?thesis using "1.prems" by (subst (asm) gate_loop.simps) (auto split: if_splits)
  next
    case False
    then obtain c cs i k where c: "candidates g buf = c # cs" "fold min cs c = (i, k)"
      by (metis list.exhaust surj_pair)
    show ?thesis
    proof (cases "k = Mark \<or> asked g")
      case True
      then show ?thesis using "1.prems" False c by (subst (asm) gate_loop.simps) (auto split: if_splits)
    next
      case no: False
      then show ?thesis using "1.prems" False c "1.IH" [of c cs "(i, k)" i k]
        by (subst (asm) gate_loop.simps) auto
    qed
  qed
qed

lemma feed_ends:
  "Sudo_Gate.feed bs g = (g', e) \<Longrightarrow> (ev_output e \<noteq> [] \<longrightarrow> passed g') \<and> (ev_refused e \<longrightarrow> ev_output e = [] \<and> refused g')"
  by (auto simp: Sudo_Gate.feed_def split: if_splits dest: gate_loop_ends)

lemma feed_passed: "passed g \<Longrightarrow> Sudo_Gate.feed bs g = (g', e) \<Longrightarrow> passed g'"
  by (simp add: Sudo_Gate.feed_def)

text \<open>What a read adds to the result of the gate.\<close>

lemma gate_result_more:
  assumes "gate_sound (Some g0)" "gate_result (Some g0) bs = (Some g, as)" "Sudo_Gate.feed raw g = (g', e)"
  shows "gate_result (Some g0) (bs @ raw) = (Some g', as @ actions e)"
proof -
  have inv: "gate_inv g0" using assms(1) by (simp add: gate_sound_def)
  obtain h bs' where h: "feed_actions bs g0 = (h, bs')" by force
  then have "h = g" "bs' = as" using assms(2) by (simp_all add: gate_result_def)
  moreover have "feed_actions raw g = (g', actions e)" by (simp add: feed_actions_def assms(3))
  ultimately have "feed_actions (bs @ raw) g0 = (g', as @ actions e)" using gate.feed_append [OF inv, of bs raw] h by simp
  then show ?thesis by (simp add: gate_result_def)
qed

lemma gate_result_nil: "gate_sound g0 \<Longrightarrow> gate_result g0 [] = (g0, [])"
  by (cases g0) (auto simp: gate_result_def gate_sound_def gate.feed_nil)

lemma gate_closed_shows_nothing:
  assumes "gate_result (Some g0) bs = (Some g, as)" "\<not> passed g"
  shows "bytes_of as = []"
proof -
  obtain g' e where f: "Sudo_Gate.feed bs g0 = (g', e)" by force
  then have "g' = g" "as = actions e" using assms(1) by (simp_all add: gate_result_def feed_actions_def)
  then show ?thesis using feed_ends [OF f] assms(2) by auto
qed

section \<open>The invariant of the reader\<close>

definition announced_first :: "read_act list \<Rightarrow> bool" where
  "announced_first xs \<longleftrightarrow> list_all (\<lambda>x. \<not> is_offer x) (takeWhile (\<lambda>x. x \<noteq> Announces) xs)"

definition times_of :: "'a \<Rightarrow> 'a list \<Rightarrow> nat" where
  "times_of x xs = length (filter ((=) x) xs)"

lemma times_of_simps [simp]:
  "times_of x [] = 0" "times_of x (y # ys) = (if x = y then 1 else 0) + times_of x ys"
  "times_of x (ys @ zs) = times_of x ys + times_of x zs"
  by (simp_all add: times_of_def)

lemma times_of_bytes [simp]: "times_of Ask (map Byte bs) = 0"
  by (induction bs) simp_all

definition gate_open :: "reading \<Rightarrow> bool" where
  "gate_open r \<longleftrightarrow> (case rd_gate r of None \<Rightarrow> False | Some g \<Rightarrow> passed g)"

definition gate_refused :: "reading \<Rightarrow> bool" where
  "gate_refused r \<longleftrightarrow> (case rd_gate r of None \<Rightarrow> False | Some g \<Rightarrow> refused g)"

lemma gate_frame [simp]:
  "gate_open (r\<lparr>rd_batcher := b, rd_trace := tr\<rparr>) = gate_open r"
  "gate_refused (r\<lparr>rd_batcher := b, rd_trace := tr\<rparr>) = gate_refused r"
  by (simp_all add: gate_open_def gate_refused_def)

definition gate_part :: "sudo_gate option \<Rightarrow> reading \<Rightarrow> bool" where
  "gate_part g0 r \<longleftrightarrow>
     rd_gate r = fst (gate_result g0 (rd_taken r))
   \<and> times_of Asks (rd_trace r) = times_of Ask (snd (gate_result g0 (rd_taken r)))
   \<and> (rd_announced r \<longleftrightarrow> gate_open r) \<and> times_of Announces (rd_trace r) = (if rd_announced r then 1 else 0)
   \<and> (g0 \<noteq> None \<longrightarrow> announced_first (rd_trace r))
   \<and> (rd_refused r \<longrightarrow> gate_refused r)"

definition reading_inv :: "sudo_gate option \<Rightarrow> reading \<Rightarrow> bool" where
  "reading_inv g0 r \<longleftrightarrow> gate_part g0 r \<and> batch_inv (visible g0 (rd_taken r)) (offered (rd_trace r)) (rd_batcher r)"

lemma offer_all_always:
  "offer_all always bs r = (r\<lparr>rd_trace := rd_trace r @ map (\<lambda>(t, n). Offers t n) bs\<rparr>, True)"
  by (induction bs arbitrary: r) (auto simp: log_act_def Let_def)

lemma offers_only [simp]:
  "offered (map (\<lambda>(t, n). Offers t n) bs) = bs" "times_of Asks (map (\<lambda>(t, n). Offers t n) bs) = 0"
  "times_of Announces (map (\<lambda>(t, n). Offers t n) bs) = 0"
  by (induction bs) auto

lemma announced_first_append:
  "announced_first xs \<Longrightarrow> bs \<noteq> [] \<longrightarrow> times_of Announces xs \<noteq> 0 \<Longrightarrow> announced_first (xs @ map (\<lambda>(t, n). Offers t n) bs)"
proof (cases "bs = []")
  case False
  assume a: "announced_first xs" "bs \<noteq> [] \<longrightarrow> times_of Announces xs \<noteq> 0"
  then have "Announces \<in> set xs" using False by (auto simp: times_of_def filter_empty_conv)
  then show ?thesis using a(1) by (simp add: announced_first_def takeWhile_append1)
qed simp

lemma announced_first_acts:
  "announced_first xs \<Longrightarrow> announced_first (xs @ [Asks])" "announced_first xs \<Longrightarrow> announced_first (xs @ [Announces])"
  "announced_first xs \<Longrightarrow> announced_first (xs @ [Closes])"
  by (induction xs) (auto simp: announced_first_def)

text \<open>New batches: a closed gate has let nothing through, so there are none.\<close>

lemma offers_inv:
  assumes r: "gate_part g0 r" and "gate_sound g0"
    and b: "batch_inv (visible g0 (rd_taken r)) (offered (rd_trace r) @ outs) b"
  shows "reading_inv g0 (r\<lparr>rd_batcher := b, rd_trace := rd_trace r @ map (\<lambda>(t, n). Offers t n) outs\<rparr>)"
proof -
  have "outs = []" if gated: "g0 \<noteq> None" and none: "times_of Announces (rd_trace r) = 0"
  proof -
    have "\<not> gate_open r" using r none by (auto simp: gate_part_def split: if_splits)
    moreover obtain h where h: "g0 = Some h" using gated by blast
    obtain g as where g: "gate_result (Some h) (rd_taken r) = (Some g, as)"
      by (auto simp: gate_result_def split_beta)
    moreover have "rd_gate r = Some g" using r by (simp add: gate_part_def h g)
    ultimately have "visible g0 (rd_taken r) = []"
      using gate_closed_shows_nothing [OF g] by (simp add: gate_open_def visible_def h)
    then show ?thesis using b batch_inv_nil by fastforce
  qed
  then show ?thesis
    using r b announced_first_append [of "rd_trace r" outs] by (auto simp: reading_inv_def gate_part_def)
qed

lemma flush_inv:
  assumes "reading_inv g0 r" "gate_sound g0" "flush_all always False t r = (r', ok)"
  shows "reading_inv g0 r' \<and> ok \<and> rd_taken r' = rd_taken r"
proof -
  obtain b outs where f: "flush False t t (rd_batcher r) = (b, outs)" by force
  have "batch_inv (visible g0 (rd_taken r)) (offered (rd_trace r) @ outs) b"
    using batch_inv_flush [OF _ f] assms(1) by (simp add: reading_inv_def)
  from offers_inv [OF _ assms(2) this] assms(1) show ?thesis
    using assms(3) by (auto simp: flush_all_def f offer_all_always reading_inv_def)
qed

text \<open>One read through the gate and the batcher.\<close>

definition gate_step :: "bytestr \<Rightarrow> reading \<Rightarrow> reading \<times> bytestr \<times> bool" where
  "gate_step raw r =
     (let r = r\<lparr>rd_taken := rd_taken r @ raw\<rparr>
      in case rd_gate r of
           None \<Rightarrow> (r, raw, False)
         | Some g \<Rightarrow>
             (let (g, e) = Sudo_Gate.feed raw g; r = r\<lparr>rd_gate := Some g\<rparr>;
                  r = (if send_password e then log_act Asks r else r);
                  r = (if passed g \<and> \<not> rd_announced r then log_act Announces (r\<lparr>rd_announced := True\<rparr>) else r)
              in (r, ev_output e, ev_refused e)))"

lemma handle_step:
  "handle acc (raw, ts) r =
     (case gate_step raw r of (r, out, stop) \<Rightarrow>
        if stop then (log_act Closes (r\<lparr>rd_refused := True\<rparr>), False) else give acc (out, ts) r)"
  by (simp add: handle_def gate_step_def Let_def split_beta split: option.splits)

lemma gate_step_inv:
  assumes r: "gate_part g0 r" and g0: "gate_sound g0" and step: "gate_step raw r = (q, out, stop)"
  shows "gate_part g0 q" "visible g0 (rd_taken q) = visible g0 (rd_taken r) @ out"
    "offered (rd_trace q) = offered (rd_trace r)" "rd_batcher q = rd_batcher r" "rd_refused q = rd_refused r"
    "stop \<Longrightarrow> out = [] \<and> gate_refused q"
proof -
  have "gate_part g0 q \<and> visible g0 (rd_taken q) = visible g0 (rd_taken r) @ out
      \<and> offered (rd_trace q) = offered (rd_trace r) \<and> rd_batcher q = rd_batcher r \<and> rd_refused q = rd_refused r
      \<and> (stop \<longrightarrow> out = [] \<and> gate_refused q)"
  proof (cases g0)
    case None
    have "bytes_of (map Byte bs) = bs" for bs by (induction bs) auto
    then show ?thesis using r step by (auto simp: None gate_step_def gate_part_def gate_result_def visible_def gate_open_def gate_refused_def)
  next
    case (Some h)
    obtain g as where g: "gate_result (Some h) (rd_taken r) = (Some g, as)" by (auto simp: gate_result_def split_beta)
    have rg: "rd_gate r = Some g" using r by (simp add: gate_part_def Some g)
    obtain g' e where f: "Sudo_Gate.feed raw g = (g', e)" by force
    note more = gate_result_more [OF g0 [unfolded Some] g f]
    define asks where "asks = (if send_password e then [Asks] else [])"
    define anns where "anns = (if passed g' \<and> \<not> rd_announced r then [Announces] else [])"
    have q: "q = r\<lparr>rd_taken := rd_taken r @ raw, rd_gate := Some g', rd_trace := rd_trace r @ asks @ anns,
        rd_announced := rd_announced r \<or> passed g'\<rparr>" "out = ev_output e" "stop = ev_refused e"
      using step by (auto simp: gate_step_def rg f log_act_def asks_def anns_def Let_def)
    have "rd_announced r \<longrightarrow> passed g'" using r feed_passed [OF _ f] by (simp add: gate_part_def gate_open_def rg)
    moreover have "announced_first (rd_trace r @ asks @ anns)"
      using r announced_first_acts by (auto simp: gate_part_def Some asks_def anns_def simp flip: append_assoc)
    moreover have "rd_refused r \<longrightarrow> refused g'"
    proof
      assume "rd_refused r"
      then have "refused g" using r by (simp add: gate_part_def gate_refused_def rg)
      then show "refused g'" using f by (auto simp: Sudo_Gate.feed_def split: if_splits)
    qed
    moreover have "times_of Ask (actions e) = times_of Asks asks" by (simp add: actions_def asks_def)
    ultimately show ?thesis
      using r more g feed_ends [OF f]
      by (auto simp: q Some gate_part_def gate_open_def gate_refused_def rg visible_def asks_def anns_def)
  qed
  then show "gate_part g0 q" "visible g0 (rd_taken q) = visible g0 (rd_taken r) @ out"
    "offered (rd_trace q) = offered (rd_trace r)" "rd_batcher q = rd_batcher r" "rd_refused q = rd_refused r"
    "stop \<Longrightarrow> out = [] \<and> gate_refused q" by blast+
qed

lemma handle_inv:
  assumes r: "reading_inv g0 r" "gate_sound g0" and h: "handle always c r = (r', ok)"
  shows "reading_inv g0 r' \<and> (if ok then rd_refused r' = rd_refused r else rd_refused r')"
proof -
  obtain raw t1 t2 t3 where c: "c = (raw, t1, t2, t3)" by (cases c)
  obtain q out stop where g: "gate_step raw r = (q, out, stop)" by (cases "gate_step raw r")
  have gp: "gate_part g0 r" and bi: "batch_inv (visible g0 (rd_taken r)) (offered (rd_trace r)) (rd_batcher r)"
    using r(1) by (simp_all add: reading_inv_def)
  note s = gate_step_inv [OF gp r(2) g]
  show ?thesis
  proof (cases stop)
    case True
    have "announced_first (rd_trace q @ [Closes])" if "g0 \<noteq> None"
      using that s(1) announced_first_acts(3) by (simp add: gate_part_def)
    moreover have r': "r' = q\<lparr>rd_refused := True, rd_trace := rd_trace q @ [Closes]\<rparr>" "\<not> ok"
      using h True by (simp_all add: c handle_step g log_act_def)
    moreover have "gate_open r' = gate_open q" "gate_refused r' = gate_refused q"
      by (simp_all add: r' gate_open_def gate_refused_def)
    ultimately show ?thesis using s True bi by (simp add: reading_inv_def gate_part_def)
  next
    case False
    obtain b outs where b: "add_data out t1 t2 t3 (rd_batcher q) = (b, outs)" by force
    have "batch_inv (visible g0 (rd_taken q)) (offered (rd_trace q) @ outs) b"
      using batch_inv_add [OF bi] b s(2-4) by simp
    from offers_inv [OF s(1) r(2) this] show ?thesis
      using h s(5) False by (auto simp: c handle_step g give_def b offer_all_always)
  qed
qed

lemma take_reads_inv:
  assumes "gate_sound g0"
  shows "reading_inv g0 r \<Longrightarrow> \<not> rd_refused r \<Longrightarrow> take_reads always cs r got = (r', got', stop) \<Longrightarrow>
     reading_inv g0 r' \<and> stop = rd_refused r'"
proof (induction cs arbitrary: r got)
  case (Cons x cs)
  show ?case
  proof (cases "x = None \<or> (\<exists>c. x = Some c \<and> fst c = [])")
    case True
    then have "take_reads always cs r got = (r', got', stop)" using Cons.prems(3) by auto
    then show ?thesis by (rule Cons.IH [OF Cons.prems(1,2)])
  next
    case False
    then obtain c where x: "x = Some c" "fst c \<noteq> []" by auto
    obtain q ok where h: "handle always c r = (q, ok)" by force
    note hi = handle_inv [OF Cons.prems(1) assms h]
    show ?thesis
    proof (cases ok)
      case True
      then have "take_reads always cs q True = (r', got', stop)" using Cons.prems(3) x h by simp
      then show ?thesis using Cons.IH [of q True] hi True Cons.prems(2) by simp
    qed (use Cons.prems(3) x h hi in auto)
  qed
qed auto

lemma read_loop_inv:
  assumes "gate_sound g0"
  shows "reading_inv g0 r \<Longrightarrow> \<not> rd_refused r \<Longrightarrow> read_loop always ks r = Some (r', gone) \<Longrightarrow>
     reading_inv g0 r' \<and> (gone \<longrightarrow> (\<exists>k \<in> set ks. \<not> wanted k))"
proof (induction ks arbitrary: r)
  case (Cons k ks)
  show ?case
  proof (cases "wanted k")
    case True
    obtain q got stop where t: "take_reads always [out_read k, err_read k] r False = (q, got, stop)"
      by (cases "take_reads always [out_read k, err_read k] r False")
    note ti = take_reads_inv [OF assms Cons.prems(1,2) t]
    obtain p ok where f: "flush_all always False (flush_time k) q = (p, ok)" by force
    show ?thesis
    proof (cases stop)
      case True
      then have "r' = q \<and> gone = False" using Cons.prems(3) t ti \<open>wanted k\<close> by auto
      then show ?thesis using ti by simp
    next
      case False
      have fi: "reading_inv g0 p" ok using flush_inv [OF _ assms f] ti by auto
      have "rd_refused p = rd_refused q" using f by (auto simp: flush_all_def offer_all_always split_beta)
      then have np: "\<not> rd_refused p" using ti False by simp
      show ?thesis
      proof (cases "\<not> got \<and> ended k")
        case True
        then have "r' = p \<and> gone = False" using Cons.prems(3) t f fi False \<open>wanted k\<close> by simp
        then show ?thesis using fi by simp
      next
        case go: False
        then have "read_loop always ks p = Some (r', gone)" using Cons.prems(3) t f fi False \<open>wanted k\<close> by auto
        then show ?thesis using Cons.IH [OF fi(1) np] by auto
      qed
    qed
  qed (use Cons.prems in auto)
qed simp

lemma drain_inv:
  assumes "gate_sound g0"
  shows "reading_inv g0 r \<Longrightarrow> reading_inv g0 (drain always cs r)"
proof (induction cs arbitrary: r)
  case (Cons c cs)
  obtain q ok where h: "handle always c r = (q, ok)" by force
  show ?case using Cons.IH [of q] handle_inv [OF Cons.prems assms h] Cons.prems by (simp add: h)
qed simp

lemma reading_inv_new: "gate_sound g0 \<Longrightarrow> reading_inv g0 (new_reading g0)"
  by (auto simp: reading_inv_def gate_part_def new_reading_def gate_result_nil visible_def batch_inv_def new_batcher_def
      gate_open_def announced_first_def gate_sound_def split: option.splits)

lemma finish_reading_inv:
  assumes "gate_sound g0" "reading_inv g0 r" "finish_reading always outs errs t (r, False) = (r', gone)"
  shows "\<not> gone \<and> gate_part g0 r' \<and>
    (rd_refused r \<and> r' = r
     \<or> concat (map fst (offered (rd_trace r'))) = fst (decode True (visible g0 (rd_taken r')))
       \<and> map snd (offered (rd_trace r')) = [1..<Suc (length (offered (rd_trace r')))])"
proof (cases "rd_refused r")
  case True
  then show ?thesis using assms by (simp add: finish_reading_def reading_inv_def)
next
  case False
  let ?q = "drain always errs (drain always outs r)"
  have q: "reading_inv g0 ?q" using drain_inv [OF assms(1)] assms(2) by blast
  obtain b new where f: "flush True t t (rd_batcher ?q) = (b, new)" by force
  have r': "r' = ?q\<lparr>rd_batcher := b, rd_trace := rd_trace ?q @ map (\<lambda>(t, n). Offers t n) new\<rparr>" "\<not> gone"
    using assms(3) False by (auto simp: finish_reading_def flush_all_def f offer_all_always)
  have bi: "batch_inv (visible g0 (rd_taken ?q)) (offered (rd_trace ?q)) (rd_batcher ?q)" and gp: "gate_part g0 ?q"
    using q by (simp_all add: reading_inv_def)
  note fin = batch_inv_final [OF bi f]
  have "times_of Announces (rd_trace ?q) \<noteq> 0" if gated: "g0 \<noteq> None" "new \<noteq> []"
  proof (rule ccontr)
    assume "\<not> times_of Announces (rd_trace ?q) \<noteq> 0"
    then have closed: "\<not> gate_open ?q" using gp by (auto simp: gate_part_def split: if_splits)
    obtain h where h: "g0 = Some h" using gated(1) by blast
    obtain g as where g: "gate_result (Some h) (rd_taken ?q) = (Some g, as)" by (auto simp: gate_result_def split_beta)
    have "rd_gate ?q = Some g" using gp by (simp add: gate_part_def h g)
    then have "visible g0 (rd_taken ?q) = []"
      using gate_closed_shows_nothing [OF g] closed by (simp add: gate_open_def visible_def h g)
    then show False using fin gated(2) by (cases new) auto
  qed
  then have "announced_first (rd_trace ?q @ map (\<lambda>(t, n). Offers t n) new)" if "g0 \<noteq> None"
    using announced_first_append [of "rd_trace ?q" new] gp that by (auto simp: gate_part_def)
  then have "gate_part g0 r'" using gp unfolding r' by (simp add: gate_part_def)
  then show ?thesis using r' fin by simp
qed

section \<open>What the reader delivers\<close>

definition gate_for :: "(bytestr \<times> bytestr) option \<Rightarrow> sudo_gate option" where
  "gate_for pm = map_option (\<lambda>(ph, mk). new_gate ph mk) pm"

definition passing :: "(bytestr \<times> bytestr) option \<Rightarrow> bytestr \<Rightarrow> bytestr" where
  "passing pm bs = (case pm of None \<Rightarrow> bs | Some (ph, mk) \<Rightarrow> bytes_of (verdict_actions ph mk bs))"

lemma gate_for_sound: "(\<And>ph mk. pm = Some (ph, mk) \<Longrightarrow> patterns_ok ph mk) \<Longrightarrow> gate_sound (gate_for pm)"
proof -
  assume p: "\<And>ph mk. pm = Some (ph, mk) \<Longrightarrow> patterns_ok ph mk"
  have "\<not> passed (new_gate ph mk)" for ph mk by (simp add: new_gate_def)
  then show "gate_sound (gate_for pm)"
    using gate_inv_new p by (auto simp: gate_for_def gate_sound_def split: option.splits)
qed

lemma gate_for_result:
  assumes "\<And>ph mk. pm = Some (ph, mk) \<Longrightarrow> patterns_ok ph mk"
  shows "visible (gate_for pm) bs = passing pm bs"
    and "pm = Some (ph, mk) \<Longrightarrow> snd (gate_result (gate_for pm) bs) = verdict_actions ph mk bs
      \<and> (\<exists>g. fst (gate_result (gate_for pm) bs) = Some g
          \<and> (passed g \<longleftrightarrow> find_sub mk bs \<noteq> None \<and> prompts ph (before_mark mk bs) \<le> 1)
          \<and> (refused g \<longleftrightarrow> 2 \<le> prompts ph (before_mark mk bs)))"
proof -
  have v: "snd (gate_result (gate_for pm) bs) = verdict_actions ph mk bs
      \<and> (\<exists>g. fst (gate_result (gate_for pm) bs) = Some g
          \<and> (passed g \<longleftrightarrow> find_sub mk bs \<noteq> None \<and> prompts ph (before_mark mk bs) \<le> 1)
          \<and> (refused g \<longleftrightarrow> 2 \<le> prompts ph (before_mark mk bs)))" if "pm = Some (ph, mk)" for ph mk
    using feed_verdict [OF assms [OF that], of bs] by (simp add: that gate_for_def gate_result_def split_beta)
  then show "pm = Some (ph, mk) \<Longrightarrow> snd (gate_result (gate_for pm) bs) = verdict_actions ph mk bs
      \<and> (\<exists>g. fst (gate_result (gate_for pm) bs) = Some g
          \<and> (passed g \<longleftrightarrow> find_sub mk bs \<noteq> None \<and> prompts ph (before_mark mk bs) \<le> 1)
          \<and> (refused g \<longleftrightarrow> 2 \<le> prompts ph (before_mark mk bs)))" by blast
  have "bytes_of (map Byte bs) = bs" for bs by (induction bs) auto
  then show "visible (gate_for pm) bs = passing pm bs"
    using v by (cases pm) (auto simp: visible_def passing_def gate_for_def gate_result_def)
qed

text \<open>How an undisturbed read ends: the trace, and the result the end state stands for.\<close>

lemma read_channel_end:
  assumes run: "read_channel always (gate_for pm) rounds outs errs t code = Some (p, res)"
    and pats: "\<And>ph mk. pm = Some (ph, mk) \<Longrightarrow> patterns_ok ph mk" and wanted: "list_all wanted rounds"
  obtains q where "reading_inv (gate_for pm) q" "finish_reading always outs errs t (q, False) = (p, False)"
    "rr_superseded res = False" "rr_exit_code res = code"
    "rr_gate_passed res = (case rd_gate p of None \<Rightarrow> True | Some g \<Rightarrow> passed g)"
    "rr_refused res \<longrightarrow> rd_refused p \<or> \<not> rr_gate_passed res"
proof -
  have sound: "gate_sound (gate_for pm)" by (rule gate_for_sound) (rule pats)
  obtain q gone where l: "read_loop always rounds (new_reading (gate_for pm)) = Some (q, gone)"
    using run by (auto simp: read_channel_def split: option.splits)
  have nr: "\<not> rd_refused (new_reading (gate_for pm))" by (simp add: new_reading_def)
  note li = read_loop_inv [OF sound reading_inv_new [OF sound] nr l]
  have gone: "gone = False" using li wanted by (auto simp: list_all_iff)
  obtain p' gone' where f: "finish_reading always outs errs t (q, False) = (p', gone')" by force
  note fi = finish_reading_inv [OF sound conjunct1 [OF li] f]
  show thesis
    using that [of q] run l gone f fi li by (auto simp: read_channel_def Let_def split: option.splits)
qed

text \<open>A refused gate lets nothing through.\<close>

lemma refused_passes_nothing:
  assumes pats: "\<And>ph mk. pm = Some (ph, mk) \<Longrightarrow> patterns_ok ph mk"
    and gp: "gate_part (gate_for pm) p" and refused: "rd_refused p"
  shows "passing pm (rd_taken p) = []"
proof (cases pm)
  case None
  then show ?thesis using refused gp by (auto simp: gate_part_def gate_refused_def gate_for_def gate_result_def)
next
  case (Some x)
  note gr = gate_for_result [OF pats]
  obtain ph mk where x: "pm = Some (ph, mk)" using Some by (cases x) simp
  obtain g where g: "fst (gate_result (gate_for pm) (rd_taken p)) = Some g" "refused g \<longleftrightarrow> 2 \<le> prompts ph (before_mark mk (rd_taken p))"
    using gr(2) [OF _ x] by blast
  have "refused g" using refused gp g(1) by (auto simp: gate_part_def gate_refused_def)
  then show ?thesis using g(2) by (auto simp: passing_def x verdict_actions_def split: option.splits)
qed


definition sample_phrase :: bytestr where "sample_phrase = [80, 49]"
definition sample_mark :: bytestr where "sample_mark = [77, 50]"

definition sample_rounds :: "round list" where
  "sample_rounds =
    [\<lparr>wanted = True, out_read = Some ([80, 49, 77, 50, 111], 0, 0, 0), err_read = None, flush_time = 0, ended = False\<rparr>,
     \<lparr>wanted = True, out_read = None, err_read = None, flush_time = 0, ended = True\<rparr>]"


end
