(* ===== verification/Update_Check.thy ===== *)
theory Update_Check
  imports Py_Text "HOL-Library.List_Lexorder"
begin

text \<open>
  The update check (\<open>update_check.py\<close> and the route \<open>check_update\<close>) and the command line's port
  (\<open>_parse_port\<close> of \<open>main.py\<close>). An exception is described by what \<open>isinstance\<close> tells of it: the
  first class of the chain it belongs to.
\<close>

section \<open>Versions\<close>

definition version_tuple :: "pystr \<Rightarrow> int list" where
  "version_tuple v = map (\<lambda>p. case py_int p of None \<Rightarrow> 0 | Some i \<Rightarrow> i) (split_on 46 v)"

section \<open>Why a check failed\<close>

datatype cause = Certificate_Unverified | Ssl_Cut_Off | Ssl_Failure | Lookup_Failure | Timed_Out
  | Refused_Or_Reset | Net_Unreachable | Other_Cause

text \<open>A URLError carries its reason; None is one without.\<close>

datatype update_failure = Http_Status int | Bad_Json | Url_Failure "cause option" | Plain_Failure cause

definition cause_text :: "bool \<Rightarrow> cause \<Rightarrow> pystr" where
  "cause_text is_url c =
     (case c of
        Certificate_Unverified \<Rightarrow> lit ''GitHub's certificate could not be verified. This usually means antivirus or a network filter is inspecting HTTPS traffic.''
      | Ssl_Cut_Off \<Rightarrow> lit ''The secure connection was cut off during the handshake with GitHub.''
      | Ssl_Failure \<Rightarrow> lit ''The secure connection to GitHub failed.''
      | Lookup_Failure \<Rightarrow> lit ''The address for api.github.com could not be looked up. Check DNS or the internet connection.''
      | Timed_Out \<Rightarrow> lit ''GitHub didn't respond in time.''
      | Refused_Or_Reset \<Rightarrow> lit ''The connection was refused or reset. A firewall or proxy may be blocking it.''
      | Net_Unreachable \<Rightarrow> lit ''No network connection.''
      | Other_Cause \<Rightarrow>
          if is_url then lit ''Couldn't reach GitHub. Check the internet connection.''
          else lit ''The update check failed unexpectedly. Try again later.'')"

definition update_error_reason :: "update_failure \<Rightarrow> pystr" where
  "update_error_reason e =
     (case e of
        Http_Status code \<Rightarrow>
          if code = 403 then lit ''GitHub is rate-limiting update checks from this network. Try again later.''
          else if code = 404 then lit ''No published release was found.''
          else if 500 \<le> code \<and> code < 600 then lit ''GitHub is having trouble on its end (HTTP '' @ int_text code @ lit '').''
          else lit ''GitHub returned an error (HTTP '' @ int_text code @ lit '').''
      | Bad_Json \<Rightarrow> lit ''GitHub returned something unexpected. This often means a proxy or a guest wifi sign-in page answered instead.''
      | Url_Failure None \<Rightarrow> cause_text True Other_Cause
      | Url_Failure (Some c) \<Rightarrow> cause_text True c
      | Plain_Failure c \<Rightarrow> cause_text False c)"

section \<open>The check\<close>

text \<open>The answer's text, parsed; an answer that is no object, or whose tag is no text, raises.\<close>

definition lstrip_v :: "pystr \<Rightarrow> pystr" where
  "lstrip_v s = dropWhile (\<lambda>c. c = 118 \<or> c = 86) s"

definition latest_version :: "json \<Rightarrow> pystr option" where
  "latest_version data =
     (case data of
        JObj d \<Rightarrow>
          (case json_get d ''tag_name'' of
             None \<Rightarrow> Some []
           | Some v \<Rightarrow> if \<not> truthy v then Some [] else map_option lstrip_v (str_of (Some v)))
      | _ \<Rightarrow> None)"

datatype fetched_release = Release json | Release_Failure update_failure

definition fetch_latest_version :: "fetched_release \<Rightarrow> update_failure + pystr" where
  "fetch_latest_version r =
     (case r of
        Release_Failure e \<Rightarrow> Inl e
      | Release data \<Rightarrow> (case latest_version data of None \<Rightarrow> Inl (Plain_Failure Other_Cause) | Some v \<Rightarrow> Inr v))"

datatype update_reply = Update_Status pystr pystr bool | Update_Failed pystr

definition check_update :: "pystr \<Rightarrow> fetched_release \<Rightarrow> update_reply" where
  "check_update current r =
     (case fetch_latest_version r of
        Inl e \<Rightarrow> Update_Failed (update_error_reason e)
      | Inr v \<Rightarrow> Update_Status current v (version_tuple v > version_tuple current))"

section \<open>Versions compare number by number\<close>

fun version_text :: "nat list \<Rightarrow> pystr" where
  "version_text [] = []"
| "version_text [n] = decimal n"
| "version_text (n # m # ns) = decimal n @ 46 # version_text (m # ns)"

lemma decimal_plain: "46 \<notin> set (decimal n)" "decimal n \<noteq> []" "\<not> py_space (hd (decimal n))" "\<not> py_space (last (decimal n))"
proof -
  have d: "set (decimal n) \<subseteq> {48..57}" using decimal_digits by blast
  show "46 \<notin> set (decimal n)" using d by auto
  show e: "decimal n \<noteq> []" using decimal_digits [of n] by (metis digit_run.simps(1) option.distinct(1))
  have p: "\<not> py_space c" if "c \<in> {48..57}" for c using that by (simp add: py_space_def)
  show "\<not> py_space (hd (decimal n))" "\<not> py_space (last (decimal n))"
    using p d e by (meson hd_in_set last_in_set subsetD)+
qed

lemma py_int_decimal: "length (decimal n) \<le> 4300 \<Longrightarrow> py_int (decimal n) = Some (int n)"
proof -
  assume l: "length (decimal n) \<le> 4300"
  have s: "strip (decimal n) = decimal n"
    by (rule strip_id) (simp add: stripped_def decimal_plain)
  obtain c cs where c: "decimal n = c # cs" using decimal_plain(2) by (cases "decimal n") auto
  have "c \<in> {48..57}" using decimal_digits [of n] c by auto
  then have sg: "split_sign (decimal n) = (False, decimal n)" by (auto simp: c)
  show ?thesis using decimal_digits [of n] l by (auto simp: py_int_def s sg Let_def)
qed

lemma version_roundtrip:
  "ns \<noteq> [] \<Longrightarrow> \<forall>n \<in> set ns. length (decimal n) \<le> 4300 \<Longrightarrow> version_tuple (version_text ns) = map int ns"
proof (induction ns rule: version_text.induct)
  case (2 n)
  then show ?case by (simp add: version_tuple_def split_on_no_sep decimal_plain py_int_decimal)
next
  case (3 n m ns)
  then show ?case by (simp add: version_tuple_def split_on_append decimal_plain py_int_decimal)
qed simp

text \<open>
  An update is offered exactly when the released version is the later one, number by number
  (1.10 after 1.9, and a version after its own prefix), whether or not the tag begins with a v.
\<close>

theorem update_offered_exact:
  assumes "ns \<noteq> []" "ms \<noteq> []" "\<forall>n \<in> set (ns @ ms). length (decimal n) \<le> 4300"
  shows "check_update (version_text ms) (Release (JObj [(lit ''tag_name'', JStr (118 # version_text ns))]))
    = Update_Status (version_text ms) (version_text ns) (map int ms < map int ns)"
proof -
  obtain c cs where c: "version_text ns = c # cs" "c \<in> {48..57}"
  proof (cases ns rule: version_text.cases)
    case 1
    then show ?thesis using assms(1) by simp
  next
    case (2 n)
    then show ?thesis using that decimal_digits [of n] decimal_plain(2) [of n] by (cases "decimal n") auto
  next
    case (3 n m rest)
    then show ?thesis using that decimal_digits [of n] decimal_plain(2) [of n] by (cases "decimal n") auto
  qed
  have "lstrip_v (118 # version_text ns) = version_text ns" using c by (auto simp: lstrip_v_def)
  then have "latest_version (JObj [(lit ''tag_name'', JStr (118 # version_text ns))]) = Some (version_text ns)"
    by (simp add: latest_version_def json_get_def)
  then show ?thesis using assms by (simp add: check_update_def fetch_latest_version_def version_roundtrip)
qed

lemma update_offered_exact_witness:
  "check_update (lit ''1.8.4'') (Release (JObj [(lit ''tag_name'', JStr (lit ''v1.10''))]))
     = Update_Status (lit ''1.8.4'') (lit ''1.10'') True"
proof -
  have v: "version_text [1, 8, 4] = lit ''1.8.4''" "version_text [1, 10] = lit ''1.10''"
    by (simp_all add: decimal.simps)
  have b: "\<forall>n \<in> set ([1, 10] @ [1, 8, 4]). length (decimal n) \<le> 4300"
    by (simp add: decimal.simps)
  have "(118 :: nat) # lit ''1.10'' = lit ''v1.10''" by simp
  then show ?thesis
    using update_offered_exact [OF _ _ b, unfolded v] by (simp del: lit_simps)
qed

section \<open>The port of the command line\<close>

datatype port_exit = Needs_Value | Not_Numeric pystr | Out_Of_Range int

definition check_port :: "pystr \<Rightarrow> port_exit + int" where
  "check_port raw =
     (case py_int raw of
        None \<Rightarrow> Inl (Not_Numeric raw)
      | Some p \<Rightarrow> if 1 \<le> p \<and> p \<le> 65535 then Inr p else Inl (Out_Of_Range p))"

fun parse_port_from :: "pystr list \<Rightarrow> int \<Rightarrow> port_exit + int" where
  "parse_port_from [] port = Inr port"
| "parse_port_from (arg # argv) port =
     (if arg = lit ''--port'' then
        (case argv of
           [] \<Rightarrow> Inl Needs_Value
         | raw # argv' \<Rightarrow> (case check_port raw of Inl e \<Rightarrow> Inl e | Inr p \<Rightarrow> parse_port_from argv' p))
      else if take 7 arg = lit ''--port='' then
        (case check_port (drop 7 arg) of Inl e \<Rightarrow> Inl e | Inr p \<Rightarrow> parse_port_from argv p)
      else parse_port_from argv port)"

definition parse_port :: "pystr list \<Rightarrow> port_exit + int" where
  "parse_port argv = parse_port_from argv 3000"

lemma check_port_bounds: "check_port raw = Inr p \<Longrightarrow> 1 \<le> p \<and> p \<le> 65535"
  by (auto simp: check_port_def split: option.splits if_splits)

lemma parse_port_from_bounds:
  "1 \<le> q \<and> q \<le> 65535 \<Longrightarrow> parse_port_from argv q = Inr p \<Longrightarrow> 1 \<le> p \<and> p \<le> 65535"
proof (induction argv q rule: parse_port_from.induct)
  case (2 arg argv port)
  consider "arg = lit ''--port''" | "arg \<noteq> lit ''--port''" "take 7 arg = lit ''--port=''"
    | "arg \<noteq> lit ''--port''" "take 7 arg \<noteq> lit ''--port=''" by blast
  then show ?case
  proof cases
    case 1
    then obtain raw rest r where r: "argv = raw # rest" "check_port raw = Inr r" "parse_port_from rest r = Inr p"
      using "2.prems"(2) by (cases argv) (auto simp del: lit_simps split: sum.splits)
    show ?thesis by (rule "2.IH"(1) [OF 1 r(1,2) check_port_bounds [OF r(2)] r(3)])
  next
    case 2
    then obtain r where r: "check_port (drop 7 arg) = Inr r" "parse_port_from argv r = Inr p"
      using "2.prems"(2) by (auto simp del: lit_simps split: sum.splits)
    show ?thesis by (rule "2.IH"(2) [OF 2 r(1) check_port_bounds [OF r(1)] r(2)])
  next
    case 3
    then have "parse_port_from argv port = Inr p" using "2.prems"(2) by (simp del: lit_simps)
    then show ?thesis by (rule "2.IH"(3) [OF 3 "2.prems"(1)])
  qed
qed simp

lemma parse_port_bounds: "parse_port argv = Inr p \<Longrightarrow> 1 \<le> p \<and> p \<le> 65535"
  using parse_port_from_bounds [of 3000 argv p] by (simp add: parse_port_def)

lemma parse_port_default: "\<forall>a \<in> set argv. a \<noteq> lit ''--port'' \<and> take 7 a \<noteq> lit ''--port='' \<Longrightarrow> parse_port argv = Inr 3000"
  unfolding parse_port_def by (induction argv) (simp_all del: lit_simps)

end
