(* ===== verification/Metrics_Target.thy ===== *)
theory Metrics_Target
  imports Ip_Address Config
begin

text \<open>
  Which address a metrics request may go to, and how much of the reply is read
  (\<open>is_valid_host_string\<close>, \<open>is_allowed_metrics_target\<close>, \<open>_resolve_metrics_hostname\<close> and
  \<open>fetch_metrics\<close> of \<open>metrics_poller.py\<close>). The resolver's answer and the HTTP exchange are the
  environment's.
\<close>

section \<open>Targets\<close>

definition MAX_HOST_LENGTH :: nat where
  "MAX_HOST_LENGTH = 253"

definition is_valid_host_string :: "pystr \<Rightarrow> bool" where
  "is_valid_host_string host \<longleftrightarrow>
     host \<noteq> [] \<and> strip host \<noteq> [] \<and> length host \<le> MAX_HOST_LENGTH
     \<and> list_all (\<lambda>c. \<not> (py_space c \<or> c < 32 \<or> c = 127)) host"

definition allowed_ip :: "ip \<Rightarrow> bool" where
  "allowed_ip a \<longleftrightarrow>
     \<not> (is_loopback a \<or> is_link_local a \<or> is_multicast a \<or> is_unspecified a \<or> is_reserved a)"

text \<open>None is the ValueError of a text that is no address.\<close>

definition is_allowed_metrics_target :: "pystr \<Rightarrow> bool option" where
  "is_allowed_metrics_target s = map_option allowed_ip (ip_address s)"

text \<open>The candidates of \<open>getaddrinfo\<close> (None: it raised \<open>gaierror\<close>), in order.\<close>

datatype resolved = Dns_Error | All_Blocked | Not_An_Address | Address pystr

fun first_allowed :: "pystr list \<Rightarrow> resolved" where
  "first_allowed [] = All_Blocked"
| "first_allowed (c # cs) =
     (case is_allowed_metrics_target c of
        None \<Rightarrow> Not_An_Address
      | Some True \<Rightarrow> Address c
      | Some False \<Rightarrow> first_allowed cs)"

definition resolve_metrics_hostname :: "pystr list option \<Rightarrow> resolved" where
  "resolve_metrics_hostname infos =
     (case infos of None \<Rightarrow> Dns_Error | Some [] \<Rightarrow> Dns_Error | Some cs \<Rightarrow> first_allowed cs)"

text \<open>What \<open>fetch_metrics\<close> does before it opens a connection. Escapes is an exception it lets out.\<close>

datatype target = Fails_With string | Escapes | Go pystr

definition fetch_target :: "pystr \<Rightarrow> pystr list option \<Rightarrow> target" where
  "fetch_target host infos =
     (if \<not> is_valid_host_string host then Fails_With ''invalid host''
      else case ip_address host of
        Some a \<Rightarrow> if allowed_ip a then Go host else Fails_With ''blocked''
      | None \<Rightarrow>
          (case resolve_metrics_hostname infos of
             Dns_Error \<Rightarrow> Fails_With ''dns''
           | All_Blocked \<Rightarrow> Fails_With ''blocked''
           | Not_An_Address \<Rightarrow> Escapes
           | Address c \<Rightarrow> Go c))"

definition metrics_url :: "pystr \<Rightarrow> int \<Rightarrow> pystr" where
  "metrics_url address port =
     lit ''http://'' @ (case ip_address address of Some (V6 _ _) \<Rightarrow> 91 # address @ [93] | _ \<Rightarrow> address)
       @ 58 # int_text port @ lit ''/metrics''"

section \<open>The reply\<close>

fun read_limited :: "nat \<Rightarrow> bytestr list \<Rightarrow> bytestr list option" where
  "read_limited received [] = Some []"
| "read_limited received (c # cs) =
     (if received + length c > METRICS_MAX_RESPONSE_BYTES then None
      else map_option ((#) c) (read_limited (received + length c) cs))"

datatype body = Body bytestr | Body_Error string

definition read_response :: "pystr option \<Rightarrow> bytestr list \<Rightarrow> body" where
  "read_response content_length chunks =
     (let rest = (case read_limited 0 chunks of
                    None \<Rightarrow> Body_Error ''response too large''
                  | Some cs \<Rightarrow> Body (concat cs))
      in case content_length of
           None \<Rightarrow> rest
         | Some s \<Rightarrow>
             if s = [] \<or> \<not> list_all ascii_digit s then Body_Error ''bad response''
             else (case py_int s of
                     None \<Rightarrow> Body_Error ''failed (ValueError)''
                   | Some n \<Rightarrow> if n > int METRICS_MAX_RESPONSE_BYTES then Body_Error ''response too large'' else rest))"

text \<open>
  How the exchange goes: an exception of the library, the deadline of the whole fetch, a status
  that is not a success, or headers and chunks.
\<close>

datatype exchange =
    Connect_Error
  | Http_Timeout
  | Past_Deadline
  | Other_Exception string
  | Status nat
  | Reply "pystr option" "bytestr list"

definition fetch_body :: "exchange \<Rightarrow> body" where
  "fetch_body e =
     (case e of
        Connect_Error \<Rightarrow> Body_Error ''unreachable''
      | Http_Timeout \<Rightarrow> Body_Error ''timeout''
      | Past_Deadline \<Rightarrow> Body_Error ''timeout''
      | Other_Exception name \<Rightarrow> Body_Error (''failed ('' @ name @ '')'')
      | Status n \<Rightarrow> Body_Error (''http status '' @ map char_of (decimal n))
      | Reply content_length chunks \<Rightarrow> read_response content_length chunks)"

datatype fetched = Fetched bytestr | Fetch_Error string | Fetch_Raises

definition fetch_metrics :: "pystr \<Rightarrow> int \<Rightarrow> pystr list option \<Rightarrow> (pystr \<Rightarrow> exchange) \<Rightarrow> fetched" where
  "fetch_metrics host port infos net =
     (case fetch_target host infos of
        Fails_With e \<Rightarrow> Fetch_Error e
      | Escapes \<Rightarrow> Fetch_Raises
      | Go address \<Rightarrow>
          (case fetch_body (net (metrics_url address port)) of
             Body b \<Rightarrow> Fetched b
           | Body_Error e \<Rightarrow> Fetch_Error e))"

section \<open>Ranges in numbers\<close>

lemma foldl_bound:
  "list_all (\<lambda>d. d < b) ns \<Longrightarrow> foldl (\<lambda>n d. b * n + d) a ns < (a + 1) * b ^ length ns" for a b :: nat
proof (induction ns arbitrary: a)
  case (Cons d ns)
  then have "foldl (\<lambda>n d. b * n + d) (b * a + d) ns < (b * a + d + 1) * b ^ length ns" by simp
  also have "\<dots> \<le> (b * (a + 1)) * b ^ length ns"
    using Cons.prems by (intro mult_right_mono) auto
  finally show ?case by (simp add: algebra_simps)
qed simp

lemma big_endian_bound: "list_all (\<lambda>d. d < b) ns \<Longrightarrow> big_endian b ns < b ^ length ns"
  using foldl_bound [of b ns 0] by (simp add: big_endian_def)

lemma all_some_all: "all_some xs = Some ys \<Longrightarrow> (\<And>x. Some x \<in> set xs \<Longrightarrow> P x) \<Longrightarrow> list_all P ys"
  by (induction xs arbitrary: ys rule: all_some.induct) auto

lemma all_some_length: "all_some xs = Some ys \<Longrightarrow> length ys = length xs"
  by (induction xs arbitrary: ys rule: all_some.induct) auto

lemma parse_v4_bound: "parse_v4 s = Some n \<Longrightarrow> n < 2 ^ 32"
proof -
  assume "parse_v4 s = Some n"
  then obtain ds where ds: "length (split_on 46 s) = 4" "all_some (map parse_octet (split_on 46 s)) = Some ds"
    "n = big_endian 256 ds" by (auto simp: parse_v4_def Let_def split: if_splits)
  have "list_all (\<lambda>d. d < 256) ds"
    using ds(2) by (rule all_some_all) (auto simp: parse_octet_def split: if_splits)
  from big_endian_bound [OF this] show ?thesis using all_some_length [OF ds(2)] ds by simp
qed

lemma parse_hextet_bound: "parse_hextet s = Some n \<Longrightarrow> n < 65536"
proof -
  assume "parse_hextet s = Some n"
  then obtain ds where ds: "length s \<le> 4" "all_some (map hex_digit s) = Some ds" "n = big_endian 16 ds"
    by (auto simp: parse_hextet_def split: if_splits)
  have "list_all (\<lambda>d. d < 16) ds"
    using ds(2) by (rule all_some_all) (auto simp: hex_digit_def split: if_splits)
  from big_endian_bound [OF this] have "n < 16 ^ length ds" using ds(3) by simp
  also have "\<dots> \<le> 16 ^ 4" using all_some_length [OF ds(2)] ds(1) by (intro power_increasing) auto
  finally show ?thesis by simp
qed

lemma filled_up:
  "(if c \<or> d \<or> length hs + length ls > 7 then None else Some (hs, 8 - (length hs + length ls), ls)) = Some (hi, k, lo)
     \<Longrightarrow> length hi + k + length lo = 8"
  by (auto split: if_splits)

lemma v6_hextets_length:
  assumes "v6_hextets parts = Some (hi, k, lo)"
  shows "length hi + k + length lo = 8"
proof -
  consider "inner_empty parts = []" | i where "inner_empty parts = [i]" | i j r where "inner_empty parts = i # j # r"
    by (cases "inner_empty parts" rule: list.exhaust; cases "tl (inner_empty parts)") auto
  then show ?thesis
  proof cases
    case 2
    have "\<not> 9 < length parts" using assms by (auto simp: v6_hextets_def)
    then show ?thesis using assms unfolding v6_hextets_def 2 Let_def list.case
      by (simp only: if_False) (rule filled_up)
  qed (use assms in \<open>auto simp: v6_hextets_def split: if_splits\<close>)
qed

lemma parse_v6_bound: "parse_v6_number s = Some n \<Longrightarrow> n < 2 ^ 128"
proof -
  assume "parse_v6_number s = Some n"
  then obtain parts hi k lo h l where p: "v6_hextets parts = Some (hi, k, lo)"
    "all_some (map parse_hextet hi) = Some h" "all_some (map parse_hextet lo) = Some l"
    "n = big_endian 65536 (h @ replicate k 0 @ l)"
    by (auto simp: parse_v6_number_def bind_eq_Some_conv split: option.splits prod.splits)
  have "list_all (\<lambda>d. d < 65536) h" "list_all (\<lambda>d. d < 65536) l"
    using p(2,3) by (auto elim!: all_some_all simp: parse_hextet_bound)
  then have "list_all (\<lambda>d. d < 65536) (h @ replicate k 0 @ l)" by (auto simp: list_all_iff)
  from big_endian_bound [OF this] have "n < 65536 ^ length (h @ replicate k 0 @ l)" using p(4) by simp
  moreover have "length (h @ replicate k 0 @ l) = 8"
    using all_some_length [OF p(2)] all_some_length [OF p(3)] v6_hextets_length [OF p(1)] by simp
  ultimately show ?thesis by simp
qed

text \<open>The first sixteen bits decide every range of IPv6 but two single addresses.\<close>

lemma in_net_v6: "k \<le> 16 \<Longrightarrow> in_net 128 (v6_prefix x) k n \<longleftrightarrow> n div 2 ^ 112 div 2 ^ (16 - k) = x div 2 ^ (16 - k)"
proof -
  assume k: "k \<le> 16"
  have "128 - k = 112 + (16 - k)" using k by simp
  then have e: "(2::nat) ^ (128 - k) = 2 ^ 112 * 2 ^ (16 - k)" by (simp only: power_add)
  show ?thesis by (simp only: in_net_def v6_prefix_def e div_mult2_eq) simp
qed

lemma div_range: "0 < d \<Longrightarrow> h div d = q \<longleftrightarrow> q * d \<le> h \<and> h < (q + 1) * d" for h d q :: nat
proof -
  assume d: "0 < d"
  have "h div d = q \<longleftrightarrow> q \<le> h div d \<and> h div d < q + 1" by auto
  then show ?thesis by (simp only: less_eq_div_iff_mult_less_eq [OF d] div_less_iff_less_mult [OF d])
qed

lemma join_ranges:
  "a \<le> b \<Longrightarrow> b \<le> c \<Longrightarrow> (a \<le> h \<and> h < b) \<or> (b \<le> h \<and> h < c) \<or> P \<longleftrightarrow> (a \<le> h \<and> h < c) \<or> P"
  "b \<le> c \<Longrightarrow> h < b \<or> (b \<le> h \<and> h < c) \<or> P \<longleftrightarrow> h < c \<or> P"
  for a b c h :: nat
  by auto

lemma allowed_v6:
  assumes "h = n div 2 ^ 112"
  shows "allowed_ip (V6 n z) \<longleftrightarrow> (0x2000 \<le> h \<and> h < 0x4000) \<or> (0xFC00 \<le> h \<and> h < 0xFE00) \<or> (0xFEC0 \<le> h \<and> h < 0xFF00)
    \<or> 0x10000 \<le> h"
proof -
  have small: "n \<noteq> 0" "n \<noteq> 1" if "h \<noteq> 0" using that assms by auto
  have r: "is_reserved (V6 n z) \<longleftrightarrow> h < 0x2000 \<or> (0x4000 \<le> h \<and> h < 0xFC00) \<or> (0xFE00 \<le> h \<and> h < 0xFE80)"
    by (simp add: v6_reserved_nets_def in_net_v6 assms div_range join_ranges)
  have l: "is_link_local (V6 n z) \<longleftrightarrow> 0xFE80 \<le> h \<and> h < 0xFEC0" "is_multicast (V6 n z) \<longleftrightarrow> 0xFF00 \<le> h \<and> h < 0x10000"
    by (simp_all add: in_net_v6 assms div_range)
  show ?thesis unfolding allowed_ip_def r l using small by (cases "h = 0") (simp_all, linarith)
qed

lemma in_net_v4: "k \<le> 32 \<Longrightarrow> in_net 32 x k n \<longleftrightarrow> n div 2 ^ (32 - k) = x div 2 ^ (32 - k)"
  by (simp add: in_net_def)

lemma allowed_v4:
  assumes "n < 2 ^ 32"
  shows "allowed_ip (V4 n) \<longleftrightarrow> n \<noteq> 0 \<and> n div 2 ^ 24 \<noteq> 127 \<and> n div 2 ^ 16 \<noteq> 169 * 256 + 254 \<and> n div 2 ^ 24 < 224"
proof -
  have m: "n div 2 ^ 24 < 256" using assms by (simp add: div_less_iff_less_mult)
  have d: "n div 2 ^ 28 = n div 2 ^ 24 div 16" by (simp flip: div_mult2_eq)
  have "m div 16 \<noteq> 14 \<and> m div 16 \<noteq> 15 \<longleftrightarrow> m < 224" if "m < 256" for m :: nat
    using that div_range [of 16 m 14] div_range [of 16 m 15] by (simp, linarith)
  from this [OF m] have "n div 2 ^ 28 \<noteq> 14 \<and> n div 2 ^ 28 \<noteq> 15 \<longleftrightarrow> n div 2 ^ 24 < 224" unfolding d .
  moreover have "allowed_ip (V4 n) \<longleftrightarrow> n div 2 ^ 24 \<noteq> 127 \<and> n div 2 ^ 16 \<noteq> 169 * 256 + 254 \<and> n div 2 ^ 28 \<noteq> 14
      \<and> n \<noteq> 0 \<and> n div 2 ^ 28 \<noteq> 15"
    unfolding allowed_ip_def is_loopback.simps is_link_local.simps is_multicast.simps is_unspecified.simps
      is_reserved.simps by (simp add: in_net_v4)
  ultimately show ?thesis by blast
qed

section \<open>Where a request can go\<close>

lemma first_allowed_address:
  "first_allowed cs = Address c \<Longrightarrow> c \<in> set cs \<and> (\<exists>a. ip_address c = Some a \<and> allowed_ip a)"
  by (induction cs) (auto simp: is_allowed_metrics_target_def split: option.splits bool.splits)

lemma ip_address_bound: "ip_address s = Some a \<Longrightarrow> (case a of V4 n \<Rightarrow> n < 2 ^ 32 | V6 n z \<Rightarrow> n < 2 ^ 128)"
  by (auto simp: ip_address_def dest: parse_v4_bound parse_v6_bound split: if_splits option.splits prod.splits)

lemma read_limited_total:
  "read_limited r cs = Some ds \<Longrightarrow> r \<le> METRICS_MAX_RESPONSE_BYTES \<Longrightarrow>
     ds = cs \<and> r + length (concat cs) \<le> METRICS_MAX_RESPONSE_BYTES"
  by (induction r cs arbitrary: ds rule: read_limited.induct) (auto split: if_splits)

text \<open>The address ranges a request may be sent to.\<close>

definition routable :: "ip \<Rightarrow> bool" where
  "routable a =
     (case a of
        V4 n \<Rightarrow> n \<noteq> 0 \<and> n div 2 ^ 24 \<noteq> 127 \<and> n div 2 ^ 16 \<noteq> 169 * 256 + 254 \<and> n div 2 ^ 24 < 224
      | V6 n _ \<Rightarrow> (let h = n div 2 ^ 112
           in (0x2000 \<le> h \<and> h < 0x4000) \<or> (0xFC00 \<le> h \<and> h < 0xFE00) \<or> (0xFEC0 \<le> h \<and> h < 0xFF00)))"

lemma allowed_routable: "ip_address s = Some a \<Longrightarrow> allowed_ip a \<longleftrightarrow> routable a"
proof (cases a)
  case (V4 n)
  assume "ip_address s = Some a"
  then show ?thesis using ip_address_bound V4 by (force simp: routable_def allowed_v4)
next
  case (V6 n z)
  assume "ip_address s = Some a"
  then have "n < 2 ^ 128" using ip_address_bound [of s a] V6 by simp
  then have "n div 2 ^ 112 < 0x10000" by (simp add: div_less_iff_less_mult)
  then show ?thesis using allowed_v6 [OF refl, of n z] V6 by (simp add: routable_def Let_def)
qed



end
