(* ===== verification/Metrics_Roundtrip.thy ===== *)
theory Metrics_Roundtrip
  imports Metrics_Text
begin

text \<open>
  The parser of the text format returns on every text, and reads back every sample an exporter
  writes by the format's rules.
\<close>

section \<open>Termination of the label loop\<close>

lemma quoted_shrinks: "quoted s = Some (v, r) \<Longrightarrow> length r < length s"
  by (induction s arbitrary: v rule: quoted.induct) (fastforce split: if_splits list.splits)+

lemma skip_length: "length (skip s) \<le> length s"
  by (simp add: skip_def length_dropWhile_le)

lemma label_pair_shrinks:
  assumes "label_pair s = Some (name, raw, sep, rest)"
  shows "length rest < length s"
proof -
  obtain c t e u q v r after where
    "skip s = c # t" "skip (dropWhile name_char t) = e # u" "skip u = q # v" "quoted v = Some (raw, r)"
    "skip r = sep # after" "rest = after"
    using assms by (auto simp: label_pair_def Let_def split: list.splits if_splits option.splits prod.splits)
  note p = this
  have "length rest < length r" using skip_length [of r] p(5,6) by simp
  also have "length r < length v" using quoted_shrinks [OF p(4)] .
  also have "length v < length u" using skip_length [of u] p(3) by simp
  also have "length u < length (dropWhile name_char t)" using skip_length [of "dropWhile name_char t"] p(2) by simp
  also have "length (dropWhile name_char t) \<le> length t" by (rule length_dropWhile_le)
  also have "length t < length s" using skip_length [of s] p(1) by simp
  finally show ?thesis .
qed

lemma label_loop_returns: "\<exists>r. label_loop labels s = Some r"
proof (induction s arbitrary: labels rule: length_induct)
  case (1 s)
  then show ?case
    by (subst label_loop.simps) (auto simp: Let_def dest: label_pair_shrinks split: option.split)
qed

lemma parse_line_returns: "\<exists>r. parse_line l = Some r"
proof -
  obtain b where "label_loop [] (tl (drop (length (takeWhile (\<lambda>c. \<not> py_space c \<and> c \<noteq> 123) l)) l)) = Some b"
    using label_loop_returns by blast
  then show ?thesis by (simp add: parse_line_def Let_def)
qed

lemma parse_lines_returns: "\<exists>d'. parse_lines ls d = Some d'"
proof (induction ls arbitrary: d)
  case (Cons l ls)
  obtain r where "parse_line (strip l) = Some r" using parse_line_returns by blast
  then show ?case using Cons by simp
qed simp

text \<open>
  C39. Parsing always ends. Whatever text a polled host sends, the loop over the labels of each
  line moves forward at every round, so parsing returns, malformed lines included.
\<close>

theorem parse_terminates: "\<exists>d. parse_metrics s = Some d"
  unfolding parse_metrics_def by (rule parse_lines_returns)

section \<open>Writing samples\<close>

text \<open>The format's rules for the writer: three escapes in a quoted value.\<close>

definition escape :: "pystr \<Rightarrow> pystr" where
  "escape v = concat (map (\<lambda>c. if c = 92 then [92, 92] else if c = 34 then [92, 34] else if c = 10 then [92, 110] else [c]) v)"

fun render_pairs :: "labels \<Rightarrow> pystr" where
  "render_pairs [] = [125]"
| "render_pairs [(n, v)] = n @ [61, 34] @ escape v @ [34, 125]"
| "render_pairs ((n, v) # p # ps) = n @ [61, 34] @ escape v @ [34, 44] @ render_pairs (p # ps)"

definition render_sample :: "pystr \<times> labels \<times> pystr \<Rightarrow> pystr" where
  "render_sample e = (case e of (name, ls, value) \<Rightarrow>
     name @ (if ls = [] then [] else 123 # render_pairs ls) @ 32 # value)"

definition good_name :: "pystr \<Rightarrow> bool" where
  "good_name n \<longleftrightarrow> n \<noteq> [] \<and> name_start (hd n) \<and> list_all name_char n"

definition good_sample :: "pystr \<times> labels \<times> pystr \<Rightarrow> bool" where
  "good_sample e = (case e of (name, ls, value) \<Rightarrow>
     name \<noteq> [] \<and> hd name \<noteq> 35 \<and> list_all (\<lambda>c. \<not> py_space c \<and> c \<noteq> 123) name
     \<and> wf_dict ls \<and> list_all (\<lambda>(n, v). good_name n \<and> list_all (\<lambda>c. c = 10 \<or> \<not> line_break c) v) ls
     \<and> value \<noteq> [] \<and> list_all (\<lambda>c. \<not> py_space c) value \<and> py_float value \<noteq> None)"

section \<open>Reading them back\<close>

lemma escape_simps [simp]:
  "escape [] = []"
  "escape (c # v) = (if c = 92 then [92, 92] else if c = 34 then [92, 34] else if c = 10 then [92, 110] else [c]) @ escape v"
  by (simp_all add: escape_def)

lemma quoted_escape: "quoted (escape v @ 34 # r) = Some (escape v, r)"
  by (induction v) auto

lemma unescape_plain: "c \<noteq> 92 \<Longrightarrow> unescape_label (c # s) = c # unescape_label s"
  by (cases s) auto

lemma unescape_escape: "unescape_label (escape v) = v"
  by (induction v) (auto simp: unescape_plain)

lemma escape_id: "92 \<notin> set (escape v) \<Longrightarrow> escape v = v"
  by (induction v) (auto split: if_splits)

lemma name_not_space: "name_char c \<Longrightarrow> \<not> py_space c" "name_start c \<Longrightarrow> \<not> py_space c"
  by (auto simp: name_char_def name_start_def py_space_def)

lemma skip_visible [simp]: "\<not> py_space c \<Longrightarrow> skip (c # s) = c # s"
  by (simp add: skip_def)

lemma visible_text [simp]: "\<not> py_space 61" "\<not> py_space 34" "\<not> py_space 44" "\<not> py_space 125" "\<not> name_char 61"
  by (simp_all add: py_space_def name_char_def name_start_def)

lemma label_pair_render:
  assumes "good_name n" "sep = 44 \<or> sep = 125"
  shows "label_pair (n @ 61 # 34 # escape v @ 34 # sep # r) = Some (n, escape v, sep, r)"
proof -
  obtain c t where n: "n = c # t" "name_start c" "list_all name_char t"
    using assms(1) by (cases n) (auto simp: good_name_def)
  have t: "takeWhile name_char (t @ 61 # x) = t" "dropWhile name_char (t @ 61 # x) = 61 # x" for x
    using n(3) by (simp_all add: list_all_iff takeWhile_tail dropWhile_append3)
  show ?thesis using assms(2) n(2)
    by (auto simp: n(1) label_pair_def name_not_space t quoted_escape Let_def)
qed

lemma take_skip: "good_name n \<Longrightarrow> take 1 (skip (n @ s)) \<noteq> [125]"
  by (cases n) (auto simp: good_name_def name_not_space, auto simp: name_start_def)

lemma label_loop_render:
  "ps \<noteq> [] \<Longrightarrow> list_all (good_name \<circ> fst) ps \<Longrightarrow>
     label_loop d (render_pairs ps @ r) = Some (Some (fold (\<lambda>(n, v). dict_set n v) ps d, r))"
proof (induction ps arbitrary: d rule: render_pairs.induct)
  case (2 n v)
  have raw: "(if 92 \<in> set (escape v) then unescape_label (escape v) else escape v) = v"
    using escape_id [of v] by (auto simp: unescape_escape)
  have "label_pair (n @ 61 # 34 # escape v @ 34 # 125 # r) = Some (n, escape v, 125, r)"
    using 2 by (intro label_pair_render) simp_all
  then show ?case using take_skip [of n] 2 raw by (subst label_loop.simps) (simp add: Let_def)
next
  case (3 n v p ps)
  have raw: "(if 92 \<in> set (escape v) then unescape_label (escape v) else escape v) = v"
    using escape_id [of v] by (auto simp: unescape_escape)
  have "label_pair (n @ 61 # 34 # escape v @ 34 # 44 # render_pairs (p # ps) @ r)
      = Some (n, escape v, 44, render_pairs (p # ps) @ r)"
    using 3 by (intro label_pair_render) simp_all
  then show ?case using take_skip [of n] 3 raw by (subst label_loop.simps) (simp add: Let_def)
qed simp

lemma fold_fresh: "wf_dict (d @ ps) \<Longrightarrow> fold (\<lambda>(n, v). dict_set n v) ps d = d @ ps"
proof (induction ps arbitrary: d)
  case (Cons p ps)
  obtain n v where p: "p = (n, v)" by force
  have "n \<notin> fst ` set d" using Cons.prems by (auto simp: wf_dict_def p)
  then have "dict_set n v d = d @ [(n, v)]" by (induction d) auto
  then show ?case using Cons.IH [of "d @ [(n, v)]"] Cons.prems by (simp add: p)
qed simp

lemma words_one: "list_all (\<lambda>c. \<not> py_space c) v \<Longrightarrow> v \<noteq> [] \<Longrightarrow> py_words (32 # v) = [v]"
proof -
  assume v: "list_all (\<lambda>c. \<not> py_space c) v" "v \<noteq> []"
  have "dropWhile py_space v = v" using v by (cases v) auto
  then have d: "dropWhile py_space (32 # v) = v" by (simp add: py_space_def)
  have t: "takeWhile (\<lambda>c. \<not> py_space c) v = v" "dropWhile (\<lambda>c. \<not> py_space c) v = []"
    using v(1) by (simp_all add: list_all_iff)
  have "py_words [] = []" by (simp add: py_words.simps [of "[]"])
  then show ?thesis unfolding py_words.simps [of "32 # v"] Let_def d t using v(2) by simp
qed

lemma parse_render:
  assumes "good_sample (name, ls, value)"
  shows "parse_line (render_sample (name, ls, value)) = Some (Some (name, \<lparr>x_labels = ls, x_value = the (py_float value)\<rparr>))"
proof -
  have g: "name \<noteq> []" "hd name \<noteq> 35" "\<And>c. c \<in> set name \<Longrightarrow> \<not> py_space c \<and> c \<noteq> 123" "wf_dict ls"
    "list_all (good_name \<circ> fst) ls" "value \<noteq> []" "list_all (\<lambda>c. \<not> py_space c) value" "py_float value \<noteq> None"
    using assms by (auto simp: good_sample_def list_all_iff)
  have pv: "parse_value (32 # value) = py_float value"
    using words_one [OF g(7,6)] by (simp add: parse_value_def py_space_def)
  have tw: "takeWhile (\<lambda>c. \<not> py_space c \<and> c \<noteq> 123) (name @ c # s) = name" if "c = 123 \<or> c = 32" for c s
    using g(3) that by (auto simp: takeWhile_append py_space_def)
  have h: "hd (name @ s) \<noteq> 35" for s using g(1,2) by simp
  show ?thesis
  proof (cases "ls = []")
    case True
    then show ?thesis using g(1,8) tw [of 32] h pv
      by (auto simp: parse_line_def render_sample_def Let_def)
  next
    case False
    have "label_loop [] (render_pairs ls @ 32 # value) = Some (Some (ls, 32 # value))"
      using label_loop_render [OF False g(5)] fold_fresh [of "[]" ls] g(4) by simp
    then show ?thesis using False g(1,8) tw [of 123] h pv
      by (auto simp: parse_line_def render_sample_def Let_def)
  qed
qed

text \<open>The lines of a text.\<close>

lemma splitlines_one:
  "list_all (\<lambda>c. \<not> line_break c) l \<Longrightarrow> splitlines_from cur (l @ 10 # s) = (cur @ l) # splitlines s"
proof (induction l arbitrary: cur)
  case Nil
  then show ?case by (cases s) (simp_all add: splitlines_def line_break_def)
qed simp

lemma splitlines_all:
  "list_all (list_all (\<lambda>c. \<not> line_break c)) ls \<Longrightarrow> splitlines (concat (map (\<lambda>l. l @ [10]) ls)) = ls"
proof (induction ls)
  case (Cons l ls)
  then show ?case using splitlines_one [of l "[]"] by (simp add: splitlines_def)
qed (simp add: splitlines_def)

lemma break_is_space: "line_break c \<Longrightarrow> py_space c"
  by (auto simp: line_break_def py_space_def)

lemma escape_no_break: "list_all (\<lambda>c. c = 10 \<or> \<not> line_break c) v \<Longrightarrow> list_all (\<lambda>c. \<not> line_break c) (escape v)"
  by (induction v) (auto simp: line_break_def)

lemma name_no_break: "good_name n \<Longrightarrow> list_all (\<lambda>c. \<not> line_break c) n"
  unfolding list_all_iff good_name_def using break_is_space name_not_space(1) by blast

lemma no_breaks: "\<not> line_break 61" "\<not> line_break 34" "\<not> line_break 44" "\<not> line_break 123" "\<not> line_break 125"
  "\<not> line_break 32"
  by (simp_all add: line_break_def)

lemma render_pairs_no_break:
  "list_all (\<lambda>(n, v). good_name n \<and> list_all (\<lambda>c. c = 10 \<or> \<not> line_break c) v) ls \<Longrightarrow>
     list_all (\<lambda>c. \<not> line_break c) (render_pairs ls)"
proof (induction ls rule: render_pairs.induct)
  case 1
  then show ?case by (simp add: line_break_def)
next
  case (2 n v)
  then show ?case using name_no_break [of n] by (simp add: escape_no_break no_breaks)
next
  case (3 n v p ps)
  then show ?case using name_no_break [of n] by (simp add: escape_no_break no_breaks)
qed

lemma render_no_break: "good_sample e \<Longrightarrow> list_all (\<lambda>c. \<not> line_break c) (render_sample e)"
proof (cases e)
  case (fields name ls v)
  assume g: "good_sample e"
  have "list_all (\<lambda>c. \<not> line_break c) name" "list_all (\<lambda>c. \<not> line_break c) v"
    using g fields break_is_space by (auto simp: good_sample_def list_all_iff)
  moreover have "list_all (\<lambda>c. \<not> line_break c) (render_pairs ls)"
    using g fields by (intro render_pairs_no_break) (simp add: good_sample_def)
  ultimately show ?thesis using fields by (simp add: render_sample_def line_break_def)
qed

lemma render_all:
  "list_all good_sample es \<Longrightarrow> list_all (list_all (\<lambda>c. \<not> line_break c)) (map render_sample es)"
  by (induction es) (simp_all add: render_no_break)

lemma render_stripped: "good_sample e \<Longrightarrow> strip (render_sample e) = render_sample e"
proof (cases e)
  case (fields name ls v)
  assume g: "good_sample e"
  then have "name \<noteq> []" "v \<noteq> []" "\<not> py_space (hd name)" "\<not> py_space (last v)"
    using fields by (auto simp: good_sample_def list_all_iff)
  then have "stripped (render_sample e)" using fields by (auto simp: stripped_def render_sample_def)
  then show ?thesis by (rule strip_id)
qed

lemma parse_lines_render:
  "list_all good_sample es \<Longrightarrow> parse_lines (map render_sample es) d
     = Some (fold (\<lambda>(name, ls, value). add_sample name \<lparr>x_labels = ls, x_value = the (py_float value)\<rparr>) es d)"
proof (induction es arbitrary: d)
  case (Cons e es)
  obtain name ls v where e: "e = (name, ls, v)" by (cases e)
  have "parse_line (strip (render_sample e)) = Some (Some (name, \<lparr>x_labels = ls, x_value = the (py_float v)\<rparr>))"
    using Cons.prems render_stripped [of e] parse_render [of name ls v] by (simp add: e)
  then show ?case using Cons by (simp add: e)
qed simp


definition tricky :: "(pystr \<times> labels \<times> pystr) list" where
  "tricky = [(lit ''temp'', [(lit ''chip'', [34, 125, 44, 61]), (lit ''_t2'', [92, 110, 10, 32])], lit ''40.5''),
     (lit ''up'', [], lit ''1''), (lit ''temp'', [(lit ''a'', [])], lit ''-2e1'')]"


text \<open>
  A label value with another line separator, which the format allows, does not come back:
  \<open>splitlines\<close> cuts the line there, its first half is malformed, and its second half is read as
  a sample of a metric that nobody wrote.
\<close>

lemma separator_breaks_sample:
  "parse_metrics (render_sample (lit ''up'', [(lit ''a'', [133])], lit ''1'') @ [10])
     = Some [([34, 125], [\<lparr>x_labels = [], x_value = Finite 1\<rparr>])]"
proof -
  have f: "py_float [49] = Some (Finite 1)"
    by (simp add: py_float_def strip_def py_space_def lower_def float_number_def some_digits_def from_digits_def
        ten_to_def digit_value_def DIGIT_ZEROS_def Let_def)
  have "parse_line (strip (lit ''up{a='' @ [34])) = Some None"
    by (simp add: strip_def py_space_def parse_line_def label_loop.simps skip_def label_pair_def name_start_def
        name_char_def Let_def)
  moreover have "parse_value [32, 49] = Some (Finite 1)"
    using words_one [of "[49]"] f by (simp add: parse_value_def py_space_def)
  then have "parse_line (strip (34 # lit ''} 1'')) = Some (Some ([34, 125], \<lparr>x_labels = [], x_value = Finite 1\<rparr>))"
    by (simp add: strip_def py_space_def parse_line_def Let_def)
  ultimately show ?thesis
    by (simp add: parse_metrics_def splitlines_def render_sample_def line_break_def add_sample_def)
qed

end
