(* ===== verification/Spec2Isabelle.thy ===== *)
theory Spec2Isabelle
  imports Message_Routing Ws_Dispatch Ssh_Routes Host_Keys Server_Stop Delivery_Queue Terminal_History Sudo_Gate Output_Batcher Terminal_Writer
    Ssh_Properties Ssh_Teardown Terminal_Control
    Device_Crash Session_Authority Ws_Presence Site_Sessions
    Auth_State Login_Route Response_Headers Debug_Log Channel_Reader Update_Check
    Metrics_Target Metrics_Roundtrip Metrics_Poll
begin

text \<open>
  Simple Network Dashboard is a web server for one household: behind a password it shows the metrics of a
  few machines and runs commands on them over SSH, in a terminal that browsers share. This library models
  the server (\<open>src/simple_network_dashboard/\<close>, Python, one process with an event loop and worker
  threads) as HOL definitions that read like the code, and proves what its parts promise. Names are the
  source's where Isabelle allows; every definition that models code is executable.

  \<^bold>\<open>The parts and how they meet.\<close> A request passes the middlewares (\<open>Http_Guard\<close>), which ask the session store
  (\<open>Session_Store\<close>), and reaches a route: sign-in and sign-out (\<open>Login_Route\<close>, \<open>Site\<close>), devices (\<open>Device_Api\<close>),
  SSH (\<open>Ssh_Routes\<close>), the debug log, the update check, pages. A browser keeps a WebSocket
  (\<open>Ws_Endpoint\<close>, \<open>Ws_Dispatch\<close>); frames for it wait in a queue of the WebSocket manager (\<open>Ws_Manager\<close>). The SSH
  manager holds one slot per device and starts a worker thread per command (\<open>Ssh_State\<close>, \<open>Ssh_Connect\<close>,
  \<open>Ssh_Run\<close>); the worker reads the channel (\<open>Channel_Reader\<close>) through the sudo gate (\<open>Sudo_Gate\<close>) and
  the batcher (\<open>Output_Batcher\<close>), keeps the terminal's history (\<open>Terminal_History\<close>), and a second thread writes
  what is typed (\<open>Terminal_Writer\<close>). Everything a worker says goes through the delivery queue
  (\<open>Delivery_Queue\<close>) to the event loop, which drops what is stale and routes the rest to its owner's
  sockets (\<open>Message_Routing\<close>). A polling loop fetches and parses metrics (\<open>Metrics_Poll\<close>). Four files are
  replaced in the same careful way (\<open>Private_File\<close>).

  \<^bold>\<open>Shared theories.\<close>
  \<^item> \<open>Prelude\<close>: Python strings and dictionaries, JSON string encoding, reachable states, and the locales
    \<open>accounted_queue\<close>, \<open>invariant_system\<close>, \<open>stream_consumer\<close>. The queues of \<open>Delivery_Queue\<close>,
    \<open>Terminal_Writer\<close> and \<open>Ws_Manager\<close> interpret the first; the step relations of the delivery queue, the SSH manager,
    the message routing, the device store and an ended session the second; the gate, the decoder and the terminal's history
    the third.
  \<^item> \<open>Py_Text\<close>, \<open>Ip_Address\<close>: what is used of Python's text, number, JSON and \<open>ipaddress\<close> handling.
  \<^item> \<open>Config\<close>: the constants of \<open>config.py\<close>.
  \<^item> \<open>Private_File\<close>: \<open>_write_private_payload\<close> (\<open>persistence.py\<close>), \<open>SessionStore._publish\<close>
    (\<open>session_manager.py\<close>), \<open>publish_auth_state\<close> (\<open>auth.py\<close>), \<open>_save_known_hosts\<close> (\<open>host_keys.py\<close>) as lists of
    steps that can raise or meet a power loss anywhere; the locale \<open>private_writer\<close> is their contract and is
    interpreted for all four.

  \<^bold>\<open>Terminal and delivery.\<close>
  \<^item> \<open>Delivery_Queue\<close> (\<open>delivery_queue.py\<close>): the operations as atomic steps under the condition, interleaved with the
    loop's callbacks and the drain. Order, no lost wake-up, the reserved tenth.
  \<^item> \<open>Sudo_Gate\<close>, \<open>Output_Batcher\<close>, \<open>Channel_Reader\<close> (\<open>terminal_run.py\<close>): for every cutting of the channel's bytes the
    gate decides as on the whole stream, the decoder gives the same text, and a read offers exactly it.
  \<^item> \<open>Terminal_Writer\<close> (\<open>terminal_run.py\<close>), \<open>Terminal_History\<close> (\<open>terminal_history.py\<close>): bounds, exact byte counts,
    line editing, the cut to a page load's budget.

  \<^bold>\<open>SSH.\<close>
  \<^item> \<open>Ssh_State\<close>, \<open>Ssh_Connect\<close>, \<open>Ssh_Run\<close> (\<open>ssh_session.py\<close>, \<open>ssh_manager.py\<close>, \<open>terminal_control.py\<close>): the record
    \<open>manager\<close> has the slots, the sessions by reference, prompts and idle clocks. Each definition is one section under
    a device's lock; it returns the actions its thread goes on with.
  \<^item> \<open>Ssh_System\<close>: the step relation: any call at any time by anyone, any thread's next action, with an
    environment that decides how connects, reads and writes end. The invariant \<open>ssh_inv\<close>.
  \<^item> \<open>Ssh_Invariant\<close>, \<open>Ssh_Properties\<close>, \<open>Ssh_Teardown\<close>, \<open>Terminal_Control\<close>: the invariant holds; devices are exclusive, prompts
    are bound to their attempt, one worker per session, stale workers disturb nobody, closed sessions are wiped; what
    releases, idle timeouts and prompt sweeps achieve; claims and acknowledgements. Two interleavings show where
    a late teardown disturbs a newer session.
  \<^item> \<open>Ssh_Routes\<close> (\<open>main.py\<close>): the routes, and that no request touches another owner's sessions.
  \<^item> \<open>Host_Keys\<close> (\<open>host_keys.py\<close>): approving, showing and forgetting keys over the known-hosts file. In \<open>Ssh_System\<close> how the
    saving of a key ends is the environment's choice (\<open>e_saved\<close>); here it is computed.
  \<^item> \<open>Message_Routing\<close>: what a worker pushes is seen only by the browsers of the owner who holds the device.

  \<^bold>\<open>Web.\<close>
  \<^item> \<open>Ws_Manager\<close>, \<open>Ws_Properties\<close> (\<open>ws_manager.py\<close>): operations and senders; each socket's stream is what was addressed to it.
  \<^item> \<open>Ws_Endpoint\<close>, \<open>Ws_Presence\<close> (\<open>main.py\<close>): presence of owners and the grace period before their SSH sessions go.
  \<^item> \<open>Ws_Dispatch\<close> (\<open>main.py\<close>): the first frame, cached metrics, and every kind of message with its calls.
  \<^item> \<open>Http_Guard\<close>, \<open>Site\<close>, \<open>Site_Sessions\<close>, \<open>Response_Headers\<close> (\<open>main.py\<close>): the middlewares, requests and sockets around one
    session file, what an ended session can still do; headers, cookies, pages.
  \<^item> \<open>Session_Store\<close>, \<open>Session_Authority\<close> (\<open>session_manager.py\<close>), \<open>Auth_State\<close> (\<open>auth.py\<close>), \<open>Login_Route\<close>: tokens, the throttle,
    the password state and its command.
  \<^item> \<open>Server_Stop\<close>: stopping the server (\<open>lifespan\<close>); starting is in \<open>Device_Store\<close>.

  \<^bold>\<open>Devices and metrics.\<close>
  \<^item> \<open>Device_Store\<close>, \<open>Device_Norm\<close>, \<open>Device_Api\<close>, \<open>Device_Recovery\<close>, \<open>Device_Crash\<close> (\<open>persistence.py\<close>, \<open>runtime_state.py\<close>, \<open>main.py\<close>):
    normalising, the mirrored save, start-up with repair, the routes; a refinement of the abstract list under
    faults, power losses and restarts.
  \<^item> \<open>Metrics_Target\<close>, \<open>Metrics_Text\<close>, \<open>Metrics_Roundtrip\<close>, \<open>Metrics_Extract\<close> (\<open>metrics_poller.py\<close>), \<open>Metrics_Poll\<close> (\<open>main.py\<close>).
  \<^item> \<open>Debug_Log\<close> (\<open>debug_log.py\<close>), \<open>Update_Check\<close> (\<open>update_check.py\<close> and \<open>_parse_port\<close>).

  \<^bold>\<open>Choices.\<close> A step is the code between two points where another thread or coroutine can run: a section under a
  lock, the code between two awaits, an action of a thread outside locks. Exceptions are values: None, a
  constructor, or an \<open>Inl\<close>. Every reading of a clock, every random token, and the answer of every library call
  that can go two ways is an argument. Parameters with named hypotheses, each with a witness: Argon2 and
  the normal form NFC (\<open>argon_law\<close>), paramiko's table of keys (\<open>hosts_law\<close>). SHA-256, DNS, the HTTP exchange, the SSH
  network and the sizes of dumped messages are arguments without laws. Owners and run ids are compared only, so they
  are opaque strings; socket ids are assumed distinct where a property says so. A file is its parsed
  contents; a power loss happens inside a staged write. Floats are exact rationals. Integers are unbounded
  as in Python; the only wrap-around is in Python's own text codecs, written out. The loops that need fuel
  are the event loop's turns in the liveness property, where \<open>2 * n + 2\<close> turns are enough for \<open>n\<close> queued messages;
  the label loop of the metrics parser is a partial function that is proved to return.

  \<^bold>\<open>Not modelled.\<close> The texts of debug lines and of the console (other than those pushed to browsers), log rotation
  and file modes; FastAPI's parsing of requests and the framework's writing of replies; starting uvicorn
  (\<open>__main__.py\<close>); browser code under \<open>static/\<close>; the screenshot tools. A Python dictionary that changes its size under an
  unlocked iteration raises; the model iterates over a snapshot.
\<close>

end
